(* ===== verification/Gms_Prelude.thy ===== *)
theory Gms_Prelude
  imports Main "HOL-Library.Word"
begin

text \<open>
  Shared vocabulary of the development: the machine integer types of the C++ code, the
  helpers of \<^verbatim>\<open>include/gpu_memory_service/util.hpp\<close> (checked addition, power-of-two test,
  alignment), and the word and list lemmas that the component theories use.
\<close>

unbundle bit_operations_syntax

type_synonym u8 = "8 word"
type_synonym u32 = "32 word"
type_synonym u64 = "64 word"

named_theorems gms_word "moving 64-bit comparisons and arithmetic to the naturals"

section \<open>Checked arithmetic (util.hpp)\<close>

definition is_pow2 :: "u64 \<Rightarrow> bool" where
  "is_pow2 v \<longleftrightarrow> v \<noteq> 0 \<and> v AND (v - 1) = 0"

definition checked_add :: "u64 \<Rightarrow> u64 \<Rightarrow> u64 option" where
  "checked_add a b = (if a > - 1 - b then None else Some (a + b))"

text \<open>\<open>detail::align_up\<close>: a non-power-of-two alignment leaves the value unchanged, an overflow gives 0.\<close>

definition detail_align_up :: "u64 \<Rightarrow> u64 \<Rightarrow> u64" where
  "detail_align_up v align =
     (if \<not> is_pow2 align then v
      else let mask = align - 1; r = v + mask in
        if r < v then 0 else r AND NOT mask)"

text \<open>The saturating subtraction \<open>sub\<close> of governed_memory.cpp.\<close>

definition sub :: "u64 \<Rightarrow> u64 \<Rightarrow> u64" where
  "sub a b = (if b \<le> a then a - b else 0)"

section \<open>Decimal output\<close>

text \<open>What \<open>operator<<\<close> and \<open>std::to_string\<close> print for an unsigned integer.\<close>

fun show_nat :: "nat \<Rightarrow> string" where
  "show_nat n = (if n < 10 then [char_of (48 + n)] else show_nat (n div 10) @ [char_of (48 + n mod 10)])"

declare show_nat.simps [simp del]

definition show_word :: "'a::len word \<Rightarrow> string" where
  "show_word w = show_nat (unat w)"

section \<open>Words and naturals\<close>

lemmas [gms_word] = word_less_nat_alt word_le_nat_alt

lemma unat_lt64: "unat (x :: u64) < 18446744073709551616"
  using unsigned_less [of x] by simp

lemma unat_add_le: "unat a + unat b \<le> unat c \<Longrightarrow> unat (a + b :: u64) = unat a + unat b"
  for c :: u64
  by (subst unat_add_lem [symmetric]) (use unat_lt64 [of c] in simp)

lemma unat_add_lt: "unat a + unat b < 2 ^ 64 \<Longrightarrow> unat (a + b :: u64) = unat a + unat b"
  by (subst unat_add_lem [symmetric]) simp

lemma unat_sub_le: "unat b \<le> unat a \<Longrightarrow> unat (a - b :: u64) = unat a - unat b"
  by (simp add: unat_sub word_le_nat_alt)

lemma u64_eq_iff: "(a :: u64) = b \<longleftrightarrow> unat a = unat b"
  by (simp add: word_eq_iff_unsigned)

lemma u64_pos_iff: "(0 :: u64) < a \<longleftrightarrow> a \<noteq> 0"
  by (simp add: word_neq_0_conv)

lemma unat_pos_iff: "0 < unat (a :: u64) \<longleftrightarrow> a \<noteq> 0"
  by (simp add: unat_gt_0)

lemma unat_max64: "unat (- 1 :: u64) = 18446744073709551615"
  by (simp add: unsigned_minus_1_eq_mask mask_eq_exp_minus_1)

lemma u64_succ: "x \<noteq> - 1 \<Longrightarrow> unat (x + 1 :: u64) = Suc (unat x)"
  using unat_max64 unat_lt64 [of x] by (subst unat_add_lt) (auto simp: u64_eq_iff)

lemma checked_add_spec:
  "checked_add a b =
     (if unat a + unat b < 2 ^ 64 then Some (a + b) else None)"
proof -
  have "unat (- 1 - b) = 2 ^ 64 - 1 - unat b"
    by (subst unat_sub) (simp_all add: unsigned_minus_1_eq_mask mask_eq_exp_minus_1)
  then have "a > - 1 - b \<longleftrightarrow> \<not> unat a + unat b < 2 ^ 64"
    using unat_lt64 [of b] by (auto simp: word_less_nat_alt)
  then show ?thesis by (simp add: checked_add_def)
qed

lemma unat_sub_sat: "unat (sub a b) = unat a - unat b"
  by (auto simp: sub_def unat_sub_le gms_word)

section \<open>Powers of two and alignment\<close>

lemma nat_and_pred_zero:
  "0 < m \<Longrightarrow> m AND (m - 1) = 0 \<Longrightarrow> \<exists>n. m = (2::nat) ^ n"
proof (induction m rule: less_induct)
  case (less m)
  show ?case
  proof (cases "even m")
    case True
    then obtain k where k: "m = 2 * k" by (elim evenE)
    with less.prems have "0 < k" by simp
    then have pred: "m - 1 = 1 + 2 * (k - 1)" using k by simp
    have "m AND (m - 1) = 2 * (k AND (k - 1))"
      unfolding pred unfolding k by (subst and_rec) simp
    with less.prems have "k AND (k - 1) = 0" by simp
    with less.IH [of k] \<open>0 < k\<close> k obtain n where "k = 2 ^ n" by auto
    with k have "m = 2 ^ Suc n" by simp
    then show ?thesis ..
  next
    case False
    then obtain k where k: "m = 2 * k + 1" by (elim oddE)
    then have "m AND (m - 1) = 2 * k" by (simp add: and_rec [of "Suc (2 * k)"])
    with less.prems have "k = 0" by simp
    with k have "m = 2 ^ 0" by simp
    then show ?thesis ..
  qed
qed

lemma unat_exp: "n < 64 \<Longrightarrow> unat (2 ^ n :: u64) = 2 ^ n"
proof -
  assume "n < 64"
  then have "(2::nat) ^ n < 2 ^ 64" by (rule power_strict_increasing) simp
  then have "unat (of_nat (2 ^ n) :: u64) = 2 ^ n" by (subst unat_of_nat) simp
  then show ?thesis by simp
qed

lemma is_pow2_iff: "is_pow2 v \<longleftrightarrow> (\<exists>n<64. v = 2 ^ n)"
proof
  assume p: "is_pow2 v"
  then have "v \<noteq> 0" and z: "v AND (v - 1) = 0" by (auto simp: is_pow2_def)
  from \<open>v \<noteq> 0\<close> have pos: "0 < unat v" by (simp add: unat_gt_0)
  have "unat (v - 1) = unat v - 1" using pos by (subst unat_sub_le) auto
  moreover have "unat v AND unat (v - 1) = 0"
    using arg_cong [OF z, of unat] by (simp add: unsigned_and_eq)
  ultimately have "unat v AND (unat v - 1) = 0" by simp
  from nat_and_pred_zero [OF pos this] obtain n where n: "unat v = 2 ^ n" ..
  have "(2::nat) ^ n < 2 ^ 64" using n unat_lt64 [of v] by simp
  then have "n < 64" by (rule power_less_imp_less_exp [rotated]) simp
  moreover have "v = 2 ^ n"
    using n \<open>n < 64\<close> by (simp add: u64_eq_iff unat_exp)
  ultimately show "\<exists>n<64. v = 2 ^ n" by blast
next
  assume "\<exists>n<64. v = 2 ^ n"
  then obtain n where n: "n < 64" "v = 2 ^ n" by blast
  then have "v \<noteq> 0" using unat_exp [of n] by auto
  moreover have "v - 1 = mask n" using n by (simp add: mask_eq_exp_minus_1)
  moreover have "2 ^ n AND (mask n :: u64) = 0"
    by (rule bit_word_eqI) (auto simp: bit_simps)
  ultimately show "is_pow2 v" using n by (simp add: is_pow2_def)
qed

lemma is_pow2_cases:
  assumes "is_pow2 a"
  obtains n where "n < 64" "a = 2 ^ n" "unat a = 2 ^ n"
  using assms by (auto simp: is_pow2_iff unat_exp)

lemma unat_and_not_mask: "unat (r AND NOT (mask n) :: u64) = unat r - unat r mod 2 ^ n"
proof -
  have "r AND NOT (mask n) = r - take_bit n r"
  proof -
    have "take_bit n r + (r AND NOT (mask n)) = r"
      by (subst disjunctive_add_eq_or) (auto simp: bit_eq_iff bit_simps)
    then show ?thesis by (simp add: algebra_simps)
  qed
  moreover have "unat (take_bit n r) = unat r mod 2 ^ n"
    by (simp only: unsigned_take_bit_eq) (simp add: take_bit_eq_mod)
  ultimately show ?thesis by (simp add: unat_sub_le)
qed

definition round_up :: "nat \<Rightarrow> nat \<Rightarrow> nat" where
  "round_up v a = (v + (a - 1)) div a * a"

lemma round_up_ge: "0 < a \<Longrightarrow> v \<le> round_up v a"
  unfolding round_up_def
  using div_mult_mod_eq [of "v + (a - 1)" a] mod_less_divisor [of a "v + (a - 1)"] by linarith

lemma round_up_less: "0 < a \<Longrightarrow> round_up v a < v + a"
  unfolding round_up_def using div_times_less_eq_dividend [of "v + (a - 1)" a] by linarith

lemma round_up_dvd [simp]: "a dvd round_up v a"
  by (simp add: round_up_def)

lemma round_up_least:
  assumes "0 < a" "a dvd w" "v \<le> w" shows "round_up v a \<le> w"
proof -
  from assms(2) obtain k where k: "w = a * k" ..
  have "(v + (a - 1)) div a \<le> (w + (a - 1)) div a"
    using assms(3) by (simp add: div_le_mono)
  also have "\<dots> = k" using assms(1) k by (intro div_nat_eqI) auto
  finally have "(v + (a - 1)) div a * a \<le> k * a" by (rule mult_le_mono1)
  then show ?thesis by (simp only: round_up_def k mult.commute)
qed

lemma detail_align_up_spec:
  assumes "is_pow2 a"
  shows "unat (detail_align_up v a) =
           (if unat v + (unat a - 1) < 2 ^ 64 then round_up (unat v) (unat a) else 0)"
proof -
  from assms obtain n where n: "n < 64" "a = 2 ^ n" "unat a = 2 ^ n" by (rule is_pow2_cases)
  have m: "a - 1 = mask n" using n by (simp add: mask_eq_exp_minus_1)
  have um: "unat (a - 1) = unat a - 1" using n by (subst unat_sub_le) auto
  show ?thesis
  proof (cases "unat v + (unat a - 1) < 2 ^ 64")
    case True
    then have r: "unat (v + (a - 1)) = unat v + (unat a - 1)" using um by (simp add: unat_add_lt)
    then have "\<not> v + (a - 1) < v" by (simp add: word_less_nat_alt)
    then have "unat (detail_align_up v a) = unat ((v + mask n) AND NOT (mask n))"
      using assms m by (simp add: detail_align_up_def Let_def)
    also have "\<dots> = round_up (unat v) (unat a)"
      using r m n by (simp add: unat_and_not_mask round_up_def minus_mod_eq_div_mult)
    finally show ?thesis using True by simp
  next
    case False
    then have "v + (a - 1) < v" using um no_olen_add_nat [of v "a - 1"]
      by (simp add: not_le [symmetric])
    with assms False show ?thesis by (simp add: detail_align_up_def Let_def)
  qed
qed

end
