(* ===== verification/Gms_Types.thy ===== *)
theory Gms_Types
  imports Gms_Prelude
begin

text \<open>
  The strongly typed identities and generations of \<^verbatim>\<open>include/gpu_memory_service/types.hpp\<close>.
  \<open>TypedId\<close> and \<open>TypedGeneration\<close> are templates over a tag type; here the tag is a phantom type
  argument, so that, as in the source, an identity of one domain is not an identity of another.
\<close>

section \<open>Tags\<close>

typedecl GpuMemoryDomainIdTag
typedecl DeviceIdTag
typedecl MemoryRegionIdTag
typedecl AllocationIdTag
typedecl AllocationRequestIdTag
typedecl AllocationLeaseIdTag
typedecl ResidencyIdTag
typedecl ReclaimPlanIdTag
typedecl EvictionPlanIdTag
typedecl CompactionPlanIdTag
typedecl RelocationIdTag
typedecl StagingPlanIdTag
typedecl WorkloadIdTag
typedecl ExecutionIdTag
typedecl WorkerIdTag
typedecl SourceIdTag
typedecl GpuMemoryDomainGenerationGenTag
typedecl DeviceGenerationGenTag
typedecl MemoryRegionGenerationGenTag
typedecl AllocationGenerationGenTag
typedecl AllocationRequestGenerationGenTag
typedecl AllocationLeaseGenerationGenTag
typedecl ResidencyGenerationGenTag
typedecl ReclaimPlanGenerationGenTag
typedecl EvictionPlanGenerationGenTag
typedecl CompactionPlanGenerationGenTag
typedecl RelocationGenerationGenTag
typedecl StagingPlanGenerationGenTag
typedecl PressureGenerationGenTag
typedecl WatermarkGenerationGenTag
typedecl CapacityGenerationGenTag
typedecl ReservationGenerationGenTag
typedecl ResourceClaimGenerationGenTag
typedecl PlacementGenerationGenTag
typedecl WorkloadGenerationGenTag
typedecl ExecutionGenerationGenTag
typedecl WorkerBootIdGenTag
typedecl SourceBootIdGenTag
typedecl CoordinatorEpochGenTag
typedecl AuthorityGenerationGenTag
typedecl RecoveryGenerationGenTag
typedecl RevalidationGenerationGenTag
typedecl CheckpointGenerationGenTag
typedecl ModelResidencyGenerationGenTag
typedecl AdapterGenerationGenTag
typedecl StateGenerationGenTag
typedecl PolicyGenerationGenTag

section \<open>TypedId and TypedGeneration\<close>

datatype 'tag TypedId = TypedId (id_value: u64)

definition TypedId_invalid :: "'tag TypedId" where
  "TypedId_invalid = TypedId 0"

definition is_valid :: "'tag TypedId \<Rightarrow> bool" where
  "is_valid i \<longleftrightarrow> id_value i \<noteq> 0"

datatype 'tag TypedGeneration = TypedGeneration (gen_value: u64)

definition gen_none :: "'tag TypedGeneration" where
  "gen_none = TypedGeneration 0"

definition gen_first :: "'tag TypedGeneration" where
  "gen_first = TypedGeneration 1"

definition is_set :: "'tag TypedGeneration \<Rightarrow> bool" where
  "is_set g \<longleftrightarrow> gen_value g \<noteq> 0"

definition is_first :: "'tag TypedGeneration \<Rightarrow> bool" where
  "is_first g \<longleftrightarrow> gen_value g = 1"

text \<open>\<open>next()\<close>: the largest generation has no successor and gives \<open>none()\<close>.\<close>

definition gen_next :: "'tag TypedGeneration \<Rightarrow> 'tag TypedGeneration" where
  "gen_next g = (if gen_value g = - 1 then TypedGeneration 0 else TypedGeneration (gen_value g + 1))"

definition is_current :: "'tag TypedGeneration \<Rightarrow> 'tag TypedGeneration \<Rightarrow> bool" where
  "is_current g o' \<longleftrightarrow> is_set g \<and> gen_value g = gen_value o'"

type_synonym GpuMemoryDomainId = "GpuMemoryDomainIdTag TypedId"
type_synonym DeviceId = "DeviceIdTag TypedId"
type_synonym MemoryRegionId = "MemoryRegionIdTag TypedId"
type_synonym AllocationId = "AllocationIdTag TypedId"
type_synonym AllocationRequestId = "AllocationRequestIdTag TypedId"
type_synonym AllocationLeaseId = "AllocationLeaseIdTag TypedId"
type_synonym ResidencyId = "ResidencyIdTag TypedId"
type_synonym ReclaimPlanId = "ReclaimPlanIdTag TypedId"
type_synonym EvictionPlanId = "EvictionPlanIdTag TypedId"
type_synonym CompactionPlanId = "CompactionPlanIdTag TypedId"
type_synonym RelocationId = "RelocationIdTag TypedId"
type_synonym StagingPlanId = "StagingPlanIdTag TypedId"
type_synonym WorkloadId = "WorkloadIdTag TypedId"
type_synonym ExecutionId = "ExecutionIdTag TypedId"
type_synonym WorkerId = "WorkerIdTag TypedId"
type_synonym SourceId = "SourceIdTag TypedId"
type_synonym GpuMemoryDomainGeneration = "GpuMemoryDomainGenerationGenTag TypedGeneration"
type_synonym DeviceGeneration = "DeviceGenerationGenTag TypedGeneration"
type_synonym MemoryRegionGeneration = "MemoryRegionGenerationGenTag TypedGeneration"
type_synonym AllocationGeneration = "AllocationGenerationGenTag TypedGeneration"
type_synonym AllocationRequestGeneration = "AllocationRequestGenerationGenTag TypedGeneration"
type_synonym AllocationLeaseGeneration = "AllocationLeaseGenerationGenTag TypedGeneration"
type_synonym ResidencyGeneration = "ResidencyGenerationGenTag TypedGeneration"
type_synonym ReclaimPlanGeneration = "ReclaimPlanGenerationGenTag TypedGeneration"
type_synonym EvictionPlanGeneration = "EvictionPlanGenerationGenTag TypedGeneration"
type_synonym CompactionPlanGeneration = "CompactionPlanGenerationGenTag TypedGeneration"
type_synonym RelocationGeneration = "RelocationGenerationGenTag TypedGeneration"
type_synonym StagingPlanGeneration = "StagingPlanGenerationGenTag TypedGeneration"
type_synonym PressureGeneration = "PressureGenerationGenTag TypedGeneration"
type_synonym WatermarkGeneration = "WatermarkGenerationGenTag TypedGeneration"
type_synonym CapacityGeneration = "CapacityGenerationGenTag TypedGeneration"
type_synonym ReservationGeneration = "ReservationGenerationGenTag TypedGeneration"
type_synonym ResourceClaimGeneration = "ResourceClaimGenerationGenTag TypedGeneration"
type_synonym PlacementGeneration = "PlacementGenerationGenTag TypedGeneration"
type_synonym WorkloadGeneration = "WorkloadGenerationGenTag TypedGeneration"
type_synonym ExecutionGeneration = "ExecutionGenerationGenTag TypedGeneration"
type_synonym WorkerBootId = "WorkerBootIdGenTag TypedGeneration"
type_synonym SourceBootId = "SourceBootIdGenTag TypedGeneration"
type_synonym CoordinatorEpoch = "CoordinatorEpochGenTag TypedGeneration"
type_synonym AuthorityGeneration = "AuthorityGenerationGenTag TypedGeneration"
type_synonym RecoveryGeneration = "RecoveryGenerationGenTag TypedGeneration"
type_synonym RevalidationGeneration = "RevalidationGenerationGenTag TypedGeneration"
type_synonym CheckpointGeneration = "CheckpointGenerationGenTag TypedGeneration"
type_synonym ModelResidencyGeneration = "ModelResidencyGenerationGenTag TypedGeneration"
type_synonym AdapterGeneration = "AdapterGenerationGenTag TypedGeneration"
type_synonym StateGeneration = "StateGenerationGenTag TypedGeneration"
type_synonym PolicyGeneration = "PolicyGenerationGenTag TypedGeneration"

text \<open>\<open>operator<\<close> compares the wrapped values, so identities order a \<open>std::map\<close>.\<close>

definition id_lt :: "'a TypedId \<Rightarrow> 'a TypedId \<Rightarrow> bool" where
  "id_lt a b \<longleftrightarrow> id_value a < id_value b"

definition gen_lt :: "'a TypedGeneration \<Rightarrow> 'a TypedGeneration \<Rightarrow> bool" where
  "gen_lt a b \<longleftrightarrow> gen_value a < gen_value b"

definition gen_le :: "'a TypedGeneration \<Rightarrow> 'a TypedGeneration \<Rightarrow> bool" where
  "gen_le a b \<longleftrightarrow> gen_value a \<le> gen_value b"

declare id_lt_def [simp] gen_lt_def [simp] gen_le_def [simp]

instantiation TypedId :: (type) linorder
begin

definition less_eq_TypedId :: "'a TypedId \<Rightarrow> 'a TypedId \<Rightarrow> bool" where
  "less_eq_TypedId a b \<longleftrightarrow> id_value a \<le> id_value b"

definition less_TypedId :: "'a TypedId \<Rightarrow> 'a TypedId \<Rightarrow> bool" where
  "less_TypedId a b \<longleftrightarrow> id_lt a b"

instance
  by standard (auto simp: less_eq_TypedId_def less_TypedId_def TypedId.expand)

end

instantiation TypedGeneration :: (type) linorder
begin

definition less_eq_TypedGeneration :: "'a TypedGeneration \<Rightarrow> 'a TypedGeneration \<Rightarrow> bool" where
  "less_eq_TypedGeneration a b \<longleftrightarrow> gen_le a b"

definition less_TypedGeneration :: "'a TypedGeneration \<Rightarrow> 'a TypedGeneration \<Rightarrow> bool" where
  "less_TypedGeneration a b \<longleftrightarrow> gen_lt a b"

instance
  by standard (auto simp: less_eq_TypedGeneration_def less_TypedGeneration_def TypedGeneration.expand)

end

section \<open>Generations only advance\<close>

lemma id_value_inject [simp]: "id_value a = id_value b \<longleftrightarrow> a = b"
  by (auto intro: TypedId.expand)

lemma gen_value_inject [simp]: "gen_value a = gen_value b \<longleftrightarrow> a = b"
  by (auto intro: TypedGeneration.expand)

lemma gen_next_set:
  assumes "gen_value g \<noteq> - 1"
  shows "unat (gen_value (gen_next g)) = Suc (unat (gen_value g))"
  using assms by (simp add: gen_next_def u64_succ)

lemma gen_next_neq: "gen_next g \<noteq> g"
proof (cases "gen_value g = - 1")
  case True
  then show ?thesis by (cases g) (auto simp: gen_next_def)
next
  case False
  then show ?thesis using gen_next_set [OF False] by auto
qed

lemma gen_next_advances: "gen_value g \<noteq> - 1 \<Longrightarrow> g < gen_next g \<and> is_set (gen_next g)"
  by (auto simp: less_TypedGeneration_def word_less_nat_alt gen_next_set is_set_def
      simp flip: unat_eq_zero)

end
