(* ===== verification/Gms_Enums.thy ===== *)
theory Gms_Enums
  imports Gms_Prelude
begin

text \<open>
  The enumerations of \<^verbatim>\<open>include/gpu_memory_service/enum.hpp\<close>, with the source's enumerators and
  their \<open>to_string\<close> names, and the \<open>Failure\<close> and \<open>Result\<close> types of \<^verbatim>\<open>error.hpp\<close>.  Every
  enumeration has the fixed underlying type \<open>std::uint8_t\<close>, so a value cast from a byte that
  no enumerator names is still a value of the type: it is \<open>Unnamed b\<close> of the datatype.
  \<open>X_code\<close> is \<open>static_cast<std::uint8_t>\<close> and \<open>X_of_code\<close> is \<open>static_cast<X>\<close>.
\<close>

section \<open>Enumerations (enum.hpp)\<close>

definition enum_cast :: "'e list \<Rightarrow> (u8 \<Rightarrow> 'e) \<Rightarrow> u8 \<Rightarrow> 'e" where
  "enum_cast names unnamed b = (if unat b < length names then names ! unat b else unnamed b)"

datatype Provenance =
    UNKNOWN
  | MEASURED
  | REPORTED
  | DERIVED
  | ESTIMATED
  | SYNTHETIC
  | RECONSTRUCTED
  | Unnamed u8

primrec Provenance_to_string :: "Provenance \<Rightarrow> string" where
  "Provenance_to_string Provenance.UNKNOWN = ''UNKNOWN''"
| "Provenance_to_string Provenance.MEASURED = ''MEASURED''"
| "Provenance_to_string Provenance.REPORTED = ''REPORTED''"
| "Provenance_to_string Provenance.DERIVED = ''DERIVED''"
| "Provenance_to_string Provenance.ESTIMATED = ''ESTIMATED''"
| "Provenance_to_string Provenance.SYNTHETIC = ''SYNTHETIC''"
| "Provenance_to_string Provenance.RECONSTRUCTED = ''RECONSTRUCTED''"
| "Provenance_to_string (Provenance.Unnamed b) = ''UNKNOWN''"

primrec Provenance_code :: "Provenance \<Rightarrow> u8" where
  "Provenance_code Provenance.UNKNOWN = 0"
| "Provenance_code Provenance.MEASURED = 1"
| "Provenance_code Provenance.REPORTED = 2"
| "Provenance_code Provenance.DERIVED = 3"
| "Provenance_code Provenance.ESTIMATED = 4"
| "Provenance_code Provenance.SYNTHETIC = 5"
| "Provenance_code Provenance.RECONSTRUCTED = 6"
| "Provenance_code (Provenance.Unnamed b) = b"

definition Provenance_of_code :: "u8 \<Rightarrow> Provenance" where
  "Provenance_of_code = enum_cast
     [Provenance.UNKNOWN,
      Provenance.MEASURED,
      Provenance.REPORTED,
      Provenance.DERIVED,
      Provenance.ESTIMATED,
      Provenance.SYNTHETIC,
      Provenance.RECONSTRUCTED] Provenance.Unnamed"

datatype MemoryClass =
    UNKNOWN
  | MODEL_WEIGHTS
  | ADAPTER_WEIGHTS
  | KV_CACHE
  | ACTIVATION
  | TEMP_WORKSPACE
  | COMMUNICATION_BUFFER
  | COLLECTIVE_BUFFER
  | CHECKPOINT_STAGING
  | STATE_CACHE
  | COMPILATION_ARTIFACT
  | USER_BUFFER
  | INTERNAL
  | Unnamed u8

primrec MemoryClass_to_string :: "MemoryClass \<Rightarrow> string" where
  "MemoryClass_to_string MemoryClass.UNKNOWN = ''UNKNOWN''"
| "MemoryClass_to_string MemoryClass.MODEL_WEIGHTS = ''MODEL_WEIGHTS''"
| "MemoryClass_to_string MemoryClass.ADAPTER_WEIGHTS = ''ADAPTER_WEIGHTS''"
| "MemoryClass_to_string MemoryClass.KV_CACHE = ''KV_CACHE''"
| "MemoryClass_to_string MemoryClass.ACTIVATION = ''ACTIVATION''"
| "MemoryClass_to_string MemoryClass.TEMP_WORKSPACE = ''TEMP_WORKSPACE''"
| "MemoryClass_to_string MemoryClass.COMMUNICATION_BUFFER = ''COMMUNICATION_BUFFER''"
| "MemoryClass_to_string MemoryClass.COLLECTIVE_BUFFER = ''COLLECTIVE_BUFFER''"
| "MemoryClass_to_string MemoryClass.CHECKPOINT_STAGING = ''CHECKPOINT_STAGING''"
| "MemoryClass_to_string MemoryClass.STATE_CACHE = ''STATE_CACHE''"
| "MemoryClass_to_string MemoryClass.COMPILATION_ARTIFACT = ''COMPILATION_ARTIFACT''"
| "MemoryClass_to_string MemoryClass.USER_BUFFER = ''USER_BUFFER''"
| "MemoryClass_to_string MemoryClass.INTERNAL = ''INTERNAL''"
| "MemoryClass_to_string (MemoryClass.Unnamed b) = ''UNKNOWN''"

primrec MemoryClass_code :: "MemoryClass \<Rightarrow> u8" where
  "MemoryClass_code MemoryClass.UNKNOWN = 0"
| "MemoryClass_code MemoryClass.MODEL_WEIGHTS = 1"
| "MemoryClass_code MemoryClass.ADAPTER_WEIGHTS = 2"
| "MemoryClass_code MemoryClass.KV_CACHE = 3"
| "MemoryClass_code MemoryClass.ACTIVATION = 4"
| "MemoryClass_code MemoryClass.TEMP_WORKSPACE = 5"
| "MemoryClass_code MemoryClass.COMMUNICATION_BUFFER = 6"
| "MemoryClass_code MemoryClass.COLLECTIVE_BUFFER = 7"
| "MemoryClass_code MemoryClass.CHECKPOINT_STAGING = 8"
| "MemoryClass_code MemoryClass.STATE_CACHE = 9"
| "MemoryClass_code MemoryClass.COMPILATION_ARTIFACT = 10"
| "MemoryClass_code MemoryClass.USER_BUFFER = 11"
| "MemoryClass_code MemoryClass.INTERNAL = 12"
| "MemoryClass_code (MemoryClass.Unnamed b) = b"

definition MemoryClass_of_code :: "u8 \<Rightarrow> MemoryClass" where
  "MemoryClass_of_code = enum_cast
     [MemoryClass.UNKNOWN,
      MemoryClass.MODEL_WEIGHTS,
      MemoryClass.ADAPTER_WEIGHTS,
      MemoryClass.KV_CACHE,
      MemoryClass.ACTIVATION,
      MemoryClass.TEMP_WORKSPACE,
      MemoryClass.COMMUNICATION_BUFFER,
      MemoryClass.COLLECTIVE_BUFFER,
      MemoryClass.CHECKPOINT_STAGING,
      MemoryClass.STATE_CACHE,
      MemoryClass.COMPILATION_ARTIFACT,
      MemoryClass.USER_BUFFER,
      MemoryClass.INTERNAL] MemoryClass.Unnamed"

datatype Reclaimability =
    UNKNOWN
  | NEVER_RECLAIM
  | RECLAIM_AFTER_COMPLETION
  | RECLAIM_IF_COLD
  | RECLAIM_IF_RELOADABLE
  | RECLAIM_IF_CHECKPOINTED
  | BEST_EFFORT
  | Unnamed u8

primrec Reclaimability_to_string :: "Reclaimability \<Rightarrow> string" where
  "Reclaimability_to_string Reclaimability.UNKNOWN = ''UNKNOWN''"
| "Reclaimability_to_string Reclaimability.NEVER_RECLAIM = ''NEVER_RECLAIM''"
| "Reclaimability_to_string Reclaimability.RECLAIM_AFTER_COMPLETION = ''RECLAIM_AFTER_COMPLETION''"
| "Reclaimability_to_string Reclaimability.RECLAIM_IF_COLD = ''RECLAIM_IF_COLD''"
| "Reclaimability_to_string Reclaimability.RECLAIM_IF_RELOADABLE = ''RECLAIM_IF_RELOADABLE''"
| "Reclaimability_to_string Reclaimability.RECLAIM_IF_CHECKPOINTED = ''RECLAIM_IF_CHECKPOINTED''"
| "Reclaimability_to_string Reclaimability.BEST_EFFORT = ''BEST_EFFORT''"
| "Reclaimability_to_string (Reclaimability.Unnamed b) = ''UNKNOWN''"

primrec Reclaimability_code :: "Reclaimability \<Rightarrow> u8" where
  "Reclaimability_code Reclaimability.UNKNOWN = 0"
| "Reclaimability_code Reclaimability.NEVER_RECLAIM = 1"
| "Reclaimability_code Reclaimability.RECLAIM_AFTER_COMPLETION = 2"
| "Reclaimability_code Reclaimability.RECLAIM_IF_COLD = 3"
| "Reclaimability_code Reclaimability.RECLAIM_IF_RELOADABLE = 4"
| "Reclaimability_code Reclaimability.RECLAIM_IF_CHECKPOINTED = 5"
| "Reclaimability_code Reclaimability.BEST_EFFORT = 6"
| "Reclaimability_code (Reclaimability.Unnamed b) = b"

definition Reclaimability_of_code :: "u8 \<Rightarrow> Reclaimability" where
  "Reclaimability_of_code = enum_cast
     [Reclaimability.UNKNOWN,
      Reclaimability.NEVER_RECLAIM,
      Reclaimability.RECLAIM_AFTER_COMPLETION,
      Reclaimability.RECLAIM_IF_COLD,
      Reclaimability.RECLAIM_IF_RELOADABLE,
      Reclaimability.RECLAIM_IF_CHECKPOINTED,
      Reclaimability.BEST_EFFORT] Reclaimability.Unnamed"

datatype LifecycleState =
    REQUESTED
  | VALIDATING
  | RESERVED
  | ALLOCATING
  | ALLOCATED
  | RESIDENT
  | PINNED
  | RECLAIMABLE
  | EVICTION_PENDING
  | EVICTING
  | RELOCATION_PENDING
  | RELOCATING
  | RELEASE_PENDING
  | RELEASED
  | FAILED
  | STALE
  | REVALIDATION_REQUIRED
  | SUPERSEDED
  | RETIRED
  | Unnamed u8

primrec LifecycleState_to_string :: "LifecycleState \<Rightarrow> string" where
  "LifecycleState_to_string LifecycleState.REQUESTED = ''REQUESTED''"
| "LifecycleState_to_string LifecycleState.VALIDATING = ''VALIDATING''"
| "LifecycleState_to_string LifecycleState.RESERVED = ''RESERVED''"
| "LifecycleState_to_string LifecycleState.ALLOCATING = ''ALLOCATING''"
| "LifecycleState_to_string LifecycleState.ALLOCATED = ''ALLOCATED''"
| "LifecycleState_to_string LifecycleState.RESIDENT = ''RESIDENT''"
| "LifecycleState_to_string LifecycleState.PINNED = ''PINNED''"
| "LifecycleState_to_string LifecycleState.RECLAIMABLE = ''RECLAIMABLE''"
| "LifecycleState_to_string LifecycleState.EVICTION_PENDING = ''EVICTION_PENDING''"
| "LifecycleState_to_string LifecycleState.EVICTING = ''EVICTING''"
| "LifecycleState_to_string LifecycleState.RELOCATION_PENDING = ''RELOCATION_PENDING''"
| "LifecycleState_to_string LifecycleState.RELOCATING = ''RELOCATING''"
| "LifecycleState_to_string LifecycleState.RELEASE_PENDING = ''RELEASE_PENDING''"
| "LifecycleState_to_string LifecycleState.RELEASED = ''RELEASED''"
| "LifecycleState_to_string LifecycleState.FAILED = ''FAILED''"
| "LifecycleState_to_string LifecycleState.STALE = ''STALE''"
| "LifecycleState_to_string LifecycleState.REVALIDATION_REQUIRED = ''REVALIDATION_REQUIRED''"
| "LifecycleState_to_string LifecycleState.SUPERSEDED = ''SUPERSEDED''"
| "LifecycleState_to_string LifecycleState.RETIRED = ''RETIRED''"
| "LifecycleState_to_string (LifecycleState.Unnamed b) = ''UNKNOWN''"

primrec LifecycleState_code :: "LifecycleState \<Rightarrow> u8" where
  "LifecycleState_code LifecycleState.REQUESTED = 0"
| "LifecycleState_code LifecycleState.VALIDATING = 1"
| "LifecycleState_code LifecycleState.RESERVED = 2"
| "LifecycleState_code LifecycleState.ALLOCATING = 3"
| "LifecycleState_code LifecycleState.ALLOCATED = 4"
| "LifecycleState_code LifecycleState.RESIDENT = 5"
| "LifecycleState_code LifecycleState.PINNED = 6"
| "LifecycleState_code LifecycleState.RECLAIMABLE = 7"
| "LifecycleState_code LifecycleState.EVICTION_PENDING = 8"
| "LifecycleState_code LifecycleState.EVICTING = 9"
| "LifecycleState_code LifecycleState.RELOCATION_PENDING = 10"
| "LifecycleState_code LifecycleState.RELOCATING = 11"
| "LifecycleState_code LifecycleState.RELEASE_PENDING = 12"
| "LifecycleState_code LifecycleState.RELEASED = 13"
| "LifecycleState_code LifecycleState.FAILED = 14"
| "LifecycleState_code LifecycleState.STALE = 15"
| "LifecycleState_code LifecycleState.REVALIDATION_REQUIRED = 16"
| "LifecycleState_code LifecycleState.SUPERSEDED = 17"
| "LifecycleState_code LifecycleState.RETIRED = 18"
| "LifecycleState_code (LifecycleState.Unnamed b) = b"

definition LifecycleState_of_code :: "u8 \<Rightarrow> LifecycleState" where
  "LifecycleState_of_code = enum_cast
     [LifecycleState.REQUESTED,
      LifecycleState.VALIDATING,
      LifecycleState.RESERVED,
      LifecycleState.ALLOCATING,
      LifecycleState.ALLOCATED,
      LifecycleState.RESIDENT,
      LifecycleState.PINNED,
      LifecycleState.RECLAIMABLE,
      LifecycleState.EVICTION_PENDING,
      LifecycleState.EVICTING,
      LifecycleState.RELOCATION_PENDING,
      LifecycleState.RELOCATING,
      LifecycleState.RELEASE_PENDING,
      LifecycleState.RELEASED,
      LifecycleState.FAILED,
      LifecycleState.STALE,
      LifecycleState.REVALIDATION_REQUIRED,
      LifecycleState.SUPERSEDED,
      LifecycleState.RETIRED] LifecycleState.Unnamed"

datatype ResidencyState =
    UNKNOWN
  | NONRESIDENT
  | STAGING
  | RESIDENT
  | ACTIVE
  | COLD
  | EVICTABLE
  | EVICTING
  | RELOADING
  | STALE
  | REVALIDATION_REQUIRED
  | Unnamed u8

primrec ResidencyState_to_string :: "ResidencyState \<Rightarrow> string" where
  "ResidencyState_to_string ResidencyState.UNKNOWN = ''UNKNOWN''"
| "ResidencyState_to_string ResidencyState.NONRESIDENT = ''NONRESIDENT''"
| "ResidencyState_to_string ResidencyState.STAGING = ''STAGING''"
| "ResidencyState_to_string ResidencyState.RESIDENT = ''RESIDENT''"
| "ResidencyState_to_string ResidencyState.ACTIVE = ''ACTIVE''"
| "ResidencyState_to_string ResidencyState.COLD = ''COLD''"
| "ResidencyState_to_string ResidencyState.EVICTABLE = ''EVICTABLE''"
| "ResidencyState_to_string ResidencyState.EVICTING = ''EVICTING''"
| "ResidencyState_to_string ResidencyState.RELOADING = ''RELOADING''"
| "ResidencyState_to_string ResidencyState.STALE = ''STALE''"
| "ResidencyState_to_string ResidencyState.REVALIDATION_REQUIRED = ''REVALIDATION_REQUIRED''"
| "ResidencyState_to_string (ResidencyState.Unnamed b) = ''UNKNOWN''"

primrec ResidencyState_code :: "ResidencyState \<Rightarrow> u8" where
  "ResidencyState_code ResidencyState.UNKNOWN = 0"
| "ResidencyState_code ResidencyState.NONRESIDENT = 1"
| "ResidencyState_code ResidencyState.STAGING = 2"
| "ResidencyState_code ResidencyState.RESIDENT = 3"
| "ResidencyState_code ResidencyState.ACTIVE = 4"
| "ResidencyState_code ResidencyState.COLD = 5"
| "ResidencyState_code ResidencyState.EVICTABLE = 6"
| "ResidencyState_code ResidencyState.EVICTING = 7"
| "ResidencyState_code ResidencyState.RELOADING = 8"
| "ResidencyState_code ResidencyState.STALE = 9"
| "ResidencyState_code ResidencyState.REVALIDATION_REQUIRED = 10"
| "ResidencyState_code (ResidencyState.Unnamed b) = b"

definition ResidencyState_of_code :: "u8 \<Rightarrow> ResidencyState" where
  "ResidencyState_of_code = enum_cast
     [ResidencyState.UNKNOWN,
      ResidencyState.NONRESIDENT,
      ResidencyState.STAGING,
      ResidencyState.RESIDENT,
      ResidencyState.ACTIVE,
      ResidencyState.COLD,
      ResidencyState.EVICTABLE,
      ResidencyState.EVICTING,
      ResidencyState.RELOADING,
      ResidencyState.STALE,
      ResidencyState.REVALIDATION_REQUIRED] ResidencyState.Unnamed"

datatype PressureState =
    UNKNOWN
  | LOW
  | NORMAL
  | ELEVATED
  | HIGH
  | CRITICAL
  | RECLAIMING
  | RECOVERING
  | STALE
  | REVALIDATION_REQUIRED
  | Unnamed u8

primrec PressureState_to_string :: "PressureState \<Rightarrow> string" where
  "PressureState_to_string PressureState.UNKNOWN = ''UNKNOWN''"
| "PressureState_to_string PressureState.LOW = ''LOW''"
| "PressureState_to_string PressureState.NORMAL = ''NORMAL''"
| "PressureState_to_string PressureState.ELEVATED = ''ELEVATED''"
| "PressureState_to_string PressureState.HIGH = ''HIGH''"
| "PressureState_to_string PressureState.CRITICAL = ''CRITICAL''"
| "PressureState_to_string PressureState.RECLAIMING = ''RECLAIMING''"
| "PressureState_to_string PressureState.RECOVERING = ''RECOVERING''"
| "PressureState_to_string PressureState.STALE = ''STALE''"
| "PressureState_to_string PressureState.REVALIDATION_REQUIRED = ''REVALIDATION_REQUIRED''"
| "PressureState_to_string (PressureState.Unnamed b) = ''UNKNOWN''"

primrec PressureState_code :: "PressureState \<Rightarrow> u8" where
  "PressureState_code PressureState.UNKNOWN = 0"
| "PressureState_code PressureState.LOW = 1"
| "PressureState_code PressureState.NORMAL = 2"
| "PressureState_code PressureState.ELEVATED = 3"
| "PressureState_code PressureState.HIGH = 4"
| "PressureState_code PressureState.CRITICAL = 5"
| "PressureState_code PressureState.RECLAIMING = 6"
| "PressureState_code PressureState.RECOVERING = 7"
| "PressureState_code PressureState.STALE = 8"
| "PressureState_code PressureState.REVALIDATION_REQUIRED = 9"
| "PressureState_code (PressureState.Unnamed b) = b"

definition PressureState_of_code :: "u8 \<Rightarrow> PressureState" where
  "PressureState_of_code = enum_cast
     [PressureState.UNKNOWN,
      PressureState.LOW,
      PressureState.NORMAL,
      PressureState.ELEVATED,
      PressureState.HIGH,
      PressureState.CRITICAL,
      PressureState.RECLAIMING,
      PressureState.RECOVERING,
      PressureState.STALE,
      PressureState.REVALIDATION_REQUIRED] PressureState.Unnamed"

datatype DeviceHealth =
    UNKNOWN
  | HEALTHY
  | DEGRADED
  | UNRESPONSIVE
  | LOST
  | Unnamed u8

primrec DeviceHealth_to_string :: "DeviceHealth \<Rightarrow> string" where
  "DeviceHealth_to_string DeviceHealth.UNKNOWN = ''UNKNOWN''"
| "DeviceHealth_to_string DeviceHealth.HEALTHY = ''HEALTHY''"
| "DeviceHealth_to_string DeviceHealth.DEGRADED = ''DEGRADED''"
| "DeviceHealth_to_string DeviceHealth.UNRESPONSIVE = ''UNRESPONSIVE''"
| "DeviceHealth_to_string DeviceHealth.LOST = ''LOST''"
| "DeviceHealth_to_string (DeviceHealth.Unnamed b) = ''UNKNOWN''"

primrec DeviceHealth_code :: "DeviceHealth \<Rightarrow> u8" where
  "DeviceHealth_code DeviceHealth.UNKNOWN = 0"
| "DeviceHealth_code DeviceHealth.HEALTHY = 1"
| "DeviceHealth_code DeviceHealth.DEGRADED = 2"
| "DeviceHealth_code DeviceHealth.UNRESPONSIVE = 3"
| "DeviceHealth_code DeviceHealth.LOST = 4"
| "DeviceHealth_code (DeviceHealth.Unnamed b) = b"

definition DeviceHealth_of_code :: "u8 \<Rightarrow> DeviceHealth" where
  "DeviceHealth_of_code = enum_cast
     [DeviceHealth.UNKNOWN,
      DeviceHealth.HEALTHY,
      DeviceHealth.DEGRADED,
      DeviceHealth.UNRESPONSIVE,
      DeviceHealth.LOST] DeviceHealth.Unnamed"

datatype Movability =
    MOVABLE
  | PINNED
  | NONMOVABLE
  | Unnamed u8

primrec Movability_to_string :: "Movability \<Rightarrow> string" where
  "Movability_to_string Movability.MOVABLE = ''MOVABLE''"
| "Movability_to_string Movability.PINNED = ''PINNED''"
| "Movability_to_string Movability.NONMOVABLE = ''NONMOVABLE''"
| "Movability_to_string (Movability.Unnamed b) = ''UNKNOWN''"

primrec Movability_code :: "Movability \<Rightarrow> u8" where
  "Movability_code Movability.MOVABLE = 0"
| "Movability_code Movability.PINNED = 1"
| "Movability_code Movability.NONMOVABLE = 2"
| "Movability_code (Movability.Unnamed b) = b"

definition Movability_of_code :: "u8 \<Rightarrow> Movability" where
  "Movability_of_code = enum_cast
     [Movability.MOVABLE,
      Movability.PINNED,
      Movability.NONMOVABLE] Movability.Unnamed"

datatype RejectReason =
    NONE
  | INVALID_REQUEST
  | ZERO_BYTES
  | SIZE_OVERFLOW
  | IMPOSSIBLE_ALIGNMENT
  | NON_POWER_OF_TWO_ALIGNMENT
  | REQUEST_EXCEEDS_CAPACITY
  | INVALID_OWNER
  | STALE_RESERVATION
  | STALE_RESOURCE_CLAIM
  | MALFORMED_LIFETIME
  | CONTRADICTORY_MOVABILITY
  | UNSUPPORTED_MEMORY_CLASS
  | INSUFFICIENT_TOTAL_CAPACITY
  | INSUFFICIENT_CONTIGUOUS_CAPACITY
  | BLOCKED_BY_PINNED
  | BLOCKED_BY_NONMOVABLE
  | RESERVATION_CONFLICT
  | REVALIDATION_REQUIRED
  | PHYSICAL_OOM
  | GOVERNED_CAPACITY_EXCEEDED
  | CONTIGUOUS_CAPACITY_UNAVAILABLE
  | FRAGMENTATION
  | PINNED_BLOCKERS
  | RESERVATION_PROTECTED
  | RECLAIM_INSUFFICIENT
  | EVICTION_NOT_SAFE
  | DEVICE_UNAVAILABLE
  | STALE_AUTHORITY
  | STALE_GENERATION
  | WRONG_OWNER
  | CROSS_DEVICE
  | DOUBLE_FREE
  | FREE_OF_ACTIVE_OR_PINNED
  | ILLEGAL_TRANSITION
  | INTERNAL_ERROR
  | UNKNOWN
  | Unnamed u8

primrec RejectReason_to_string :: "RejectReason \<Rightarrow> string" where
  "RejectReason_to_string RejectReason.NONE = ''NONE''"
| "RejectReason_to_string RejectReason.INVALID_REQUEST = ''INVALID_REQUEST''"
| "RejectReason_to_string RejectReason.ZERO_BYTES = ''ZERO_BYTES''"
| "RejectReason_to_string RejectReason.SIZE_OVERFLOW = ''SIZE_OVERFLOW''"
| "RejectReason_to_string RejectReason.IMPOSSIBLE_ALIGNMENT = ''IMPOSSIBLE_ALIGNMENT''"
| "RejectReason_to_string RejectReason.NON_POWER_OF_TWO_ALIGNMENT = ''NON_POWER_OF_TWO_ALIGNMENT''"
| "RejectReason_to_string RejectReason.REQUEST_EXCEEDS_CAPACITY = ''REQUEST_EXCEEDS_CAPACITY''"
| "RejectReason_to_string RejectReason.INVALID_OWNER = ''INVALID_OWNER''"
| "RejectReason_to_string RejectReason.STALE_RESERVATION = ''STALE_RESERVATION''"
| "RejectReason_to_string RejectReason.STALE_RESOURCE_CLAIM = ''STALE_RESOURCE_CLAIM''"
| "RejectReason_to_string RejectReason.MALFORMED_LIFETIME = ''MALFORMED_LIFETIME''"
| "RejectReason_to_string RejectReason.CONTRADICTORY_MOVABILITY = ''CONTRADICTORY_MOVABILITY''"
| "RejectReason_to_string RejectReason.UNSUPPORTED_MEMORY_CLASS = ''UNSUPPORTED_MEMORY_CLASS''"
| "RejectReason_to_string RejectReason.INSUFFICIENT_TOTAL_CAPACITY = ''INSUFFICIENT_TOTAL_CAPACITY''"
| "RejectReason_to_string RejectReason.INSUFFICIENT_CONTIGUOUS_CAPACITY = ''INSUFFICIENT_CONTIGUOUS_CAPACITY''"
| "RejectReason_to_string RejectReason.BLOCKED_BY_PINNED = ''BLOCKED_BY_PINNED''"
| "RejectReason_to_string RejectReason.BLOCKED_BY_NONMOVABLE = ''BLOCKED_BY_NONMOVABLE''"
| "RejectReason_to_string RejectReason.RESERVATION_CONFLICT = ''RESERVATION_CONFLICT''"
| "RejectReason_to_string RejectReason.REVALIDATION_REQUIRED = ''REVALIDATION_REQUIRED''"
| "RejectReason_to_string RejectReason.PHYSICAL_OOM = ''PHYSICAL_OOM''"
| "RejectReason_to_string RejectReason.GOVERNED_CAPACITY_EXCEEDED = ''GOVERNED_CAPACITY_EXCEEDED''"
| "RejectReason_to_string RejectReason.CONTIGUOUS_CAPACITY_UNAVAILABLE = ''CONTIGUOUS_CAPACITY_UNAVAILABLE''"
| "RejectReason_to_string RejectReason.FRAGMENTATION = ''FRAGMENTATION''"
| "RejectReason_to_string RejectReason.PINNED_BLOCKERS = ''PINNED_BLOCKERS''"
| "RejectReason_to_string RejectReason.RESERVATION_PROTECTED = ''RESERVATION_PROTECTED''"
| "RejectReason_to_string RejectReason.RECLAIM_INSUFFICIENT = ''RECLAIM_INSUFFICIENT''"
| "RejectReason_to_string RejectReason.EVICTION_NOT_SAFE = ''EVICTION_NOT_SAFE''"
| "RejectReason_to_string RejectReason.DEVICE_UNAVAILABLE = ''DEVICE_UNAVAILABLE''"
| "RejectReason_to_string RejectReason.STALE_AUTHORITY = ''STALE_AUTHORITY''"
| "RejectReason_to_string RejectReason.STALE_GENERATION = ''STALE_GENERATION''"
| "RejectReason_to_string RejectReason.WRONG_OWNER = ''WRONG_OWNER''"
| "RejectReason_to_string RejectReason.CROSS_DEVICE = ''CROSS_DEVICE''"
| "RejectReason_to_string RejectReason.DOUBLE_FREE = ''DOUBLE_FREE''"
| "RejectReason_to_string RejectReason.FREE_OF_ACTIVE_OR_PINNED = ''FREE_OF_ACTIVE_OR_PINNED''"
| "RejectReason_to_string RejectReason.ILLEGAL_TRANSITION = ''ILLEGAL_TRANSITION''"
| "RejectReason_to_string RejectReason.INTERNAL_ERROR = ''INTERNAL_ERROR''"
| "RejectReason_to_string RejectReason.UNKNOWN = ''UNKNOWN''"
| "RejectReason_to_string (RejectReason.Unnamed b) = ''UNKNOWN''"

primrec RejectReason_code :: "RejectReason \<Rightarrow> u8" where
  "RejectReason_code RejectReason.NONE = 0"
| "RejectReason_code RejectReason.INVALID_REQUEST = 1"
| "RejectReason_code RejectReason.ZERO_BYTES = 2"
| "RejectReason_code RejectReason.SIZE_OVERFLOW = 3"
| "RejectReason_code RejectReason.IMPOSSIBLE_ALIGNMENT = 4"
| "RejectReason_code RejectReason.NON_POWER_OF_TWO_ALIGNMENT = 5"
| "RejectReason_code RejectReason.REQUEST_EXCEEDS_CAPACITY = 6"
| "RejectReason_code RejectReason.INVALID_OWNER = 7"
| "RejectReason_code RejectReason.STALE_RESERVATION = 8"
| "RejectReason_code RejectReason.STALE_RESOURCE_CLAIM = 9"
| "RejectReason_code RejectReason.MALFORMED_LIFETIME = 10"
| "RejectReason_code RejectReason.CONTRADICTORY_MOVABILITY = 11"
| "RejectReason_code RejectReason.UNSUPPORTED_MEMORY_CLASS = 12"
| "RejectReason_code RejectReason.INSUFFICIENT_TOTAL_CAPACITY = 13"
| "RejectReason_code RejectReason.INSUFFICIENT_CONTIGUOUS_CAPACITY = 14"
| "RejectReason_code RejectReason.BLOCKED_BY_PINNED = 15"
| "RejectReason_code RejectReason.BLOCKED_BY_NONMOVABLE = 16"
| "RejectReason_code RejectReason.RESERVATION_CONFLICT = 17"
| "RejectReason_code RejectReason.REVALIDATION_REQUIRED = 18"
| "RejectReason_code RejectReason.PHYSICAL_OOM = 19"
| "RejectReason_code RejectReason.GOVERNED_CAPACITY_EXCEEDED = 20"
| "RejectReason_code RejectReason.CONTIGUOUS_CAPACITY_UNAVAILABLE = 21"
| "RejectReason_code RejectReason.FRAGMENTATION = 22"
| "RejectReason_code RejectReason.PINNED_BLOCKERS = 23"
| "RejectReason_code RejectReason.RESERVATION_PROTECTED = 24"
| "RejectReason_code RejectReason.RECLAIM_INSUFFICIENT = 25"
| "RejectReason_code RejectReason.EVICTION_NOT_SAFE = 26"
| "RejectReason_code RejectReason.DEVICE_UNAVAILABLE = 27"
| "RejectReason_code RejectReason.STALE_AUTHORITY = 28"
| "RejectReason_code RejectReason.STALE_GENERATION = 29"
| "RejectReason_code RejectReason.WRONG_OWNER = 30"
| "RejectReason_code RejectReason.CROSS_DEVICE = 31"
| "RejectReason_code RejectReason.DOUBLE_FREE = 32"
| "RejectReason_code RejectReason.FREE_OF_ACTIVE_OR_PINNED = 33"
| "RejectReason_code RejectReason.ILLEGAL_TRANSITION = 34"
| "RejectReason_code RejectReason.INTERNAL_ERROR = 35"
| "RejectReason_code RejectReason.UNKNOWN = 36"
| "RejectReason_code (RejectReason.Unnamed b) = b"

section \<open>Failures and results (error.hpp)\<close>

text \<open>
  \<open>Result<T>\<close> is a value or a typed failure.  The third constructor is the model's: a call that
  does not return at all because it dereferences \<open>end()\<close> or throws \<open>std::out_of_range\<close>.  Every
  component proves that its invariant excludes it.
\<close>

datatype Failure = Failure (reason: RejectReason) (message: string)

definition Failure_ok :: "Failure \<Rightarrow> bool" where
  "Failure_ok f \<longleftrightarrow> reason f = RejectReason.NONE"

datatype 'a result = Ok 'a | Err Failure | Fault

definition has_value :: "'a result \<Rightarrow> bool" where
  "has_value r = (case r of Ok _ \<Rightarrow> True | _ \<Rightarrow> False)"

section \<open>Enumeration codes round-trip\<close>

text \<open>
  The contract the persistence format relies on: a cast to the underlying type and back gives
  the same value, and the values that pass \<open>enum_ok\<close> against the last enumerator are exactly the
  named ones.
\<close>

locale enum_code =
  fixes code :: "'e \<Rightarrow> u8" and of_code :: "u8 \<Rightarrow> 'e" and unnamed :: "u8 \<Rightarrow> 'e" and last :: 'e
  assumes code_of_code: "code (of_code b) = b"
    and of_code_code: "e \<notin> range unnamed \<Longrightarrow> of_code (code e) = e"
    and of_code_named: "of_code b = unnamed c \<Longrightarrow> code last < b \<and> c = b"
begin

lemma of_code_inject: "of_code a = of_code b \<longleftrightarrow> a = b"
  by (metis code_of_code)

lemma cast_ok_named: "code (of_code b) \<le> code last \<Longrightarrow> of_code b \<noteq> unnamed c"
  using of_code_named [of b c] by (auto simp: code_of_code)

lemma of_code_fixed: "of_code (code (of_code b)) = of_code b"
  by (simp add: code_of_code)

end

lemma code_enum_cast:
  assumes "\<And>i. i < length names \<Longrightarrow> code (names ! i) = word_of_nat i" "\<And>b. code (u b) = b"
  shows "code (enum_cast names u b) = b"
  using assms by (simp add: enum_cast_def)

lemma enum_cast_named:
  assumes "enum_cast names u b = u c" "list_all (\<lambda>e. e \<notin> range u) names" "inj u"
  shows "length names \<le> unat b \<and> c = b"
  using assms by (fastforce simp: enum_cast_def inj_def list_all_iff split: if_splits dest: nth_mem)


interpretation Provenance: enum_code Provenance_code Provenance_of_code Provenance.Unnamed Provenance.RECONSTRUCTED
proof
  show "Provenance_code (Provenance_of_code b) = b" for b
    unfolding Provenance_of_code_def
    by (rule code_enum_cast) (auto simp: nth_Cons' less_Suc_eq numeral_eq_Suc)
  show "Provenance_of_code (Provenance_code e) = e" if "e \<notin> range Provenance.Unnamed" for e
    using that by (cases e) (auto simp: Provenance_of_code_def enum_cast_def)
  show "Provenance_code Provenance.RECONSTRUCTED < b \<and> c = b" if "Provenance_of_code b = Provenance.Unnamed c" for b c
    using enum_cast_named [OF that [unfolded Provenance_of_code_def]]
    by (simp add: image_iff inj_def word_less_nat_alt)
qed

interpretation MemoryClass: enum_code MemoryClass_code MemoryClass_of_code MemoryClass.Unnamed MemoryClass.INTERNAL
proof
  show "MemoryClass_code (MemoryClass_of_code b) = b" for b
    unfolding MemoryClass_of_code_def
    by (rule code_enum_cast) (auto simp: nth_Cons' less_Suc_eq numeral_eq_Suc)
  show "MemoryClass_of_code (MemoryClass_code e) = e" if "e \<notin> range MemoryClass.Unnamed" for e
    using that by (cases e) (auto simp: MemoryClass_of_code_def enum_cast_def)
  show "MemoryClass_code MemoryClass.INTERNAL < b \<and> c = b" if "MemoryClass_of_code b = MemoryClass.Unnamed c" for b c
    using enum_cast_named [OF that [unfolded MemoryClass_of_code_def]]
    by (simp add: image_iff inj_def word_less_nat_alt)
qed

interpretation Reclaimability: enum_code Reclaimability_code Reclaimability_of_code Reclaimability.Unnamed Reclaimability.BEST_EFFORT
proof
  show "Reclaimability_code (Reclaimability_of_code b) = b" for b
    unfolding Reclaimability_of_code_def
    by (rule code_enum_cast) (auto simp: nth_Cons' less_Suc_eq numeral_eq_Suc)
  show "Reclaimability_of_code (Reclaimability_code e) = e" if "e \<notin> range Reclaimability.Unnamed" for e
    using that by (cases e) (auto simp: Reclaimability_of_code_def enum_cast_def)
  show "Reclaimability_code Reclaimability.BEST_EFFORT < b \<and> c = b" if "Reclaimability_of_code b = Reclaimability.Unnamed c" for b c
    using enum_cast_named [OF that [unfolded Reclaimability_of_code_def]]
    by (simp add: image_iff inj_def word_less_nat_alt)
qed

interpretation LifecycleState: enum_code LifecycleState_code LifecycleState_of_code LifecycleState.Unnamed LifecycleState.RETIRED
proof
  show "LifecycleState_code (LifecycleState_of_code b) = b" for b
    unfolding LifecycleState_of_code_def
    by (rule code_enum_cast) (auto simp: nth_Cons' less_Suc_eq numeral_eq_Suc)
  show "LifecycleState_of_code (LifecycleState_code e) = e" if "e \<notin> range LifecycleState.Unnamed" for e
    using that by (cases e) (auto simp: LifecycleState_of_code_def enum_cast_def)
  show "LifecycleState_code LifecycleState.RETIRED < b \<and> c = b" if "LifecycleState_of_code b = LifecycleState.Unnamed c" for b c
    using enum_cast_named [OF that [unfolded LifecycleState_of_code_def]]
    by (simp add: image_iff inj_def word_less_nat_alt)
qed

interpretation ResidencyState: enum_code ResidencyState_code ResidencyState_of_code ResidencyState.Unnamed ResidencyState.REVALIDATION_REQUIRED
proof
  show "ResidencyState_code (ResidencyState_of_code b) = b" for b
    unfolding ResidencyState_of_code_def
    by (rule code_enum_cast) (auto simp: nth_Cons' less_Suc_eq numeral_eq_Suc)
  show "ResidencyState_of_code (ResidencyState_code e) = e" if "e \<notin> range ResidencyState.Unnamed" for e
    using that by (cases e) (auto simp: ResidencyState_of_code_def enum_cast_def)
  show "ResidencyState_code ResidencyState.REVALIDATION_REQUIRED < b \<and> c = b" if "ResidencyState_of_code b = ResidencyState.Unnamed c" for b c
    using enum_cast_named [OF that [unfolded ResidencyState_of_code_def]]
    by (simp add: image_iff inj_def word_less_nat_alt)
qed

interpretation PressureState: enum_code PressureState_code PressureState_of_code PressureState.Unnamed PressureState.REVALIDATION_REQUIRED
proof
  show "PressureState_code (PressureState_of_code b) = b" for b
    unfolding PressureState_of_code_def
    by (rule code_enum_cast) (auto simp: nth_Cons' less_Suc_eq numeral_eq_Suc)
  show "PressureState_of_code (PressureState_code e) = e" if "e \<notin> range PressureState.Unnamed" for e
    using that by (cases e) (auto simp: PressureState_of_code_def enum_cast_def)
  show "PressureState_code PressureState.REVALIDATION_REQUIRED < b \<and> c = b" if "PressureState_of_code b = PressureState.Unnamed c" for b c
    using enum_cast_named [OF that [unfolded PressureState_of_code_def]]
    by (simp add: image_iff inj_def word_less_nat_alt)
qed

interpretation DeviceHealth: enum_code DeviceHealth_code DeviceHealth_of_code DeviceHealth.Unnamed DeviceHealth.LOST
proof
  show "DeviceHealth_code (DeviceHealth_of_code b) = b" for b
    unfolding DeviceHealth_of_code_def
    by (rule code_enum_cast) (auto simp: nth_Cons' less_Suc_eq numeral_eq_Suc)
  show "DeviceHealth_of_code (DeviceHealth_code e) = e" if "e \<notin> range DeviceHealth.Unnamed" for e
    using that by (cases e) (auto simp: DeviceHealth_of_code_def enum_cast_def)
  show "DeviceHealth_code DeviceHealth.LOST < b \<and> c = b" if "DeviceHealth_of_code b = DeviceHealth.Unnamed c" for b c
    using enum_cast_named [OF that [unfolded DeviceHealth_of_code_def]]
    by (simp add: image_iff inj_def word_less_nat_alt)
qed

interpretation Movability: enum_code Movability_code Movability_of_code Movability.Unnamed Movability.NONMOVABLE
proof
  show "Movability_code (Movability_of_code b) = b" for b
    unfolding Movability_of_code_def
    by (rule code_enum_cast) (auto simp: nth_Cons' less_Suc_eq numeral_eq_Suc)
  show "Movability_of_code (Movability_code e) = e" if "e \<notin> range Movability.Unnamed" for e
    using that by (cases e) (auto simp: Movability_of_code_def enum_cast_def)
  show "Movability_code Movability.NONMOVABLE < b \<and> c = b" if "Movability_of_code b = Movability.Unnamed c" for b c
    using enum_cast_named [OF that [unfolded Movability_of_code_def]]
    by (simp add: image_iff inj_def word_less_nat_alt)
qed

end
