(* ===== verification/Gms_Containers.thy ===== *)
theory Gms_Containers
  imports Gms_Prelude "HOL-Library.Multiset"
begin

text \<open>
  The two ordered containers of the C++ standard library that the service uses.  A
  \<open>std::map\<close> is its sequence of key/value pairs in iteration order, a \<open>std::set\<close> its sequence of
  elements: strictly increasing lists.  \<open>lower_bound\<close> is the rest of the sequence from the
  iterator on, and the elements before it give \<open>std::prev\<close>.  \<open>std::stable_sort\<close> is an insertion
  sort over the given comparator.  The laws are stated through the set of elements, so that
  client proofs never look at the sequence.
\<close>

section \<open>std::map\<close>

type_synonym ('k, 'v) omap = "('k \<times> 'v) list"

abbreviation om_ok :: "('k::linorder, 'v) omap \<Rightarrow> bool" where
  "om_ok m \<equiv> sorted_wrt (<) (map fst m)"

abbreviation om_find :: "('k, 'v) omap \<Rightarrow> 'k \<Rightarrow> 'v option" where
  "om_find \<equiv> map_of"

text \<open>\<open>emplace\<close> keeps an element that is already there; \<open>m[k] = v\<close> overwrites it.\<close>

fun om_emplace :: "'k::linorder \<Rightarrow> 'v \<Rightarrow> ('k, 'v) omap \<Rightarrow> ('k, 'v) omap" where
  "om_emplace k v [] = [(k, v)]"
| "om_emplace k v ((k', v') # m) =
     (if k < k' then (k, v) # (k', v') # m
      else if k = k' then (k', v') # m
      else (k', v') # om_emplace k v m)"

fun om_assign :: "'k::linorder \<Rightarrow> 'v \<Rightarrow> ('k, 'v) omap \<Rightarrow> ('k, 'v) omap" where
  "om_assign k v [] = [(k, v)]"
| "om_assign k v ((k', v') # m) =
     (if k < k' then (k, v) # (k', v') # m
      else if k = k' then (k, v) # m
      else (k', v') # om_assign k v m)"

definition om_erase :: "'k \<Rightarrow> ('k, 'v) omap \<Rightarrow> ('k, 'v) omap" where
  "om_erase k m = filter (\<lambda>kv. fst kv \<noteq> k) m"

definition om_lower_bound :: "'k::linorder \<Rightarrow> ('k, 'v) omap \<Rightarrow> ('k, 'v) omap" where
  "om_lower_bound k m = dropWhile (\<lambda>kv. fst kv < k) m"

definition om_before :: "'k::linorder \<Rightarrow> ('k, 'v) omap \<Rightarrow> ('k, 'v) omap" where
  "om_before k m = takeWhile (\<lambda>kv. fst kv < k) m"

section \<open>std::set\<close>

abbreviation os_ok :: "'a::linorder list \<Rightarrow> bool" where
  "os_ok s \<equiv> sorted_wrt (<) s"

fun os_insert :: "'a::linorder \<Rightarrow> 'a list \<Rightarrow> 'a list" where
  "os_insert x [] = [x]"
| "os_insert x (y # s) =
     (if x < y then x # y # s else if x = y then y # s else y # os_insert x s)"

definition os_erase :: "'a \<Rightarrow> 'a list \<Rightarrow> 'a list" where
  "os_erase x s = filter (\<lambda>y. y \<noteq> x) s"

definition os_lower_bound :: "'a::linorder \<Rightarrow> 'a list \<Rightarrow> 'a list" where
  "os_lower_bound x s = dropWhile (\<lambda>y. y < x) s"

section \<open>std::stable_sort\<close>

text \<open>An element goes in front of the first one it does not come after, so equal elements keep their order.\<close>

fun stable_insert :: "('a \<Rightarrow> 'a \<Rightarrow> bool) \<Rightarrow> 'a \<Rightarrow> 'a list \<Rightarrow> 'a list" where
  "stable_insert lt x [] = [x]"
| "stable_insert lt x (y # ys) = (if lt y x then y # stable_insert lt x ys else x # y # ys)"

definition stable_sort :: "('a \<Rightarrow> 'a \<Rightarrow> bool) \<Rightarrow> 'a list \<Rightarrow> 'a list" where
  "stable_sort lt xs = foldr (stable_insert lt) xs []"

section \<open>Laws of the ordered map\<close>

lemma om_ok_distinct: "om_ok m \<Longrightarrow> distinct (map fst m)"
  by (simp add: strict_sorted_iff)

lemma om_find_iff: "om_ok m \<Longrightarrow> om_find m k = Some v \<longleftrightarrow> (k, v) \<in> set m"
  by (simp add: om_ok_distinct)

lemma om_find_None_iff: "om_find m k = None \<longleftrightarrow> k \<notin> fst ` set m"
  by (simp add: map_of_eq_None_iff)

lemma om_find_emplace:
  "k \<notin> fst ` set m \<Longrightarrow> om_find (om_emplace k v m) = (om_find m)(k \<mapsto> v)"
  by (induction k v m rule: om_emplace.induct) (auto simp: fun_eq_iff)

lemma om_find_assign: "om_ok m \<Longrightarrow> om_find (om_assign k v m) = (om_find m)(k \<mapsto> v)"
  by (induction m) (auto simp: fun_eq_iff)

lemma om_find_erase: "om_find (om_erase k m) = (om_find m)(k := None)"
  by (induction m) (auto simp: fun_eq_iff om_erase_def)

lemma set_om_emplace: "k \<notin> fst ` set m \<Longrightarrow> set (om_emplace k v m) = insert (k, v) (set m)"
  by (induction k v m rule: om_emplace.induct) (simp_all add: insert_commute)

lemma fst_set_om_emplace: "fst ` set (om_emplace k v m) = insert k (fst ` set m)"
  by (induction k v m rule: om_emplace.induct) (simp_all add: insert_commute)

lemma set_om_assign:
  "om_ok m \<Longrightarrow> set (om_assign k v m) = insert (k, v) {kv \<in> set m. fst kv \<noteq> k}"
  by (induction k v m rule: om_assign.induct) (fastforce split: if_splits)+

lemma fst_set_om_assign: "fst ` set (om_assign k v m) = insert k (fst ` set m)"
  by (induction k v m rule: om_assign.induct) (simp_all add: insert_commute)

lemma set_om_erase: "set (om_erase k m) = {kv \<in> set m. fst kv \<noteq> k}"
  by (auto simp: om_erase_def)

lemma om_ok_emplace: "om_ok m \<Longrightarrow> om_ok (om_emplace k v m)"
  by (induction k v m rule: om_emplace.induct)
    (auto simp: fst_set_om_emplace simp flip: image_set split: if_splits)

lemma om_ok_assign: "om_ok m \<Longrightarrow> om_ok (om_assign k v m)"
  by (induction k v m rule: om_assign.induct)
    (auto simp: fst_set_om_assign simp flip: image_set split: if_splits)

lemma om_ok_erase: "om_ok m \<Longrightarrow> om_ok (om_erase k m)"
  unfolding om_erase_def by (induction m) auto

lemma om_split: "om_before k m @ om_lower_bound k m = m"
  by (simp add: om_before_def om_lower_bound_def)

lemma set_om_lower_bound: "om_ok m \<Longrightarrow> set (om_lower_bound k m) = {kv \<in> set m. k \<le> fst kv}"
  unfolding om_lower_bound_def by (induction m) force+

lemma set_om_before: "om_ok m \<Longrightarrow> set (om_before k m) = {kv \<in> set m. fst kv < k}"
  unfolding om_before_def by (induction m) force+

lemma om_ok_lower_bound: "om_ok m \<Longrightarrow> om_ok (om_lower_bound k m)"
  by (subst (asm) om_split [symmetric, of _ k]) (simp add: sorted_wrt_append)

lemma om_ok_before: "om_ok m \<Longrightarrow> om_ok (om_before k m)"
  by (subst (asm) om_split [symmetric, of _ k]) (simp add: sorted_wrt_append)

lemma om_hd_least: "om_ok m \<Longrightarrow> kv \<in> set m \<Longrightarrow> fst (hd m) \<le> fst kv"
  by (cases m) auto

lemma om_last_greatest: "om_ok m \<Longrightarrow> kv \<in> set m \<Longrightarrow> fst kv \<le> fst (last m)"
  by (cases m rule: rev_cases) (auto simp: sorted_wrt_append intro: less_imp_le)

lemma om_key_inject: "om_ok m \<Longrightarrow> (k, v) \<in> set m \<Longrightarrow> (k, v') \<in> set m \<Longrightarrow> v = v'"
  by (metis om_find_iff option.inject)

text \<open>The part of the \<open>std::map\<close> contract the clients rely on.\<close>

locale map_store =
  fixes find :: "'m \<Rightarrow> 'k \<Rightarrow> 'v option" and put :: "'k \<Rightarrow> 'v \<Rightarrow> 'm \<Rightarrow> 'm"
    and del :: "'k \<Rightarrow> 'm \<Rightarrow> 'm" and ok :: "'m \<Rightarrow> bool"
  assumes find_put: "ok m \<Longrightarrow> find (put k v m) = (find m)(k \<mapsto> v)"
    and find_del: "ok m \<Longrightarrow> find (del k m) = (find m)(k := None)"
    and ok_put: "ok m \<Longrightarrow> ok (put k v m)"
    and ok_del: "ok m \<Longrightarrow> ok (del k m)"
begin

text \<open>Moving an entry from one map to another keeps the key sets disjoint and their union.\<close>

lemma move_disjoint:
  "ok a \<Longrightarrow> ok b \<Longrightarrow> dom (find a) \<inter> dom (find b) = {} \<Longrightarrow>
   dom (find (del k a)) \<inter> dom (find (put k v b)) = {}"
  by (auto simp: find_put find_del)

lemma move_union:
  "ok a \<Longrightarrow> ok b \<Longrightarrow> k \<in> dom (find a) \<Longrightarrow>
   dom (find (del k a)) \<union> dom (find (put k v b)) = dom (find a) \<union> dom (find b)"
  by (auto simp: find_put find_del)

end

interpretation om: map_store om_find om_assign om_erase om_ok
  by unfold_locales (simp_all add: om_find_assign om_find_erase om_ok_assign om_ok_erase)

section \<open>Laws of the ordered set\<close>

lemma set_os_insert: "set (os_insert x s) = insert x (set s)"
  by (induction s) auto

lemma set_os_erase: "set (os_erase x s) = set s - {x}"
  by (auto simp: os_erase_def)

lemma os_ok_insert: "os_ok s \<Longrightarrow> os_ok (os_insert x s)"
  by (induction s) (auto simp: set_os_insert)

lemma os_ok_erase: "os_ok s \<Longrightarrow> os_ok (os_erase x s)"
  unfolding os_erase_def by (simp add: sorted_wrt_filter)

lemma set_os_lower_bound: "os_ok s \<Longrightarrow> set (os_lower_bound x s) = {y \<in> set s. x \<le> y}"
  unfolding os_lower_bound_def by (induction s) force+

lemma os_ok_lower_bound: "os_ok s \<Longrightarrow> os_ok (os_lower_bound x s)"
  unfolding os_lower_bound_def by (induction s) auto

lemma os_card: "os_ok s \<Longrightarrow> card (set s) = length s"
  by (simp add: distinct_card strict_sorted_iff)

lemma os_last_Max: "os_ok s \<Longrightarrow> s \<noteq> [] \<Longrightarrow> x \<in> set s \<Longrightarrow> x \<le> last s"
  by (cases s rule: rev_cases) (auto simp: sorted_wrt_append intro: less_imp_le)

section \<open>Laws of stable_sort\<close>

lemma mset_stable_insert [simp]: "mset (stable_insert lt x ys) = add_mset x (mset ys)"
  by (induction ys) auto

lemma mset_stable_sort [simp]: "mset (stable_sort lt xs) = mset xs"
  unfolding stable_sort_def by (induction xs) auto

lemma set_stable_sort [simp]: "set (stable_sort lt xs) = set xs"
  by (metis mset_stable_sort set_mset_mset)

lemma length_stable_sort [simp]: "length (stable_sort lt xs) = length xs"
  by (metis mset_stable_sort size_mset)

lemma sorted_stable_insert:
  assumes tr: "\<And>a b c. \<not> lt b a \<Longrightarrow> \<not> lt c b \<Longrightarrow> \<not> lt c a" and asym: "\<And>a b. lt a b \<Longrightarrow> \<not> lt b a"
    and "sorted_wrt (\<lambda>a b. \<not> lt b a) ys"
  shows "sorted_wrt (\<lambda>a b. \<not> lt b a) (stable_insert lt x ys)"
  using assms(3)
proof (induction ys)
  case (Cons y ys)
  have "set (stable_insert lt x ys) = insert x (set ys)"
    by (metis mset_stable_insert set_mset_add_mset_insert set_mset_mset)
  moreover have "\<not> lt y x \<Longrightarrow> z \<in> set ys \<Longrightarrow> \<not> lt z x" for z
    using Cons.prems tr [of y x z] by simp
  ultimately show ?case using Cons asym [of y x] by simp
qed simp

lemma sorted_stable_sort:
  assumes "\<And>a b c. \<not> lt b a \<Longrightarrow> \<not> lt c b \<Longrightarrow> \<not> lt c a" and "\<And>a b. lt a b \<Longrightarrow> \<not> lt b a"
  shows "sorted_wrt (\<lambda>a b. \<not> lt b a) (stable_sort lt xs)"
  unfolding stable_sort_def
proof (induction xs)
  case (Cons x xs)
  then show ?case using sorted_stable_insert [of lt, OF assms] by simp
qed simp

end
