(* ===== verification/Gms_Double.thy ===== *)
theory Gms_Double
  imports Gms_Prelude
begin

text \<open>
  The IEEE-754 binary64 arithmetic that the pressure policy and the compaction planner use, on
  bit patterns: conversion from \<open>std::uint64_t\<close>, division, multiplication and subtraction with
  round-to-nearest-even, and comparison.  Every finite double is an integral multiple of
  \<open>2^-1074\<close>, so its value is the integer \<open>d_val\<close> in that unit; the infinities get the next
  power of two, which makes comparison uniform.  A bit pattern is also what persistence writes
  (\<open>std::bit_cast\<close>), so the round trip is the identity on bits.
\<close>

datatype double = Double (bits: u64)

definition d_sign :: "double \<Rightarrow> bool" where
  "d_sign d \<longleftrightarrow> 2 ^ 63 \<le> uint (bits d)"

definition d_exp :: "double \<Rightarrow> int" where
  "d_exp d = uint (bits d) div 2 ^ 52 mod 2048"

definition d_man :: "double \<Rightarrow> int" where
  "d_man d = uint (bits d) mod 2 ^ 52"

definition is_nan :: "double \<Rightarrow> bool" where
  "is_nan d \<longleftrightarrow> d_exp d = 2047 \<and> d_man d \<noteq> 0"

definition is_inf :: "double \<Rightarrow> bool" where
  "is_inf d \<longleftrightarrow> d_exp d = 2047 \<and> d_man d = 0"

definition mag_of_bits :: "int \<Rightarrow> int" where
  "mag_of_bits b = (let e = b div 2 ^ 52; m = b mod 2 ^ 52 in
     if e = 0 then m else (2 ^ 52 + m) * 2 ^ nat (e - 1))"

definition d_mag :: "double \<Rightarrow> int" where
  "d_mag d = mag_of_bits (uint (bits d) mod 2 ^ 63)"

definition d_val :: "double \<Rightarrow> int" where
  "d_val d = (if d_sign d then - d_mag d else d_mag d)"

definition d_less :: "double \<Rightarrow> double \<Rightarrow> bool" where
  "d_less a b \<longleftrightarrow> \<not> is_nan a \<and> \<not> is_nan b \<and> d_val a < d_val b"

definition d_le :: "double \<Rightarrow> double \<Rightarrow> bool" where
  "d_le a b \<longleftrightarrow> \<not> is_nan a \<and> \<not> is_nan b \<and> d_val a \<le> d_val b"

section \<open>Rounding\<close>

function bitlen :: "int \<Rightarrow> nat" where
  "bitlen n = (if n \<le> 0 then 0 else Suc (bitlen (n div 2)))"
  by pat_completeness auto
termination
  by (relation "measure nat") auto

declare bitlen.simps [simp del]

text \<open>The integer nearest to \<open>p / q\<close>, ties to even.\<close>

definition rne :: "int \<Rightarrow> int \<Rightarrow> int" where
  "rne p q = (let d = p div q; r = p mod q in
     if 2 * r < q \<or> (2 * r = q \<and> even d) then d else d + 1)"

text \<open>The bit pattern of the double nearest to \<open>p / q\<close> units of \<open>2^-1074\<close>, infinity on overflow.\<close>

definition round_bits :: "int \<Rightarrow> int \<Rightarrow> int" where
  "round_bits p q = (let k = bitlen (p div q) - 53 in
     min (int k * 2 ^ 52 + rne p (q * 2 ^ k)) (2047 * 2 ^ 52))"

definition d_round :: "bool \<Rightarrow> int \<Rightarrow> int \<Rightarrow> double" where
  "d_round s p q = Double (of_int (round_bits p q + (if s then 2 ^ 63 else 0)))"

definition d_nan :: double where
  "d_nan = Double (of_int (2047 * 2 ^ 52 + 2 ^ 51))"

definition d_inf :: "bool \<Rightarrow> double" where
  "d_inf s = Double (of_int (2047 * 2 ^ 52 + (if s then 2 ^ 63 else 0)))"

text \<open>A decimal literal \<open>p / q\<close> of the source.\<close>

definition d_lit :: "int \<Rightarrow> int \<Rightarrow> double" where
  "d_lit p q = d_round False (p * 2 ^ 1074) q"

section \<open>Arithmetic\<close>

definition d_of_u64 :: "u64 \<Rightarrow> double" where
  "d_of_u64 n = d_round False (uint n * 2 ^ 1074) 1"

definition d_div :: "double \<Rightarrow> double \<Rightarrow> double" where
  "d_div a b = (let s = (d_sign a \<noteq> d_sign b) in
     if is_nan a \<or> is_nan b \<or> (is_inf a \<and> is_inf b) \<or> (d_mag a = 0 \<and> d_mag b = 0) then d_nan
     else if is_inf a \<or> d_mag b = 0 then d_inf s
     else if is_inf b then d_round s 0 1
     else d_round s (d_mag a * 2 ^ 1074) (d_mag b))"

definition d_mul :: "double \<Rightarrow> double \<Rightarrow> double" where
  "d_mul a b = (let s = (d_sign a \<noteq> d_sign b) in
     if is_nan a \<or> is_nan b \<or> (is_inf a \<and> d_mag b = 0) \<or> (d_mag a = 0 \<and> is_inf b) then d_nan
     else if is_inf a \<or> is_inf b then d_inf s
     else d_round s (d_mag a * d_mag b) (2 ^ 1074))"

definition d_sub :: "double \<Rightarrow> double \<Rightarrow> double" where
  "d_sub a b = (let v = d_val a - d_val b in
     if is_nan a \<or> is_nan b \<or> (is_inf a \<and> is_inf b \<and> d_sign a = d_sign b) then d_nan
     else if is_inf a then a
     else if is_inf b then d_inf (\<not> d_sign b)
     else if v = 0 then d_round (d_sign a \<and> \<not> d_sign b) 0 1
     else d_round (v < 0) \<bar>v\<bar> 1)"

section \<open>The literals 0, 1 and 1/2\<close>

definition d_neg :: "double \<Rightarrow> double" where
  "d_neg a = Double (bits a XOR push_bit 63 1)"

lemma bitlen_pow: "bitlen (2 ^ n) = Suc n"
proof (induction n)
  case 0
  show ?case by (simp add: bitlen.simps [of 1] bitlen.simps [of 0])
next
  case (Suc n)
  then show ?case by (simp add: bitlen.simps [of "2 * 2 ^ n"])
qed

lemma rne_exact: "0 < q \<Longrightarrow> rne (m * q) q = m"
  by (simp add: rne_def)

lemma round_bits_pow: "52 \<le> n \<Longrightarrow> n \<le> 2097 \<Longrightarrow> round_bits (2 ^ n) 1 = (int n - 51) * 2 ^ 52"
proof -
  assume n: "52 \<le> n" "n \<le> 2097"
  then obtain m where m: "n = m + 52" by (metis add.commute le_Suc_ex)
  have "rne (2 ^ n) (2 ^ (Suc n - 53)) = 2 ^ 52"
    using rne_exact [of "2 ^ m" "2 ^ 52"] by (simp add: m power_add mult.commute)
  then have "round_bits (2 ^ n) 1 = min (int (Suc n - 53) * 2 ^ 52 + 2 ^ 52) (2047 * 2 ^ 52)"
    by (simp add: round_bits_def bitlen_pow)
  with n m show ?thesis by (simp add: algebra_simps)
qed

lemma d_lit_0: "d_lit 0 1 = Double 0"
  by (simp add: d_lit_def d_round_def round_bits_def bitlen.simps [of 0] rne_def)

lemma d_lit_1: "d_lit 1 1 = Double 0x3FF0000000000000"
proof -
  have "round_bits (2 ^ 1074) 1 = 0x3FF0000000000000"
    by (subst round_bits_pow) simp_all
  then show ?thesis unfolding d_lit_def d_round_def mult_1 by simp
qed

lemma bitlen_bounds: "0 < n \<Longrightarrow> 2 ^ (bitlen n - 1) \<le> n \<and> n < 2 ^ bitlen n \<and> 0 < bitlen n"
proof (induction n rule: bitlen.induct)
  case (1 n)
  show ?case
  proof (cases "n = 1")
    case True
    then show ?thesis by (simp add: bitlen.simps [of 1] bitlen.simps [of 0])
  next
    case False
    with 1 have h: "2 ^ (bitlen (n div 2) - 1) \<le> n div 2" "n div 2 < 2 ^ bitlen (n div 2)" "0 < bitlen (n div 2)" by auto
    have e: "bitlen n = Suc (bitlen (n div 2))" using 1 by (simp add: bitlen.simps [of n])
    have p: "(2::int) ^ bitlen (n div 2) = 2 * 2 ^ (bitlen (n div 2) - 1)" using h(3) by (metis Suc_pred power_Suc One_nat_def)
    have "2 ^ bitlen (n div 2) \<le> n" "n < 2 * 2 ^ bitlen (n div 2)" using h(1,2) p by linarith+
    then show ?thesis by (simp add: e)
  qed
qed

lemma rne_bounds: "0 < q \<Longrightarrow> p div q \<le> rne p q \<and> rne p q \<le> p div q + 1"
  by (simp add: rne_def Let_def)

lemma int_div_less: "0 < q \<Longrightarrow> p < m * q \<Longrightarrow> p div q < m" for p q m :: int
  by (smt (verit) div_mult_mod_eq mult_le_cancel_right pos_mod_sign)

lemma bitlen_shift: "0 < n \<Longrightarrow> bitlen (n * 2 ^ e) = bitlen n + e"
proof (induction e)
  case (Suc e)
  have "0 < n * 2 ^ e" using Suc.prems by simp
  then show ?case using Suc bitlen.simps [of "n * 2 ^ Suc e"] by (simp add: not_le)
qed simp

lemma pow_less_int: "(2::int) ^ a < 2 ^ b \<Longrightarrow> a < b"
  by simp

lemma round_bits_shift:
  assumes "0 < n" "n < 2 ^ 64" "53 \<le> e" "e \<le> 1900"
  shows "(int e - 51) * 2 ^ 52 \<le> round_bits (n * 2 ^ e) 1 \<and> round_bits (n * 2 ^ e) 1 \<le> (int e + 13) * 2 ^ 52"
proof -
  note b = bitlen_bounds [OF assms(1)]
  have "(2::int) ^ (bitlen n - 1) < 2 ^ 64" using b assms(2) by linarith
  then have hi: "bitlen n \<le> 64" using pow_less_int [of "bitlen n - 1" 64] by linarith
  define k where "k = bitlen n + e - 53"
  have k: "bitlen n + e = k + 53" using assms(3) by (simp add: k_def)
  have q: "(0::int) < 2 ^ k" by simp
  have "2 ^ (bitlen n - 1) * 2 ^ e \<le> n * 2 ^ e" "n * 2 ^ e < 2 ^ bitlen n * 2 ^ e" using b by simp_all
  moreover have "(2::int) ^ (bitlen n - 1) * 2 ^ e = 2 ^ 52 * 2 ^ k" "(2::int) ^ bitlen n * 2 ^ e = 2 ^ 53 * 2 ^ k"
    using b k by (simp_all flip: power_add add: add.commute) (simp_all add: power_add)
  ultimately have N: "2 ^ 52 * 2 ^ k \<le> n * 2 ^ e" "n * 2 ^ e < 2 ^ 53 * 2 ^ k" by linarith+
  have "2 ^ 52 \<le> n * 2 ^ e div 2 ^ k"
    using zdiv_mono1 [OF N(1) q] by simp
  moreover have "n * 2 ^ e div 2 ^ k < 2 ^ 53"
    by (rule int_div_less [OF q N(2)])
  ultimately have r: "2 ^ 52 \<le> rne (n * 2 ^ e) (2 ^ k)" "rne (n * 2 ^ e) (2 ^ k) \<le> 2 ^ 53"
    using rne_bounds [OF q, of "n * 2 ^ e"] by linarith+
  have "round_bits (n * 2 ^ e) 1 = min (int k * 2 ^ 52 + rne (n * 2 ^ e) (2 ^ k)) (2047 * 2 ^ 52)"
    by (simp add: round_bits_def bitlen_shift [OF assms(1)] k_def Let_def)
  moreover have "int e - 52 \<le> int k" "int k \<le> int e + 11" using b hi assms(3) by (simp_all add: k_def)
  ultimately show ?thesis using r assms(4) by simp
qed

text \<open>A non-zero count converts to a positive finite double, and divided by itself it is exactly 1.\<close>

lemma d_of_u64_pos:
  assumes "n \<noteq> 0"
  shows "\<not> is_nan (d_of_u64 n)" "\<not> is_inf (d_of_u64 n)" "\<not> d_sign (d_of_u64 n)" "0 < d_mag (d_of_u64 n)"
proof -
  define B where "B = round_bits (uint n * 2 ^ 1074) 1"
  have "0 < uint n" "uint n < 2 ^ 64" using assms uint_lt2p [of n] by (simp_all add: word_gt_0 uint_0_iff order_less_le)
  then have B: "1023 * 2 ^ 52 \<le> B" "B \<le> 1087 * 2 ^ 52"
    using round_bits_shift [of "uint n" 1074] unfolding B_def by simp_all
  have d: "d_of_u64 n = Double (of_int B)" by (simp only: d_of_u64_def d_round_def B_def if_False add_0_right)
  have u: "uint (of_int B :: u64) = B" using B by (simp add: uint_word_of_int)
  have e: "B div 2 ^ 52 \<le> 1087" "1023 \<le> B div 2 ^ 52"
    using zdiv_mono1 [OF B(1), of "2 ^ 52"] zdiv_mono1 [OF B(2), of "2 ^ 52"] by simp_all
  show "\<not> is_nan (d_of_u64 n)" "\<not> is_inf (d_of_u64 n)"
    using e by (simp_all add: is_nan_def is_inf_def d_exp_def d u)
  show "\<not> d_sign (d_of_u64 n)" using B by (simp add: d_sign_def d u)
  show "0 < d_mag (d_of_u64 n)" using B e by (simp add: d_mag_def d u mag_of_bits_def Let_def)
qed

lemma d_div_self:
  assumes "\<not> is_nan a" "\<not> is_inf a" "0 < d_mag a"
  shows "d_div a a = Double 0x3FF0000000000000"
proof -
  let ?m = "d_mag a"
  have "?m * 2 ^ 1074 div ?m = 2 ^ 1074" using assms(3) by simp
  moreover have "rne (?m * 2 ^ 1074) (?m * 2 ^ 1022) = 2 ^ 52"
  proof -
    have "?m * 2 ^ 1074 = 2 ^ 52 * (?m * 2 ^ 1022)" by simp
    moreover have "0 < ?m * 2 ^ 1022" using assms(3) by simp
    ultimately show ?thesis using rne_exact [of "?m * 2 ^ 1022" "2 ^ 52"] by (simp only:)
  qed
  ultimately have "round_bits (?m * 2 ^ 1074) ?m = 0x3FF0000000000000"
    unfolding round_bits_def Let_def by (simp only: bitlen_pow) simp
  then show ?thesis using assms unfolding d_div_def d_round_def Let_def by simp
qed


section \<open>Conversion and subtraction keep the order\<close>

lemma rne_mono:
  assumes "0 < q" "p \<le> p'"
  shows "rne p q \<le> rne p' q"
proof (cases "p div q = p' div q")
  case True
  then have "p mod q \<le> p' mod q" using assms by (simp add: minus_div_mult_eq_mod [symmetric])
  with True show ?thesis by (auto simp: rne_def Let_def)
next
  case False
  then have "p div q + 1 \<le> p' div q" using zdiv_mono1 [OF assms(2,1)] by linarith
  then show ?thesis using rne_bounds [OF assms(1), of p] rne_bounds [OF assms(1), of p'] by linarith
qed

lemma bitlen_mono:
  assumes "0 < p" "p \<le> p'" shows "bitlen p \<le> bitlen p'"
proof -
  have "(2::int) ^ (bitlen p - 1) < 2 ^ bitlen p'" using bitlen_bounds [of p] bitlen_bounds [of p'] assms by linarith
  then show ?thesis using pow_less_int bitlen_bounds [OF assms(1)] by fastforce
qed

lemma rne_scaled:
  assumes "0 < p"
  shows "rne p (2 ^ (bitlen p - 53)) \<le> 2 ^ 53" "53 < bitlen p \<Longrightarrow> 2 ^ 52 \<le> rne p (2 ^ (bitlen p - 53))" "0 \<le> rne p (2 ^ (bitlen p - 53))"
proof -
  let ?k = "bitlen p - 53"
  note b = bitlen_bounds [OF assms]
  have q: "(0::int) < 2 ^ ?k" by simp
  have "(2::int) ^ bitlen p \<le> 2 ^ (53 + ?k)" by (rule power_increasing) simp_all
  then have le: "(2::int) ^ bitlen p \<le> 2 ^ 53 * 2 ^ ?k" by (simp only: power_add)
  have "p div 2 ^ ?k < 2 ^ 53" by (rule int_div_less [OF q]) (use b le in linarith)
  then show "rne p (2 ^ ?k) \<le> 2 ^ 53" using rne_bounds [OF q, of p] by linarith
  have "0 \<le> p div 2 ^ ?k" using assms by (simp add: pos_imp_zdiv_nonneg_iff)
  then show "0 \<le> rne p (2 ^ ?k)" using rne_bounds [OF q, of p] by linarith
  show "2 ^ 52 \<le> rne p (2 ^ ?k)" if "53 < bitlen p"
  proof -
    have "bitlen p - 1 = 52 + ?k" using that by simp
    then have "(2::int) ^ 52 * 2 ^ ?k = 2 ^ (bitlen p - 1)" by (simp only: power_add)
    then have "2 ^ 52 * 2 ^ ?k \<le> p" using b by linarith
    then have "2 ^ 52 \<le> p div 2 ^ ?k" using zdiv_mono1 [of "2 ^ 52 * 2 ^ ?k" p "2 ^ ?k"] q by simp
    then show ?thesis using rne_bounds [OF q, of p] by linarith
  qed
qed

lemma round_bits_1: "round_bits p 1 = min (int (bitlen p - 53) * 2 ^ 52 + rne p (2 ^ (bitlen p - 53))) (2047 * 2 ^ 52)"
  by (simp add: round_bits_def Let_def)

lemma round_bits_range: "0 \<le> p \<Longrightarrow> 0 \<le> round_bits p 1 \<and> round_bits p 1 \<le> 2047 * 2 ^ 52"
  using rne_scaled(3) [of p] by (cases "p = 0") (simp_all add: round_bits_1 bitlen.simps [of 0] rne_def)

lemma round_bits_mono:
  assumes "0 \<le> p" "p \<le> p'"
  shows "round_bits p 1 \<le> round_bits p' 1"
proof (cases "p = 0")
  case True
  then show ?thesis using round_bits_range [of p'] assms by (simp add: round_bits_1 [of 0] bitlen.simps [of 0] rne_def)
next
  case False
  then have pos: "0 < p" "0 < p'" using assms by auto
  let ?k = "bitlen p - 53" and ?k' = "bitlen p' - 53"
  have "int ?k * 2 ^ 52 + rne p (2 ^ ?k) \<le> int ?k' * 2 ^ 52 + rne p' (2 ^ ?k')"
  proof (cases "?k = ?k'")
    case True
    then show ?thesis using rne_mono [OF _ assms(2), of "2 ^ ?k"] by simp
  next
    case False
    then have "?k + 1 \<le> ?k'" "53 < bitlen p'" using bitlen_mono [OF pos(1) assms(2)] by simp_all
    then have "(int ?k + 1) * 2 ^ 52 \<le> int ?k' * 2 ^ 52" by (intro mult_right_mono) simp_all
    then show ?thesis using rne_scaled(1) [OF pos(1)] rne_scaled(2) [OF pos(2) \<open>53 < bitlen p'\<close>] by simp
  qed
  then show ?thesis unfolding round_bits_1 by linarith
qed

lemma mag_of_bits_nonneg: "0 \<le> b \<Longrightarrow> 0 \<le> mag_of_bits b"
  by (simp add: mag_of_bits_def Let_def)

lemma mag_of_bits_mono:
  assumes "0 \<le> b" "b \<le> b'"
  shows "mag_of_bits b \<le> mag_of_bits b'"
proof -
  let ?e = "b div 2 ^ 52" and ?m = "b mod 2 ^ 52" and ?e' = "b' div 2 ^ 52" and ?m' = "b' mod 2 ^ 52"
  have e: "?e \<le> ?e'" "0 \<le> ?e" "0 \<le> ?m" "?m < 2 ^ 52" "0 \<le> ?m'" using assms zdiv_mono1 [of b b' "2 ^ 52"] by simp_all
  show ?thesis
  proof (cases "?e = ?e'")
    case True
    then have "?m \<le> ?m'" using assms by (simp add: minus_div_mult_eq_mod [symmetric])
    then show ?thesis using True assms(2) by (simp add: mag_of_bits_def Let_def)
  next
    case False
    then have lt: "?e + 1 \<le> ?e'" using e by linarith
    have "mag_of_bits b \<le> 2 ^ 52 * 2 ^ nat ?e"
    proof (cases "?e = 0")
      case True
      then show ?thesis using e(4) by (simp add: mag_of_bits_def Let_def)
    next
      case False
      then have "nat ?e = Suc (nat (?e - 1))" using e(2) by linarith
      then show ?thesis using False e(4) by (simp add: mag_of_bits_def Let_def)
    qed
    also have "\<dots> \<le> 2 ^ 52 * 2 ^ nat (?e' - 1)" using lt by (simp add: power_increasing nat_mono)
    also have "\<dots> \<le> mag_of_bits b'" using lt e(2,5) by (simp add: mag_of_bits_def Let_def mult_right_mono)
    finally show ?thesis .
  qed
qed

lemma d_round_pos:
  assumes "0 \<le> p"
  shows "\<not> is_nan (d_round False p 1)" "\<not> d_sign (d_round False p 1)" "d_val (d_round False p 1) = mag_of_bits (round_bits p 1)"
proof -
  note r = round_bits_range [OF assms]
  have u: "uint (of_int (round_bits p 1) :: u64) = round_bits p 1" using r by (simp add: uint_word_of_int)
  have d: "d_round False p 1 = Double (of_int (round_bits p 1))" by (simp add: d_round_def)
  show s: "\<not> d_sign (d_round False p 1)" using r by (simp add: d_sign_def d u)
  show "d_val (d_round False p 1) = mag_of_bits (round_bits p 1)"
    unfolding d_val_def using s r by (simp add: d_mag_def d u)
  have "round_bits p 1 mod 2 ^ 52 = 0" if "round_bits p 1 div 2 ^ 52 mod 2048 = 2047"
  proof -
    have "round_bits p 1 div 2 ^ 52 \<le> 2047" using zdiv_mono1 [OF conjunct2 [OF r], of "2 ^ 52"] by simp
    then have "round_bits p 1 div 2 ^ 52 = 2047" using that r by (smt (verit) mod_pos_pos_trivial pos_imp_zdiv_nonneg_iff zero_less_power)
    then have "2047 * 2 ^ 52 \<le> round_bits p 1" using div_mult_mod_eq [of "round_bits p 1" "2 ^ 52"] by (simp add: pos_mod_sign algebra_simps)
    then show ?thesis using r by simp
  qed
  then show "\<not> is_nan (d_round False p 1)" by (auto simp: is_nan_def d_exp_def d_man_def d u)
qed

lemma d_of_u64_mono:
  assumes "a \<le> b" shows "d_val (d_of_u64 a) \<le> d_val (d_of_u64 b)"
proof -
  have "uint a * 2 ^ 1074 \<le> uint b * 2 ^ 1074" using assms by (simp add: word_le_def)
  then show ?thesis
    unfolding d_of_u64_def using d_round_pos(3) round_bits_mono round_bits_range mag_of_bits_mono by simp
qed

lemma d_of_u64_finite: "\<not> is_nan (d_of_u64 n)" "\<not> is_inf (d_of_u64 n)"
proof -
  have "d_of_u64 0 = Double 0" by (simp add: d_of_u64_def d_round_def round_bits_1 bitlen.simps [of 0] rne_def)
  then show "\<not> is_nan (d_of_u64 n)" "\<not> is_inf (d_of_u64 n)"
    using d_of_u64_pos [of n] by (cases "n = 0"; simp add: is_nan_def is_inf_def d_exp_def)+
qed

text \<open>A non-negative difference of counts is above -1.\<close>

lemma d_sub_above:
  assumes "b \<le> a"
  shows "d_less (d_neg (d_lit 1 1)) (d_sub (d_of_u64 a) (d_of_u64 b))"
proof -
  let ?v = "d_val (d_of_u64 a) - d_val (d_of_u64 b)"
  have v: "0 \<le> ?v" using d_of_u64_mono [OF assms] by simp
  have s: "\<not> d_sign (d_of_u64 a)" unfolding d_of_u64_def by (rule d_round_pos(2)) simp
  have "d_sub (d_of_u64 a) (d_of_u64 b) = d_round False ?v 1"
    using v s d_of_u64_finite by (auto simp: d_sub_def Let_def)
  moreover have "0 \<le> d_val (d_round False ?v 1)" using d_round_pos(3) [OF v] mag_of_bits_nonneg round_bits_range [OF v] by simp
  moreover have "d_val (d_neg (d_lit 1 1)) < 0" "\<not> is_nan (d_neg (d_lit 1 1))"
    by (simp_all add: d_neg_def d_lit_1 d_val_def d_sign_def d_mag_def mag_of_bits_def is_nan_def d_exp_def d_man_def)
  ultimately show ?thesis using d_round_pos(1) [OF v] by (simp add: d_less_def)
qed

section \<open>Printing\<close>

text \<open>
  \<open>operator<<\<close> prints a \<open>double\<close> as \<open>printf\<close> does with \<open>%g\<close>: six significant digits of the exact
  value, rounded to nearest even, in fixed or scientific form, without trailing zeros.
  \<open>dec_shift n d\<close> is the number of tenfold steps that bring \<open>n / d\<close> to at least one.
\<close>

function dec_shift :: "int \<Rightarrow> int \<Rightarrow> nat" where
  "dec_shift n d = (if n \<le> 0 \<or> d \<le> n then 0 else Suc (dec_shift (10 * n) d))"
  by pat_completeness auto
termination
  by (relation "measure (\<lambda>(n, d). nat (d - n))") auto

declare dec_shift.simps [simp del]

definition strip_zeros :: "string \<Rightarrow> string" where
  "strip_zeros s = rev (dropWhile (\<lambda>c. c = CHR ''0'') (rev s))"

definition with_fraction :: "string \<Rightarrow> string \<Rightarrow> string" where
  "with_fraction whole frac = (let f = strip_zeros frac in if f = [] then whole else whole @ ''.'' @ f)"

definition show_exponent :: "int \<Rightarrow> string" where
  "show_exponent x = (let s = show_nat (nat \<bar>x\<bar>) in
     (if x < 0 then ''e-'' else ''e+'') @ (if length s < 2 then ''0'' @ s else s))"

definition show_magnitude :: "int \<Rightarrow> int \<Rightarrow> string" where
  "show_magnitude n d =
    (let x = (if d \<le> n then int (length (show_nat (nat (n div d)))) - 1 else - int (dec_shift n d));
         m = (if x \<le> 5 then rne (n * 10 ^ nat (5 - x)) d else rne n (d * 10 ^ nat (x - 5)));
         (x', m') = (if m = 1000000 then (x + 1, 100000) else (x, m));
         ds = show_nat (nat m')
     in if - 4 \<le> x' \<and> x' < 6 then
          (if 0 \<le> x' then with_fraction (take (nat x' + 1) ds) (drop (nat x' + 1) ds)
           else with_fraction ''0'' (replicate (nat (- x') - 1) CHR ''0'' @ ds))
        else with_fraction (take 1 ds) (drop 1 ds) @ show_exponent x')"

definition show_double :: "double \<Rightarrow> string" where
  "show_double v = (if d_sign v then ''-'' else '''') @
     (if is_nan v then ''nan'' else if is_inf v then ''inf''
      else if d_mag v = 0 then ''0'' else show_magnitude (d_mag v) (2 ^ 1074))"

end
