(* ===== verification/Gms_Region.thy ===== *)
theory Gms_Region
  imports Gms_Types Gms_Enums Gms_Containers Gms_Double
begin

text \<open>
  The model of \<open>RegionAllocator\<close> (\<^verbatim>\<open>include/gpu_memory_service/region_allocator.hpp\<close> and
  \<^verbatim>\<open>src/region_allocator.cpp\<close>): the exact byte layout of one arena.  State is passed
  explicitly; a method that can fail returns the new state and a \<open>result\<close>.  Dereferencing an
  iterator that may be \<open>end()\<close>, and \<open>std::map::at\<close> on a missing key, are \<open>Fault\<close>.
  The theory \<open>Gms_Region_Inv\<close> proves what the operations keep and do.
\<close>

section \<open>Data\<close>

datatype AllocationStrategy = FIRST_FIT | BEST_FIT

record RegionInfo =
  ri_region_id :: MemoryRegionId
  ri_region_generation :: MemoryRegionGeneration
  ri_offset :: u64
  ri_size :: u64
  ri_alignment :: u64
  ri_live :: bool
  ri_alloc_id :: AllocationId
  ri_alloc_generation :: AllocationGeneration
  ri_movability :: Movability
  ri_pin_count :: u32
  ri_mem_class :: MemoryClass
  ri_reclaimability :: Reclaimability
  ri_residency :: ResidencyState
  ri_lifecycle :: LifecycleState
  ri_provenance :: Provenance
  ri_worker_boot :: WorkerBootId

text \<open>The default member initialisers.\<close>

definition RegionInfo_default :: RegionInfo where
  "RegionInfo_default =
    \<lparr>ri_region_id = TypedId 0, ri_region_generation = TypedGeneration 0, ri_offset = 0, ri_size = 0,
     ri_alignment = 1, ri_live = False, ri_alloc_id = TypedId 0,
     ri_alloc_generation = TypedGeneration 0, ri_movability = Movability.MOVABLE,
     ri_pin_count = 0, ri_mem_class = MemoryClass.UNKNOWN,
     ri_reclaimability = Reclaimability.UNKNOWN, ri_residency = ResidencyState.UNKNOWN,
     ri_lifecycle = LifecycleState.REQUESTED, ri_provenance = Provenance.UNKNOWN,
     ri_worker_boot = TypedGeneration 0\<rparr>"

record AllocRequest =
  ar_bytes :: u64
  ar_alignment :: u64
  ar_movability :: Movability
  ar_mem_class :: MemoryClass
  ar_reclaimability :: Reclaimability
  ar_alloc_id :: AllocationId
  ar_alloc_generation :: AllocationGeneration
  ar_worker_boot :: WorkerBootId
  ar_provenance :: Provenance

text \<open>\<open>FreeSlot\<close> orders by size, then by offset.\<close>

datatype FreeSlot = FreeSlot (fs_size: u64) (fs_offset: u64)

definition slot_lt :: "FreeSlot \<Rightarrow> FreeSlot \<Rightarrow> bool" where
  "slot_lt a b \<longleftrightarrow>
     (if fs_size a \<noteq> fs_size b then fs_size a < fs_size b else fs_offset a < fs_offset b)"

declare slot_lt_def [simp]

instantiation FreeSlot :: linorder
begin

definition less_FreeSlot :: "FreeSlot \<Rightarrow> FreeSlot \<Rightarrow> bool" where
  "less_FreeSlot a b \<longleftrightarrow> slot_lt a b"

definition less_eq_FreeSlot :: "FreeSlot \<Rightarrow> FreeSlot \<Rightarrow> bool" where
  "less_eq_FreeSlot a b \<longleftrightarrow> a = b \<or> a < b"

instance
  by standard (auto simp: less_FreeSlot_def less_eq_FreeSlot_def FreeSlot.expand split: if_splits)

end

record RegionAllocator =
  ra_capacity :: u64
  ra_live_bytes :: u64
  ra_live_count :: u64
  ra_next_region_id :: u64
  ra_strategy :: AllocationStrategy
  ra_regions :: "(u64, RegionInfo) omap"
  ra_alloc_offset :: "(AllocationId, u64) omap"
  ra_free_slots :: "FreeSlot list"
  ra_summary_dirty :: bool
  ra_free_count :: u64
  ra_largest_free :: u64

section \<open>Construction and the free-slot index\<close>

definition ra_align_up :: "u64 \<Rightarrow> u64 \<Rightarrow> u64" where
  "ra_align_up v align =
     (if align = 0 then v
      else let mask = align - 1; r = v + mask in
        if r < v then 0 else r AND NOT mask)"

definition index_free :: "u64 \<Rightarrow> u64 \<Rightarrow> RegionAllocator \<Rightarrow> RegionAllocator" where
  "index_free off sz ra = ra\<lparr>ra_free_slots := os_insert (FreeSlot sz off) (ra_free_slots ra)\<rparr>"

text \<open>
  The source searches \<open>equal_range(FreeSlot{size, off})\<close> for the offset; the range holds at most
  the slot itself.
\<close>

definition unindex_free :: "u64 \<Rightarrow> u64 \<Rightarrow> RegionAllocator \<Rightarrow> RegionAllocator" where
  "unindex_free off sz ra = ra\<lparr>ra_free_slots := os_erase (FreeSlot sz off) (ra_free_slots ra)\<rparr>"

definition RegionAllocator_new :: "u64 \<Rightarrow> RegionAllocator" where
  "RegionAllocator_new capacity =
    (let free = RegionInfo_default\<lparr>ri_live := False, ri_offset := 0, ri_size := capacity,
                  ri_region_id := TypedId 1, ri_region_generation := TypedGeneration 1,
                  ri_provenance := Provenance.DERIVED\<rparr>;
         ra = \<lparr>ra_capacity = capacity, ra_live_bytes = 0, ra_live_count = 0,
               ra_next_region_id = 1, ra_strategy = BEST_FIT, ra_regions = om_emplace 0 free [],
               ra_alloc_offset = [], ra_free_slots = [], ra_summary_dirty = True,
               ra_free_count = 0, ra_largest_free = 0\<rparr>
     in if 0 < capacity then index_free 0 capacity ra else ra)"

definition free_bytes :: "RegionAllocator \<Rightarrow> u64" where
  "free_bytes ra = ra_capacity ra - ra_live_bytes ra"

definition ensure_summary :: "RegionAllocator \<Rightarrow> RegionAllocator" where
  "ensure_summary ra =
    (if \<not> ra_summary_dirty ra then ra
     else ra\<lparr>ra_free_count := of_nat (length (ra_free_slots ra)),
             ra_largest_free := (if ra_free_slots ra = [] then 0 else fs_size (last (ra_free_slots ra))),
             ra_summary_dirty := False\<rparr>)"

section \<open>allocate\<close>

text \<open>The scan over the slots from \<open>lower_bound(FreeSlot{aligned, 0})\<close> on: the first that fits.\<close>

fun find_slot :: "u64 \<Rightarrow> u64 \<Rightarrow> FreeSlot list \<Rightarrow> (FreeSlot \<times> u64) option" where
  "find_slot aligned alignment [] = None"
| "find_slot aligned alignment (it # slots) =
    (let front = ra_align_up (fs_offset it) alignment - fs_offset it in
     if front > fs_size it \<or> aligned > fs_size it - front then find_slot aligned alignment slots
     else Some (it, front))"

text \<open>A free region made by \<open>allocate\<close>: entered in the map and in the index, with a fresh region id.\<close>

definition add_free_region :: "u64 \<Rightarrow> u64 \<Rightarrow> Provenance \<Rightarrow> RegionAllocator \<Rightarrow> RegionAllocator" where
  "add_free_region off sz prov ra =
    (let f = RegionInfo_default\<lparr>ri_live := False, ri_offset := off, ri_size := sz,
               ri_region_id := TypedId (ra_next_region_id ra),
               ri_region_generation := TypedGeneration 1, ri_provenance := prov\<rparr>
     in index_free off sz
          (ra\<lparr>ra_next_region_id := ra_next_region_id ra + 1,
              ra_regions := om_emplace off f (ra_regions ra)\<rparr>))"

definition live_region :: "AllocRequest \<Rightarrow> u64 \<Rightarrow> u64 \<Rightarrow> u64 \<Rightarrow> RegionInfo" where
  "live_region req region_id off sz =
     RegionInfo_default\<lparr>ri_live := True, ri_offset := off, ri_size := sz,
       ri_alignment := ar_alignment req, ri_region_id := TypedId region_id,
       ri_region_generation := TypedGeneration 1, ri_alloc_id := ar_alloc_id req,
       ri_alloc_generation := ar_alloc_generation req, ri_movability := ar_movability req,
       ri_mem_class := ar_mem_class req, ri_reclaimability := ar_reclaimability req,
       ri_residency := ResidencyState.RESIDENT, ri_lifecycle := LifecycleState.ALLOCATED,
       ri_provenance := ar_provenance req, ri_worker_boot := ar_worker_boot req\<rparr>"

text \<open>The body of the loop once a slot fits: split the free region into pad, allocation and tail.\<close>

definition allocate_at ::
  "AllocRequest \<Rightarrow> u64 \<Rightarrow> FreeSlot \<Rightarrow> u64 \<Rightarrow> RegionAllocator \<Rightarrow> RegionAllocator \<times> RegionInfo result" where
  "allocate_at req aligned it front ra =
    (let foff = fs_offset it; fsize = fs_size it;
         alloc_off = foff + front; tail = fsize - front - aligned in
     case om_find (ra_regions ra) foff of
       None \<Rightarrow> (ra, Fault)
     | Some frec \<Rightarrow>
        let ra1 = ra\<lparr>ra_regions := om_erase foff (ra_regions ra),
                     ra_free_slots := os_erase it (ra_free_slots ra)\<rparr>;
            ra2 = (if front > 0 then add_free_region foff front (ri_provenance frec) ra1 else ra1);
            live = live_region req (ra_next_region_id ra2) alloc_off aligned;
            ra3 = ra2\<lparr>ra_next_region_id := ra_next_region_id ra2 + 1,
                      ra_regions := om_emplace alloc_off live (ra_regions ra2)\<rparr>;
            ra4 = (if tail > 0 then add_free_region (alloc_off + aligned) tail (ri_provenance frec) ra3
                   else ra3)
        in (ra4\<lparr>ra_live_bytes := ra_live_bytes ra4 + aligned, ra_live_count := ra_live_count ra4 + 1,
                ra_alloc_offset := om_assign (ar_alloc_id req) alloc_off (ra_alloc_offset ra4),
                ra_summary_dirty := True\<rparr>, Ok live))"

definition arena_allocate :: "RegionAllocator \<Rightarrow> AllocRequest \<Rightarrow> RegionAllocator \<times> RegionInfo result" where
  "arena_allocate ra req =
    (if ar_bytes req = 0 then (ra, Err (Failure RejectReason.ZERO_BYTES ''allocation of zero bytes''))
     else if ar_alignment req = 0 \<or> \<not> is_pow2 (ar_alignment req) then
       (ra, Err (Failure (if ar_alignment req = 0 then RejectReason.IMPOSSIBLE_ALIGNMENT
                          else RejectReason.NON_POWER_OF_TWO_ALIGNMENT) ''invalid alignment''))
     else if ar_bytes req > ra_capacity ra then
       (ra, Err (Failure RejectReason.INSUFFICIENT_TOTAL_CAPACITY ''request exceeds capacity''))
     else let aligned = ra_align_up (ar_bytes req) (ar_alignment req) in
       if aligned = 0 \<or> aligned < ar_bytes req then
         (ra, Err (Failure RejectReason.SIZE_OVERFLOW ''aligned size overflow''))
       else if aligned > ra_capacity ra then
         (ra, Err (Failure RejectReason.INSUFFICIENT_TOTAL_CAPACITY ''aligned request exceeds capacity''))
       else case find_slot aligned (ar_alignment req)
                   (os_lower_bound (FreeSlot aligned 0) (ra_free_slots ra)) of
         Some (it, front) \<Rightarrow> allocate_at req aligned it front ra
       | None \<Rightarrow>
           if free_bytes ra < aligned then
             (ra, Err (Failure RejectReason.INSUFFICIENT_TOTAL_CAPACITY
                        ''total managed free bytes insufficient''))
           else
             (ra, Err (Failure RejectReason.INSUFFICIENT_CONTIGUOUS_CAPACITY
                        ''no contiguous free region of sufficient size'')))"

section \<open>free\<close>

definition canonicalize_free ::
  "u64 \<Rightarrow> u64 \<Rightarrow> RegionAllocator \<Rightarrow> RegionAllocator \<times> RegionInfo result" where
  "canonicalize_free off sz ra =
    (if sz = 0 then (ra, Err (Failure RejectReason.ZERO_BYTES ''zero-size free interval''))
     else if off > ra_capacity ra \<or> sz > ra_capacity ra - off then
       (ra, Err (Failure RejectReason.SIZE_OVERFLOW ''free interval out of bounds''))
     else
       let (ra1, lo) =
             (if om_before off (ra_regions ra) \<noteq> [] then
                let (pk, pr) = last (om_before off (ra_regions ra)) in
                if \<not> ri_live pr \<and> pk + ri_size pr = off
                then ((unindex_free pk (ri_size pr) ra)\<lparr>ra_regions := om_erase pk (ra_regions ra)\<rparr>, pk)
                else (ra, off)
              else (ra, off));
           (ra2, hi) =
             (case om_lower_bound off (ra_regions ra1) of
                [] \<Rightarrow> (ra1, off + sz)
              | (nk, nr) # _ \<Rightarrow>
                  if \<not> ri_live nr \<and> nk = off + sz
                  then ((unindex_free nk (ri_size nr) ra1)\<lparr>ra_regions := om_erase nk (ra_regions ra1)\<rparr>,
                        nk + ri_size nr)
                  else (ra1, off + sz));
           f = RegionInfo_default\<lparr>ri_live := False, ri_offset := lo, ri_size := hi - lo,
                 ri_region_id := TypedId (ra_next_region_id ra2),
                 ri_region_generation := TypedGeneration 1, ri_provenance := Provenance.DERIVED\<rparr>;
           ra3 = ra2\<lparr>ra_next_region_id := ra_next_region_id ra2 + 1,
                     ra_regions := om_emplace lo f (ra_regions ra2)\<rparr>
       in ((index_free lo (hi - lo) ra3)\<lparr>ra_summary_dirty := True\<rparr>, Ok f))"

definition arena_free :: "RegionAllocator \<Rightarrow> AllocationId \<Rightarrow> AllocationGeneration \<Rightarrow> RegionAllocator \<times> RegionInfo result" where
  "arena_free ra aid gen =
    (case om_find (ra_alloc_offset ra) aid of
       None \<Rightarrow> (ra, Err (Failure RejectReason.STALE_GENERATION ''unknown or already-freed allocation''))
     | Some off \<Rightarrow>
       (case om_find (ra_regions ra) off of
          None \<Rightarrow> (ra, Err (Failure RejectReason.STALE_GENERATION ''allocation region is not live''))
        | Some r \<Rightarrow>
          if \<not> ri_live r then
            (ra, Err (Failure RejectReason.STALE_GENERATION ''allocation region is not live''))
          else if ri_alloc_generation r \<noteq> gen then
            (ra, Err (Failure RejectReason.STALE_GENERATION ''stale allocation generation on free''))
          else
            canonicalize_free off (ri_size r)
              (ra\<lparr>ra_regions := om_erase off (ra_regions ra),
                  ra_alloc_offset := om_erase aid (ra_alloc_offset ra),
                  ra_live_bytes := ra_live_bytes ra - ri_size r,
                  ra_live_count := ra_live_count ra - 1\<rparr>)))"

section \<open>relocate\<close>

text \<open>Does a live region overlap the target?  The predecessor of \<open>new_offset\<close>, then the regions from it on.\<close>

fun live_before_hi :: "u64 \<Rightarrow> (u64, RegionInfo) omap \<Rightarrow> bool" where
  "live_before_hi new_hi [] = False"
| "live_before_hi new_hi ((k, r) # c) =
     (if k < new_hi then (if ri_live r then True else live_before_hi new_hi c) else False)"

definition overlaps_live :: "u64 \<Rightarrow> u64 \<Rightarrow> (u64, RegionInfo) omap \<Rightarrow> bool" where
  "overlaps_live new_offset new_hi regions =
     ((om_before new_offset regions \<noteq> [] \<and>
       (let (pk, pr) = last (om_before new_offset regions) in
          ri_live pr \<and> pk + ri_size pr > new_offset)) \<or>
      live_before_hi new_hi (om_lower_bound new_offset regions))"

text \<open>
  The carving loop: copies the regions to \<open>next\<close>, splitting every free region that overlaps the
  target, and keeps the slot index in step.
\<close>

fun carve ::
  "u64 \<Rightarrow> u64 \<Rightarrow> (u64, RegionInfo) omap \<Rightarrow> (u64, RegionInfo) omap \<Rightarrow> RegionAllocator \<Rightarrow>
   (u64, RegionInfo) omap \<times> RegionAllocator" where
  "carve new_offset new_hi [] next ra = (next, ra)"
| "carve new_offset new_hi ((s, r) # rest) next ra =
    (let e = s + ri_size r in
     if ri_live r then carve new_offset new_hi rest (om_assign s r next) ra
     else let ov_s = max s new_offset; ov_e = min e new_hi in
       if ov_s \<ge> ov_e then carve new_offset new_hi rest (om_assign s r next) ra
       else
         let ra1 = unindex_free s (e - s) ra;
             (next2, ra2) =
               (if s < ov_s
                then (om_assign s (r\<lparr>ri_offset := s, ri_size := ov_s - s\<rparr>) next,
                      index_free s (ov_s - s) ra1)
                else (next, ra1));
             (next3, ra3) =
               (if ov_e < e
                then (om_assign ov_e (r\<lparr>ri_offset := ov_e, ri_size := e - ov_e\<rparr>) next2,
                      index_free ov_e (e - ov_e) ra2)
                else (next2, ra2))
         in carve new_offset new_hi rest next3 ra3)"

definition moved_region :: "RegionInfo \<Rightarrow> AllocationGeneration \<Rightarrow> u64 \<Rightarrow> u64 \<Rightarrow> u64 \<Rightarrow> RegionInfo" where
  "moved_region old gen new_offset new_size new_alignment =
     old\<lparr>ri_offset := new_offset, ri_size := new_size, ri_alignment := new_alignment,
         ri_alloc_generation := gen_next gen,
         ri_region_generation := gen_next (ri_region_generation old),
         ri_lifecycle := LifecycleState.RESIDENT\<rparr>"

text \<open>The mutation, once every check has passed.\<close>

definition relocate_commit ::
  "AllocationId \<Rightarrow> AllocationGeneration \<Rightarrow> u64 \<Rightarrow> RegionInfo \<Rightarrow> u64 \<Rightarrow> u64 \<Rightarrow> u64 \<Rightarrow> RegionAllocator \<Rightarrow>
   RegionAllocator \<times> RegionInfo result" where
  "relocate_commit aid gen old_off old new_offset new_size new_alignment ra =
    (let old_size = ri_size old;
         ra1 = ra\<lparr>ra_regions := om_erase old_off (ra_regions ra),
                  ra_alloc_offset := om_erase aid (ra_alloc_offset ra)\<rparr>;
         (next, ra2) = carve new_offset (new_offset + new_size) (ra_regions ra1) [] ra1;
         ra3 = ra2\<lparr>ra_regions := next\<rparr>
     in case canonicalize_free old_off old_size ra3 of
          (ra4, Err e) \<Rightarrow> (ra4, Err e)
        | (ra4, Fault) \<Rightarrow> (ra4, Fault)
        | (ra4, Ok _) \<Rightarrow>
            let moved = moved_region old gen new_offset new_size new_alignment in
            (ra4\<lparr>ra_regions := om_emplace new_offset moved (ra_regions ra4),
                 ra_alloc_offset := om_assign aid new_offset (ra_alloc_offset ra4),
                 ra_live_bytes := (if new_size \<ge> old_size then ra_live_bytes ra4 + (new_size - old_size)
                                   else ra_live_bytes ra4 - (old_size - new_size)),
                 ra_summary_dirty := True\<rparr>, Ok moved))"

definition arena_relocate ::
  "RegionAllocator \<Rightarrow> AllocationId \<Rightarrow> AllocationGeneration \<Rightarrow> u64 \<Rightarrow> u64 \<Rightarrow> u64 \<Rightarrow>
   RegionAllocator \<times> RegionInfo result" where
  "arena_relocate ra aid gen new_offset new_size new_alignment =
    (case om_find (ra_alloc_offset ra) aid of
       None \<Rightarrow> (ra, Err (Failure RejectReason.STALE_GENERATION ''unknown allocation''))
     | Some old_off \<Rightarrow>
       (case om_find (ra_regions ra) old_off of
          None \<Rightarrow> (ra, Err (Failure RejectReason.STALE_GENERATION ''allocation region is not live''))
        | Some r \<Rightarrow>
          if \<not> ri_live r then
            (ra, Err (Failure RejectReason.STALE_GENERATION ''allocation region is not live''))
          else if ri_alloc_generation r \<noteq> gen then
            (ra, Err (Failure RejectReason.STALE_GENERATION ''stale generation on relocate''))
          else if new_alignment = 0 \<or> \<not> is_pow2 new_alignment then
            (ra, Err (Failure RejectReason.IMPOSSIBLE_ALIGNMENT ''invalid relocation alignment''))
          else if new_size = 0 \<or> new_offset mod new_alignment \<noteq> 0 then
            (ra, Err (Failure RejectReason.INVALID_REQUEST ''invalid relocation target''))
          else if new_offset > ra_capacity ra \<or> new_size > ra_capacity ra - new_offset then
            (ra, Err (Failure RejectReason.SIZE_OVERFLOW ''relocation target out of bounds''))
          else if new_offset < old_off + ri_size r \<and> old_off < new_offset + new_size then
            (ra, Err (Failure RejectReason.INVALID_REQUEST ''relocation target overlaps current region''))
          else if overlaps_live new_offset (new_offset + new_size) (ra_regions ra) then
            (ra, Err (Failure RejectReason.INVALID_REQUEST ''relocation target overlaps a live region''))
          else relocate_commit aid gen old_off r new_offset new_size new_alignment ra))"

section \<open>pin, unpin, get\<close>

definition set_region :: "u64 \<Rightarrow> RegionInfo \<Rightarrow> RegionAllocator \<Rightarrow> RegionAllocator" where
  "set_region off r ra = ra\<lparr>ra_regions := om_assign off r (ra_regions ra)\<rparr>"

definition arena_pin :: "RegionAllocator \<Rightarrow> AllocationId \<Rightarrow> AllocationGeneration \<Rightarrow> RegionAllocator \<times> RegionInfo result" where
  "arena_pin ra aid gen =
    (case om_find (ra_alloc_offset ra) aid of
       None \<Rightarrow> (ra, Err (Failure RejectReason.STALE_GENERATION ''unknown allocation''))
     | Some off \<Rightarrow>
       (case om_find (ra_regions ra) off of
          None \<Rightarrow> (ra, Fault)
        | Some r \<Rightarrow>
          if \<not> ri_live r then (ra, Err (Failure RejectReason.STALE_GENERATION ''allocation not live''))
          else if ri_alloc_generation r \<noteq> gen then
            (ra, Err (Failure RejectReason.STALE_GENERATION ''stale generation on pin''))
          else let r' = r\<lparr>ri_movability := Movability.PINNED, ri_pin_count := ri_pin_count r + 1\<rparr>
               in (set_region off r' ra, Ok r')))"

definition arena_unpin :: "RegionAllocator \<Rightarrow> AllocationId \<Rightarrow> AllocationGeneration \<Rightarrow> RegionAllocator \<times> RegionInfo result" where
  "arena_unpin ra aid gen =
    (case om_find (ra_alloc_offset ra) aid of
       None \<Rightarrow> (ra, Err (Failure RejectReason.STALE_GENERATION ''unknown allocation''))
     | Some off \<Rightarrow>
       (case om_find (ra_regions ra) off of
          None \<Rightarrow> (ra, Fault)
        | Some r \<Rightarrow>
          if \<not> ri_live r then (ra, Err (Failure RejectReason.STALE_GENERATION ''allocation not live''))
          else if ri_alloc_generation r \<noteq> gen then
            (ra, Err (Failure RejectReason.STALE_GENERATION ''stale generation on unpin''))
          else if ri_pin_count r = 0 then
            (ra, Err (Failure RejectReason.INVALID_REQUEST ''unpin of non-pinned allocation''))
          else let r' = r\<lparr>ri_pin_count := ri_pin_count r - 1,
                          ri_movability := (if ri_pin_count r - 1 = 0 then Movability.MOVABLE
                                            else ri_movability r)\<rparr>
               in (set_region off r' ra, Ok r')))"

definition arena_get :: "RegionAllocator \<Rightarrow> AllocationId \<Rightarrow> AllocationGeneration \<Rightarrow> RegionInfo result" where
  "arena_get ra aid gen =
    (case om_find (ra_alloc_offset ra) aid of
       None \<Rightarrow> Err (Failure RejectReason.STALE_GENERATION ''unknown allocation'')
     | Some off \<Rightarrow>
       (case om_find (ra_regions ra) off of
          None \<Rightarrow> Err (Failure RejectReason.STALE_GENERATION ''allocation not live'')
        | Some r \<Rightarrow>
          if \<not> ri_live r then Err (Failure RejectReason.STALE_GENERATION ''allocation not live'')
          else if ri_alloc_generation r \<noteq> gen then
            Err (Failure RejectReason.STALE_GENERATION ''stale generation on query'')
          else Ok r))"

section \<open>Queries\<close>

definition free_region_count :: "RegionAllocator \<Rightarrow> RegionAllocator \<times> u64" where
  "free_region_count ra = (let ra' = ensure_summary ra in (ra', ra_free_count ra'))"

definition largest_free_region :: "RegionAllocator \<Rightarrow> RegionAllocator \<times> u64" where
  "largest_free_region ra = (let ra' = ensure_summary ra in (ra', ra_largest_free ra'))"

definition external_fragmentation :: "RegionAllocator \<Rightarrow> RegionAllocator \<times> double" where
  "external_fragmentation ra =
    (let ra' = ensure_summary ra in
     (ra', if free_bytes ra' = 0 then d_lit 0 1
           else d_sub (d_lit 1 1) (d_div (d_of_u64 (ra_largest_free ra')) (d_of_u64 (free_bytes ra')))))"

definition movable_bytes :: "RegionAllocator \<Rightarrow> u64" where
  "movable_bytes ra =
     fold (\<lambda>kv s. if ri_live (snd kv) \<and> ri_movability (snd kv) = Movability.MOVABLE
                  then s + ri_size (snd kv) else s) (ra_regions ra) 0"

definition pinned_bytes :: "RegionAllocator \<Rightarrow> u64" where
  "pinned_bytes ra =
     fold (\<lambda>kv s. if ri_live (snd kv) \<and> ri_movability (snd kv) = Movability.PINNED
                  then s + ri_size (snd kv) else s) (ra_regions ra) 0"

definition snapshot_live :: "RegionAllocator \<Rightarrow> RegionInfo list" where
  "snapshot_live ra = filter ri_live (map snd (ra_regions ra))"

definition snapshot_free :: "RegionAllocator \<Rightarrow> RegionInfo list" where
  "snapshot_free ra = filter (\<lambda>r. \<not> ri_live r) (map snd (ra_regions ra))"

definition set_strategy :: "AllocationStrategy \<Rightarrow> RegionAllocator \<Rightarrow> RegionAllocator" where
  "set_strategy s ra = ra\<lparr>ra_strategy := s\<rparr>"

section \<open>verify and dump\<close>

text \<open>The loop of \<open>verify\<close>; \<open>prev\<close> is \<open>(prev_end, prev_free)\<close> once there is a previous region.\<close>

fun verify_loop ::
  "(u64, RegionInfo) omap \<Rightarrow> u64 \<Rightarrow> u64 \<Rightarrow> (u64 \<times> bool) option \<Rightarrow> u64 \<Rightarrow> string + (u64 \<times> u64 \<times> u64)" where
  "verify_loop [] expected live_sum prev free_count = Inr (expected, live_sum, free_count)"
| "verify_loop ((k, r) # rest) expected live_sum prev free_count =
    (if k \<noteq> expected then
       Inl (''gap/overlap at '' @ show_word k @ '' expected '' @ show_word expected @ [CHR 0x0A])
     else if (case prev of Some (prev_end, _) \<Rightarrow> prev_end > k | None \<Rightarrow> False) then
       Inl (''overlap at '' @ show_word k @ [CHR 0x0A])
     else if (case prev of Some (prev_end, prev_free) \<Rightarrow> prev_free \<and> \<not> ri_live r \<and> prev_end = k
              | None \<Rightarrow> False) then
       Inl (''adjacent free not merged at '' @ show_word k @ [CHR 0x0A])
     else if ri_live r \<and> (ri_alignment r = 0 \<or> ri_alignment r AND (ri_alignment r - 1) \<noteq> 0) then
       Inl (''bad alignment at '' @ show_word k @ [CHR 0x0A])
     else if ri_live r \<and> k mod ri_alignment r \<noteq> 0 then
       Inl (''misaligned at '' @ show_word k @ [CHR 0x0A])
     else
       verify_loop rest (k + ri_size r) (if ri_live r then live_sum + ri_size r else live_sum)
         (Some (k + ri_size r, \<not> ri_live r)) (if ri_live r then free_count else free_count + 1))"

definition arena_verify :: "RegionAllocator \<Rightarrow> string" where
  "arena_verify ra =
    (case verify_loop (ra_regions ra) 0 0 None 0 of
       Inl e \<Rightarrow> e
     | Inr (expected, live_sum, free_count_regions) \<Rightarrow>
         if expected \<noteq> ra_capacity ra then ''arena does not cover capacity'' @ [CHR 0x0A]
         else if live_sum \<noteq> ra_live_bytes ra then ''live byte sum mismatch'' @ [CHR 0x0A]
         else if free_count_regions \<noteq> of_nat (length (ra_free_slots ra)) then
           ''free-slot index drift'' @ [CHR 0x0A]
         else '''')"

definition dump_region :: "RegionInfo \<Rightarrow> string" where
  "dump_region r =
     ''  ['' @ show_word (ri_offset r) @ '', '' @ show_word (ri_offset r + ri_size r) @ '') '' @
     (if ri_live r then ''LIVE'' else ''free'') @
     '' id='' @ show_word (id_value (ri_alloc_id r)) @
     '' gen='' @ show_word (gen_value (ri_alloc_generation r)) @
     (if ri_live r then
        '' mov='' @ Movability_to_string (ri_movability r) @ '' pin='' @ show_word (ri_pin_count r) @
        '' class='' @ MemoryClass_to_string (ri_mem_class r)
      else '''') @ [CHR 0x0A]"

definition arena_dump :: "RegionAllocator \<Rightarrow> string" where
  "arena_dump ra =
     ''arena capacity='' @ show_word (ra_capacity ra) @ '' live='' @ show_word (ra_live_bytes ra) @
     '' free='' @ show_word (free_bytes ra) @ '' live_count='' @ show_word (ra_live_count ra) @
     [CHR 0x0A] @ concat (map (\<lambda>kv. dump_region (snd kv)) (ra_regions ra))"

end
