(* ===== verification/Gms_Codec.thy ===== *)
theory Gms_Codec
  imports Gms_Prelude
begin

text \<open>
  The byte codecs of \<^verbatim>\<open>src/protocol.cpp\<close>: the CRC-32, the little-endian \<open>append_*\<close> writers and the
  bounds-checked \<open>take_*\<close> readers, which the wire protocol and the persistence format build on.  A
  writer is the bytes it appends.  A reader is a function of the bytes from its position on: it
  gives the value and the bytes after it, or fails.  The locale \<open>codec\<close> is the contract of a pair
  of them; the last section shows what the checksum detects.
\<close>

section \<open>CRC-32\<close>

definition crc_bit :: "u32 \<Rightarrow> u32" where
  "crc_bit crc = drop_bit 1 crc XOR (0xEDB88320 AND (0 - (crc AND 1)))"

definition crc_byte :: "u32 \<Rightarrow> u8 \<Rightarrow> u32" where
  "crc_byte crc b = (crc_bit ^^ 8) (crc XOR ucast b)"

definition crc32 :: "u8 list \<Rightarrow> u32" where
  "crc32 data = foldl crc_byte 0xFFFFFFFF data XOR 0xFFFFFFFF"

section \<open>Little-endian integers and strings\<close>

definition append_u8 :: "u8 \<Rightarrow> u8 list" where
  "append_u8 v = [v]"

definition append_u32 :: "u32 \<Rightarrow> u8 list" where
  "append_u32 v = map (\<lambda>i. ucast (drop_bit (8 * i) v AND 0xFF)) [0..<4]"

definition append_u64 :: "u64 \<Rightarrow> u8 list" where
  "append_u64 v = map (\<lambda>i. ucast (drop_bit (8 * i) v AND 0xFF)) [0..<8]"

text \<open>A \<open>char\<close> of a \<open>std::string\<close> and the byte it is cast to.\<close>

definition char_byte :: "char \<Rightarrow> u8" where
  "char_byte c = of_nat (of_char c)"

definition byte_char :: "u8 \<Rightarrow> char" where
  "byte_char b = char_of (unat b)"

text \<open>A \<open>std::int32_t\<close> is the signed reading of a 32-bit word.\<close>

definition append_i32 :: "int \<Rightarrow> u8 list" where
  "append_i32 v = append_u32 (of_int v)"

definition append_str :: "string \<Rightarrow> u8 list" where
  "append_str s = append_u32 (of_nat (length s)) @ map char_byte s"

text \<open>
  A reader works on the bytes from its position on.  \<open>Short\<close> is the failure of a bounds check;
  \<open>Wild\<close> is an access outside the buffer.
\<close>

datatype 'a rd = Got 'a "u8 list" | Short | Wild

definition rd_bind :: "(u8 list \<Rightarrow> 'a rd) \<Rightarrow> ('a \<Rightarrow> u8 list \<Rightarrow> 'b rd) \<Rightarrow> u8 list \<Rightarrow> 'b rd" where
  "rd_bind m f b = (case m b of Got a b' \<Rightarrow> f a b' | Short \<Rightarrow> Short | Wild \<Rightarrow> Wild)"

definition rd_return :: "'a \<Rightarrow> u8 list \<Rightarrow> 'a rd" where
  "rd_return a b = Got a b"

definition le_word :: "u8 list \<Rightarrow> 'w::len word" where
  "le_word bs = foldl (\<lambda>r (i, x). r OR push_bit (8 * i) (ucast x)) 0 (List.enumerate 0 bs)"

definition take_u8 :: "u8 list \<Rightarrow> u8 rd" where
  "take_u8 b = (case b of [] \<Rightarrow> Short | x # b' \<Rightarrow> Got x b')"

definition take_u32 :: "u8 list \<Rightarrow> u32 rd" where
  "take_u32 b = (if length b < 4 then Short else Got (le_word (take 4 b)) (drop 4 b))"

definition take_u64 :: "u8 list \<Rightarrow> u64 rd" where
  "take_u64 b = (if length b < 8 then Short else Got (le_word (take 8 b)) (drop 8 b))"

definition take_i32 :: "u8 list \<Rightarrow> int rd" where
  "take_i32 b = (case take_u32 b of Got t b' \<Rightarrow> Got (sint t) b' | Short \<Rightarrow> Short | Wild \<Rightarrow> Wild)"

text \<open>\<open>take_str\<close> of the protocol; the reader of persistence is \<open>r_str\<close>.\<close>

definition take_str :: "u8 list \<Rightarrow> string rd" where
  "take_str b = (case take_u32 b of
     Got n b' \<Rightarrow> if n > push_bit 20 1 then Short else if length b' < unat n then Short
                 else Got (map byte_char (take (unat n) b')) (drop (unat n) b')
   | Short \<Rightarrow> Short | Wild \<Rightarrow> Wild)"

section \<open>Codecs\<close>

text \<open>
  The contract of a codec for the values that satisfy \<open>ok\<close>: decoding what was encoded, followed
  by anything, gives back the value and leaves the rest.
\<close>

locale codec =
  fixes enc :: "'a \<Rightarrow> u8 list" and dec :: "u8 list \<Rightarrow> 'a rd" and ok :: "'a \<Rightarrow> bool"
  assumes roundtrip: "ok x \<Longrightarrow> dec (enc x @ rest) = Got x rest"
begin

lemma exact: "ok x \<Longrightarrow> dec (enc x) = Got x []"
  using roundtrip [of x "[]"] by simp

text \<open>Encodings are prefix free, so a stream of them has one reading.\<close>

lemma prefix_free: "ok x \<Longrightarrow> ok y \<Longrightarrow> enc x @ r = enc y @ s \<Longrightarrow> x = y \<and> r = s"
  by (metis rd.inject roundtrip)

lemma bind: "ok x \<Longrightarrow> rd_bind dec f (enc x @ rest) = f x rest"
  by (simp add: rd_bind_def roundtrip)

end

text \<open>Reading a counted list with a codec.\<close>

fun take_list :: "(u8 list \<Rightarrow> 'a rd) \<Rightarrow> nat \<Rightarrow> u8 list \<Rightarrow> 'a list rd" where
  "take_list d 0 b = Got [] b"
| "take_list d (Suc n) b = (case d b of Got a b' \<Rightarrow> (case take_list d n b' of Got as b'' \<Rightarrow> Got (a # as) b'' | Short \<Rightarrow> Short | Wild \<Rightarrow> Wild)
     | Short \<Rightarrow> Short | Wild \<Rightarrow> Wild)"

context codec
begin

lemma list_roundtrip: "\<forall>x\<in>set xs. ok x \<Longrightarrow> take_list dec (length xs) (concat (map enc xs) @ rest) = Got xs rest"
  by (induction xs) (simp_all add: roundtrip)

end

lemma length_append [simp]: "length (append_u8 a) = 1" "length (append_u32 b) = 4" "length (append_u64 c) = 8"
  by (simp_all add: append_u8_def append_u32_def append_u64_def)

lemma le_word_snoc: "le_word (bs @ [x]) = (le_word bs OR push_bit (8 * length bs) (ucast x))"
  by (simp add: le_word_def enumerate_append_eq)

lemma bit_u8_less: "bit (x :: u8) n \<Longrightarrow> n < 8"
  using bit_imp_le_length [of x n] by simp

lemma bit_le_word:
  "bit (le_word bs :: 'w::len word) n \<longleftrightarrow> n < LENGTH('w) \<and> n div 8 < length bs \<and> bit (bs ! (n div 8)) (n mod 8)"
proof (induction bs rule: rev_induct)
  case Nil
  then show ?case by (simp add: le_word_def)
next
  case (snoc x bs)
  have "bit (push_bit (8 * length bs) (ucast x) :: 'w word) n \<longleftrightarrow>
      n < LENGTH('w) \<and> 8 * length bs \<le> n \<and> bit x (n - 8 * length bs)"
    by (auto simp: bit_simps)
  also have "\<dots> \<longleftrightarrow> n < LENGTH('w) \<and> n div 8 = length bs \<and> bit x (n mod 8)"
  proof (cases "8 * length bs \<le> n \<and> n < 8 * length bs + 8")
    case True
    then obtain j where "n = 8 * length bs + j" "j < 8" by (metis add_less_cancel_left le_Suc_ex)
    then show ?thesis by simp
  next
    case False
    then have "n div 8 \<noteq> length bs" by auto
    with False show ?thesis using bit_u8_less [of x "n - 8 * length bs"] by auto
  qed
  finally show ?case using snoc by (auto simp: le_word_snoc bit_or_iff nth_append)
qed

lemma bit_le_byte:
  "bit (ucast (drop_bit (8 * i) v AND 0xFF) :: u8) j \<longleftrightarrow> j < 8 \<and> bit (v :: 'w::len word) (8 * i + j)"
proof -
  have m: "(0xFF :: 'w word) = mask 8" by (simp add: mask_eq_exp_minus_1)
  show ?thesis unfolding m by (auto simp only: unsigned_ucast_eq bit_ucast_iff bit_and_iff bit_mask_iff bit_drop_bit_eq possible_bit_word comp_def len_of_numeral_defs dest: bit_imp_le_length)
qed

lemma le_word_bytes:
  fixes v :: "'w::len word"
  assumes "8 * k = LENGTH('w)"
  shows "le_word (map (\<lambda>i. ucast (drop_bit (8 * i) v AND 0xFF)) [0..<k]) = v"
proof (rule bit_word_eqI)
  fix n assume "n < LENGTH('w)"
  with assms have "n div 8 < k" by linarith
  with \<open>n < LENGTH('w)\<close> show "bit (le_word (map (\<lambda>i. ucast (drop_bit (8 * i) v AND 0xFF)) [0..<k]) :: 'w word) n = bit v n"
    by (simp add: bit_le_word bit_le_byte)
qed

lemma le_word_u32: "le_word (append_u32 v) = v"
  unfolding append_u32_def by (rule le_word_bytes) simp

lemma le_word_u64: "le_word (append_u64 v) = v"
  unfolding append_u64_def by (rule le_word_bytes) simp

interpretation c8: codec append_u8 take_u8 "\<lambda>_. True"
  by unfold_locales (simp add: append_u8_def take_u8_def)

interpretation c32: codec append_u32 take_u32 "\<lambda>_. True"
  by unfold_locales (simp add: take_u32_def le_word_u32)

interpretation c64: codec append_u64 take_u64 "\<lambda>_. True"
  by unfold_locales (simp add: take_u64_def le_word_u64)

interpretation ci32: codec append_i32 take_i32 "\<lambda>v. - (2 ^ 31) \<le> v \<and> v < 2 ^ 31"
proof
  fix v :: int and rest assume "- (2 ^ 31) \<le> v \<and> v < 2 ^ 31"
  then have "sint (of_int v :: u32) = v" by (simp add: int_word_sint)
  then show "take_i32 (append_i32 v @ rest) = Got v rest"
    by (simp add: append_i32_def take_i32_def c32.roundtrip)
qed

lemma byte_char_byte [simp]: "byte_char (char_byte c) = c"
  by (simp add: byte_char_def char_byte_def unat_of_nat)

lemma char_byte_char [simp]: "char_byte (byte_char b) = b"
  using unsigned_less [of b, where 'a = nat] by (simp add: byte_char_def char_byte_def)

abbreviation str_ok :: "string \<Rightarrow> bool" where
  "str_ok s \<equiv> length s \<le> 2 ^ 20"

lemma unat_length32: "str_ok s \<Longrightarrow> unat (of_nat (length s) :: u32) = length s"
  by (simp add: unat_of_nat)

interpretation cstr: codec append_str take_str str_ok
proof
  fix s :: string and rest assume ok: "str_ok s"
  then have n: "unat (of_nat (length s) :: u32) = length s" by (rule unat_length32)
  have "\<not> (of_nat (length s) :: u32) > push_bit 20 1" using ok by (simp add: word_less_nat_alt n)
  with n show "take_str (append_str s @ rest) = Got s rest"
    using c32.roundtrip [of "of_nat (length s)" "map char_byte s @ rest"] by (simp add: take_str_def append_str_def comp_def)
qed

section \<open>What the checksum detects\<close>

lemma crc_bit_cases: "crc_bit c = (drop_bit 1 c XOR (if bit c 0 then 0xEDB88320 else 0))"
  by (simp add: crc_bit_def and_one_eq bit_0 mod_2_eq_odd)

lemma xor_cancel [simp]: "(c XOR a) = (c XOR b) \<longleftrightarrow> a = b" "(a XOR c) = (b XOR c) \<longleftrightarrow> a = b" for a b c :: "'w::len word"
  by (metis xor.assoc xor.left_neutral xor_self_eq) (metis xor.assoc xor.right_neutral xor_self_eq)

lemma crc_bit_xor: "crc_bit (a XOR b) = (crc_bit a XOR crc_bit b)"
  by (simp add: crc_bit_cases bit_xor_iff drop_bit_xor xor.assoc xor.left_commute xor.commute)

lemma crc_bit_inj: "crc_bit a = crc_bit b \<longleftrightarrow> a = b"
proof
  have zero: "x = 0" if "crc_bit x = 0" for x
  proof (cases "bit x 0")
    case True
    then have "crc_bit x = (drop_bit 1 x XOR 0xEDB88320)" by (simp add: crc_bit_cases)
    moreover have "bit (drop_bit 1 x XOR 0xEDB88320) 31"
      using bit_imp_le_length [of x 32] by (auto simp: bit_xor_iff bit_drop_bit_eq)
    ultimately show ?thesis using that by simp
  next
    case False
    with that have "drop_bit 1 x = 0" by (simp add: crc_bit_cases)
    then have "bit (drop_bit 1 x) n = bit (0 :: u32) n" for n by simp
    then have "\<not> bit x (Suc n)" for n by (simp add: bit_drop_bit_eq)
    with False have "\<not> bit x n" for n by (cases n) simp_all
    then show ?thesis by (intro bit_word_eqI) simp
  qed
  assume "crc_bit a = crc_bit b"
  then have "crc_bit (a XOR b) = 0" by (simp add: crc_bit_xor)
  then show "a = b" using zero [of "a XOR b"] by (metis xor.assoc xor.right_neutral xor_self_eq)
qed simp

lemma crc_bits_xor: "(crc_bit ^^ n) (a XOR b) = ((crc_bit ^^ n) a XOR (crc_bit ^^ n) b)"
  by (induction n) (simp_all add: crc_bit_xor)

lemma crc_bits_inj: "(crc_bit ^^ n) a = (crc_bit ^^ n) b \<longleftrightarrow> a = b"
  by (induction n) (simp_all add: crc_bit_inj)

lemma crc_bit_push:
  assumes "Suc k \<le> 24"
  shows "crc_bit (push_bit (Suc k) (ucast (x :: u8))) = push_bit k (ucast x)"
proof -
  have "\<not> bit (push_bit (Suc k) (ucast x) :: u32) 0" by (simp add: bit_push_bit_iff del: push_bit_Suc)
  moreover have "drop_bit 1 (push_bit (Suc k) (ucast x)) = (push_bit k (ucast x) :: u32)"
  proof (rule bit_word_eqI)
    fix n :: nat assume "n < LENGTH(32)"
    then show "bit (drop_bit 1 (push_bit (Suc k) (ucast x)) :: u32) n = bit (push_bit k (ucast x) :: u32) n"
      using assms bit_u8_less [of x "n - k"] by (auto simp: bit_drop_bit_eq bit_push_bit_iff bit_ucast_iff simp del: push_bit_Suc)
  qed
  ultimately show ?thesis by (simp add: crc_bit_cases del: push_bit_Suc)
qed

lemma crc_bits_push: "k \<le> 24 \<Longrightarrow> (crc_bit ^^ k) (push_bit k (ucast (x :: u8))) = ucast x"
proof (induction k)
  case (Suc k)
  then show ?case by (simp add: funpow_swap1 crc_bit_push del: push_bit_Suc)
qed simp

lemma crc_block:
  "length bs \<le> 4 \<Longrightarrow> foldl crc_byte c bs = (crc_bit ^^ (8 * length bs)) (c XOR le_word bs)"
proof (induction bs rule: rev_induct)
  case (snoc x bs)
  then have len: "8 * length bs \<le> 24" by simp
  have disj: "le_word (bs @ [x]) = (le_word bs XOR push_bit (8 * length bs) (ucast x) :: u32)"
    by (rule bit_word_eqI) (auto simp: le_word_snoc bit_or_iff bit_xor_iff bit_le_word bit_push_bit_iff)
  have "foldl crc_byte c (bs @ [x]) = (crc_bit ^^ 8) ((crc_bit ^^ (8 * length bs)) (c XOR le_word bs) XOR ucast x)"
    using snoc by (simp add: crc_byte_def [of _ x])
  also have "\<dots> = (crc_bit ^^ 8) ((crc_bit ^^ (8 * length bs)) (c XOR le_word bs XOR push_bit (8 * length bs) (ucast x)))"
    by (simp add: crc_bits_xor crc_bits_push [OF len] xor.assoc)
  finally show ?case by (simp add: disj funpow_add xor.assoc)
qed (simp add: le_word_def)

lemma le_word_inj:
  assumes "length xs = length ys" "length xs \<le> 4" "le_word xs = (le_word ys :: u32)"
  shows "xs = ys"
proof (rule nth_equalityI)
  fix i assume i: "i < length xs"
  show "xs ! i = ys ! i"
  proof (rule bit_word_eqI)
    fix j :: nat assume j: "j < LENGTH(8)"
    then have "bit (le_word xs :: u32) (8 * i + j) \<longleftrightarrow> bit (xs ! i) j"
      and "bit (le_word ys :: u32) (8 * i + j) \<longleftrightarrow> bit (ys ! i) j"
      using i assms(1,2) by (simp_all add: bit_le_word)
    with assms(3) show "bit (xs ! i) j = bit (ys ! i) j" by simp
  qed
qed (rule assms(1))

lemma crc_foldl_inj: "foldl crc_byte c bs = foldl crc_byte c' bs \<longleftrightarrow> c = c'"
  by (induction bs arbitrary: c c') (simp_all add: crc_byte_def crc_bits_inj)

text \<open>Two messages of one length that differ only inside a window of four bytes leave different registers.\<close>

lemma crc_burst:
  assumes "length xs = length ys" "length xs \<le> 4"
  shows "foldl crc_byte c (pre @ xs @ post) = foldl crc_byte c (pre @ ys @ post) \<longleftrightarrow> xs = ys"
  using assms le_word_inj [OF assms]
  by (auto simp: crc_foldl_inj crc_block crc_bits_inj)

text \<open>A message followed by its own checksum leaves a register that does not depend on the message.\<close>

definition crc_residue :: u32 where
  "crc_residue = (crc_bit ^^ 32) 0xFFFFFFFF"

lemma crc_trailer:
  assumes "length t = 4"
  shows "le_word t = crc32 m \<longleftrightarrow> foldl crc_byte 0xFFFFFFFF (m @ t) = crc_residue"
proof -
  let ?r = "foldl crc_byte 0xFFFFFFFF m"
  have "foldl crc_byte 0xFFFFFFFF (m @ t) = (crc_bit ^^ 32) (?r XOR le_word t)"
    using assms by (simp add: crc_block)
  then have "foldl crc_byte 0xFFFFFFFF (m @ t) = crc_residue \<longleftrightarrow> (?r XOR le_word t) = 0xFFFFFFFF"
    by (simp only: crc_residue_def crc_bits_inj)
  also have "\<dots> \<longleftrightarrow> le_word t = (?r XOR 0xFFFFFFFF)"
    using xor_cancel(1) [of ?r "le_word t" "?r XOR 0xFFFFFFFF"] by (simp only: xor.assoc [symmetric] xor_self_eq xor.left_neutral)
  finally show ?thesis by (simp only: crc32_def)
qed

text \<open>So a checked buffer does not stay valid when at most four consecutive bytes of it change.\<close>

definition crc_valid :: "u8 list \<Rightarrow> bool" where
  "crc_valid b \<longleftrightarrow> 4 \<le> length b \<and> le_word (drop (length b - 4) b) = crc32 (take (length b - 4) b)"

lemma crc_valid_iff: "crc_valid b \<longleftrightarrow> 4 \<le> length b \<and> foldl crc_byte 0xFFFFFFFF b = crc_residue"
  using crc_trailer [of "drop (length b - 4) b" "take (length b - 4) b"] by (auto simp: crc_valid_def)

lemma crc_detects:
  assumes "crc_valid (pre @ xs @ post)" "length xs = length ys" "length xs \<le> 4" "xs \<noteq> ys"
  shows "\<not> crc_valid (pre @ ys @ post)"
  using assms crc_burst [OF assms(2,3), of "0xFFFFFFFF" pre post] by (auto simp: crc_valid_iff)

end
