(* ===== verification/Gms_Allocation.thy ===== *)
theory Gms_Allocation
  imports Gms_Types Gms_Enums
begin

text \<open>
  \<^verbatim>\<open>include/gpu_memory_service/allocation.hpp\<close> and \<^verbatim>\<open>src/allocation.cpp\<close>: the allocation request, the
  authoritative allocation record and the validation of a request.
\<close>

record AllocationRequest =
  req_bytes :: u64
  req_min_bytes :: u64
  req_alignment :: u64
  req_contiguous :: bool
  req_mem_class :: MemoryClass
  req_reclaimability :: Reclaimability
  req_movability :: Movability
  req_requires_pin :: bool
  req_owner :: string
  req_worker :: WorkerId
  req_worker_boot :: WorkerBootId
  req_source_boot :: SourceBootId
  req_workload :: WorkloadId
  req_execution :: ExecutionId
  req_reservation_gen :: ReservationGeneration
  req_resource_claim_gen :: ResourceClaimGeneration
  req_placement_gen :: PlacementGeneration
  req_policy_gen :: PolicyGeneration
  req_backing_ref :: string
  req_provenance :: Provenance

definition AllocationRequest_default :: AllocationRequest where
  "AllocationRequest_default =
    \<lparr>req_bytes = 0, req_min_bytes = 0, req_alignment = 1, req_contiguous = True,
     req_mem_class = MemoryClass.UNKNOWN, req_reclaimability = Reclaimability.UNKNOWN,
     req_movability = Movability.MOVABLE, req_requires_pin = False, req_owner = '''',
     req_worker = TypedId 0, req_worker_boot = TypedGeneration 0, req_source_boot = TypedGeneration 0,
     req_workload = TypedId 0, req_execution = TypedId 0, req_reservation_gen = gen_none,
     req_resource_claim_gen = gen_none, req_placement_gen = gen_none, req_policy_gen = gen_none,
     req_backing_ref = '''', req_provenance = Provenance.DERIVED\<rparr>"

record AllocationRecord =
  rec_id :: AllocationId
  rec_generation :: AllocationGeneration
  rec_requested_bytes :: u64
  rec_region_size :: u64
  rec_offset :: u64
  rec_alignment :: u64
  rec_region_id :: MemoryRegionId
  rec_region_generation :: MemoryRegionGeneration
  rec_mem_class :: MemoryClass
  rec_reclaimability :: Reclaimability
  rec_movability :: Movability
  rec_pin_count :: u32
  rec_residency :: ResidencyState
  rec_lifecycle :: LifecycleState
  rec_owner :: string
  rec_worker :: WorkerId
  rec_worker_boot :: WorkerBootId
  rec_source_boot :: SourceBootId
  rec_workload :: WorkloadId
  rec_execution :: ExecutionId
  rec_relocation_generation :: RelocationGeneration
  rec_reservation_gen :: ReservationGeneration
  rec_resource_claim_gen :: ResourceClaimGeneration
  rec_placement_gen :: PlacementGeneration
  rec_policy_gen :: PolicyGeneration
  rec_backing_ref :: string
  rec_provenance :: Provenance
  rec_recoverable :: bool

text \<open>
  The two branches of the source with an empty body (on \<open>NONMOVABLE\<close> and on an \<open>UNKNOWN\<close> class) fall
  through and have no counterpart.
\<close>

definition validate_request :: "AllocationRequest \<Rightarrow> u64 \<Rightarrow> Failure" where
  "validate_request req governed_capacity =
    (if req_bytes req = 0 then Failure RejectReason.ZERO_BYTES ''zero-byte request''
     else if req_bytes req > governed_capacity then
       Failure RejectReason.REQUEST_EXCEEDS_CAPACITY ''request exceeds governed capacity''
     else if req_alignment req = 0 \<or> \<not> is_pow2 (req_alignment req) then
       Failure (if req_alignment req = 0 then RejectReason.IMPOSSIBLE_ALIGNMENT
                else RejectReason.NON_POWER_OF_TWO_ALIGNMENT) ''invalid alignment''
     else if req_min_bytes req > req_bytes req then
       Failure RejectReason.MALFORMED_LIFETIME ''min_bytes exceeds requested bytes''
     else if req_requires_pin req \<and> req_movability req = Movability.MOVABLE \<and>
             req_reclaimability req = Reclaimability.NEVER_RECLAIM then
       Failure RejectReason.CONTRADICTORY_MOVABILITY
         ''pinned and never-reclaim is not contradictory but pins are non-movable''
     else Failure RejectReason.NONE '''')"

lemma validate_request_ok:
  "Failure_ok (validate_request req cap) \<longleftrightarrow>
     req_bytes req \<noteq> 0 \<and> req_bytes req \<le> cap \<and> is_pow2 (req_alignment req) \<and> req_min_bytes req \<le> req_bytes req \<and>
     \<not> (req_requires_pin req \<and> req_movability req = Movability.MOVABLE \<and> req_reclaimability req = Reclaimability.NEVER_RECLAIM)"
  by (auto simp: validate_request_def Failure_ok_def is_pow2_def not_less)

end
