(* ===== verification/Gms_Pressure.thy ===== *)
theory Gms_Pressure
  imports Gms_Types Gms_Enums Gms_Double
begin

text \<open>
  \<^verbatim>\<open>include/gpu_memory_service/memory_domain.hpp\<close>, \<^verbatim>\<open>include/gpu_memory_service/pressure.hpp\<close> and
  \<^verbatim>\<open>src/pressure.cpp\<close>: the memory domain with its watermarks, and the classification of pressure
  with hysteresis.  \<open>double\<close> is the bit-level model of \<open>Gms_Double\<close>.
\<close>

record WatermarkConfig =
  wm_low :: double
  wm_high :: double
  wm_critical :: double
  wm_generation :: WatermarkGeneration

definition wm_valid :: "WatermarkConfig \<Rightarrow> bool" where
  "wm_valid wm \<longleftrightarrow>
     \<not> is_nan (wm_low wm) \<and> \<not> is_nan (wm_high wm) \<and> \<not> is_nan (wm_critical wm) \<and>
     \<not> is_inf (wm_low wm) \<and> \<not> is_inf (wm_high wm) \<and> \<not> is_inf (wm_critical wm) \<and>
     d_le (d_lit 0 1) (wm_low wm) \<and> d_le (wm_low wm) (d_lit 1 1) \<and>
     d_le (wm_low wm) (wm_high wm) \<and> d_le (wm_high wm) (d_lit 1 1) \<and>
     d_le (wm_high wm) (wm_critical wm) \<and> d_le (wm_critical wm) (d_lit 1 1)"

definition WatermarkConfig_default :: WatermarkConfig where
  "WatermarkConfig_default = \<lparr>wm_low = d_lit 70 100, wm_high = d_lit 90 100, wm_critical = d_lit 97 100,
     wm_generation = gen_first\<rparr>"

record MemoryDomain =
  dom_domain_id :: GpuMemoryDomainId
  dom_domain_generation :: GpuMemoryDomainGeneration
  dom_device_id :: DeviceId
  dom_device_generation :: DeviceGeneration
  dom_total_capacity :: u64
  dom_allocator_visible_capacity :: u64
  dom_reserved_headroom :: u64
  dom_managed_capacity :: u64
  dom_current_committed :: u64
  dom_current_physically_allocated :: u64
  dom_current_resident :: u64
  dom_current_reclaimable :: u64
  dom_current_movable :: u64
  dom_current_pinned :: u64
  dom_external_fragmentation :: double
  dom_pressure :: PressureState
  dom_health :: DeviceHealth
  dom_watermarks :: WatermarkConfig
  dom_provenance :: Provenance

definition classify_pressure :: "double \<Rightarrow> WatermarkConfig \<Rightarrow> PressureState \<Rightarrow> PressureState" where
  "classify_pressure utilization wm prior =
    (if prior = PressureState.HIGH \<or> prior = PressureState.CRITICAL \<or> prior = PressureState.RECLAIMING then
       if d_less utilization (wm_low wm) then
         if d_less utilization (d_mul (wm_low wm) (d_lit 1 2)) then PressureState.LOW else PressureState.NORMAL
       else if d_le (wm_critical wm) utilization then PressureState.CRITICAL
       else if d_le (wm_high wm) utilization then PressureState.HIGH
       else PressureState.HIGH
     else if d_le (wm_critical wm) utilization then PressureState.CRITICAL
     else if d_le (wm_high wm) utilization then PressureState.HIGH
     else if d_le (wm_low wm) utilization then PressureState.NORMAL
     else if d_less utilization (d_mul (wm_low wm) (d_lit 1 2)) then PressureState.LOW else PressureState.NORMAL)"

record PressureEvidence =
  ev_managed_capacity :: u64
  ev_committed :: u64
  ev_free :: u64
  ev_reclaimable :: u64
  ev_largest_free :: u64
  ev_fragmentation :: double
  ev_watermarks :: WatermarkConfig

definition evaluate_pressure :: "PressureEvidence \<Rightarrow> PressureState \<Rightarrow> PressureState" where
  "evaluate_pressure ev prior =
    (if ev_managed_capacity ev = 0 then PressureState.UNKNOWN
     else classify_pressure (d_div (d_of_u64 (ev_committed ev)) (d_of_u64 (ev_managed_capacity ev)))
            (ev_watermarks ev) prior)"

section \<open>Order of doubles\<close>

lemma d_less_le_trans: "d_less a b \<Longrightarrow> d_le b c \<Longrightarrow> d_less a c"
  by (auto simp: d_less_def d_le_def)

lemma d_le_less_trans: "d_le a b \<Longrightarrow> d_less b c \<Longrightarrow> d_less a c"
  by (auto simp: d_less_def d_le_def)

lemma d_le_trans: "d_le a b \<Longrightarrow> d_le b c \<Longrightarrow> d_le a c"
  by (auto simp: d_le_def)

lemma d_less_not_le: "d_less a b \<Longrightarrow> \<not> d_le b a"
  by (auto simp: d_less_def d_le_def)

lemma d_not_le_less: "\<not> is_nan a \<Longrightarrow> \<not> is_nan b \<Longrightarrow> \<not> d_le b a \<Longrightarrow> d_less a b"
  by (auto simp: d_less_def d_le_def)

lemma wm_ordered:
  assumes "wm_valid wm"
  shows "d_le (wm_low wm) (wm_high wm)" "d_le (wm_high wm) (wm_critical wm)" "d_le (wm_low wm) (wm_critical wm)"
    "\<not> is_nan (wm_low wm)" "\<not> is_nan (wm_high wm)" "\<not> is_nan (wm_critical wm)"
  using assms d_le_trans by (auto simp: wm_valid_def)

section \<open>Properties\<close>

fun raised :: "PressureState \<Rightarrow> bool" where
  "raised p \<longleftrightarrow> p = PressureState.HIGH \<or> p = PressureState.CRITICAL \<or> p = PressureState.RECLAIMING"

text \<open>The rank of the four states that classification produces.\<close>

definition level :: "PressureState \<Rightarrow> nat" where
  "level p = (if p = PressureState.LOW then 0 else if p = PressureState.NORMAL then 1
     else if p = PressureState.HIGH then 2 else 3)"

text \<open>Classification as a function of the outcomes of its comparisons.\<close>

definition verdict :: "bool \<Rightarrow> bool \<Rightarrow> bool \<Rightarrow> bool \<Rightarrow> bool \<Rightarrow> bool \<Rightarrow> PressureState" where
  "verdict up below half crit high low =
    (if up then if below then if half then PressureState.LOW else PressureState.NORMAL
       else if crit then PressureState.CRITICAL else PressureState.HIGH
     else if crit then PressureState.CRITICAL else if high then PressureState.HIGH
     else if low then PressureState.NORMAL else if half then PressureState.LOW else PressureState.NORMAL)"

lemma classify_verdict:
  "classify_pressure u wm prior = verdict (raised prior) (d_less u (wm_low wm))
     (d_less u (d_mul (wm_low wm) (d_lit 1 2))) (d_le (wm_critical wm) u) (d_le (wm_high wm) u) (d_le (wm_low wm) u)"
  by (simp only: classify_pressure_def verdict_def raised.simps if_cancel)

lemma raised_verdict: "raised (verdict up below half crit high low) \<longleftrightarrow> (if up then \<not> below else crit \<or> high)"
  by (simp add: verdict_def)

lemma verdict_stable:
  "(below \<longrightarrow> \<not> low \<and> \<not> high \<and> \<not> crit) \<Longrightarrow>
   verdict (raised (verdict up below half crit high low)) below half crit high low = verdict up below half crit high low"
  unfolding raised_verdict by (cases up; cases below; cases crit; cases high) (simp_all add: verdict_def)

lemma verdict_mono:
  assumes "below' \<longrightarrow> below" "half' \<longrightarrow> half" "crit \<longrightarrow> crit'" "high \<longrightarrow> high'" "low \<longrightarrow> low'"
    "below' \<longrightarrow> \<not> low' \<and> \<not> high' \<and> \<not> crit'" "below \<longrightarrow> \<not> low \<and> \<not> high \<and> \<not> crit"
  shows "level (verdict up below half crit high low) \<le> level (verdict up below' half' crit' high' low')"
  using assms by (cases up; cases below; cases below'; cases crit; cases crit'; cases high; cases high'; cases low')
    (simp_all add: verdict_def level_def)

lemma below_low:
  "wm_valid wm \<Longrightarrow> d_less u (wm_low wm) \<longrightarrow> \<not> d_le (wm_low wm) u \<and> \<not> d_le (wm_high wm) u \<and> \<not> d_le (wm_critical wm) u"
  using wm_ordered by (meson d_less_le_trans d_less_not_le)

text \<open>
  C9.  Hysteresis, for valid watermarks (\<open>WatermarkConfig::valid\<close>): once pressure is raised, classification goes back to \<open>LOW\<close> or \<open>NORMAL\<close> exactly when
  utilization is below the low watermark; and repeating the classification with the same evidence never
  changes the verdict, so a constant load cannot make it oscillate.
\<close>

theorem pressure_hysteresis:
  assumes "wm_valid wm"
  shows "(raised prior \<longrightarrow> (\<not> raised (classify_pressure u wm prior) \<longleftrightarrow> d_less u (wm_low wm))) \<and>
    classify_pressure u wm (classify_pressure u wm prior) = classify_pressure u wm prior"
  using verdict_stable [OF below_low [OF assms]] unfolding classify_verdict by (simp add: raised_verdict del: raised.simps)

text \<open>Watermarks 0.5, 0.75 and 0.875 for the witnesses.\<close>

definition demo_watermarks :: WatermarkConfig where
  "demo_watermarks = \<lparr>wm_low = Double 0x3FE0000000000000, wm_high = Double 0x3FE8000000000000,
     wm_critical = Double 0x3FEC000000000000, wm_generation = gen_first\<rparr>"

lemma demo_valid: "wm_valid demo_watermarks"
  by (simp add: wm_valid_def demo_watermarks_def d_lit_0 d_lit_1 is_nan_def is_inf_def d_exp_def d_man_def d_le_def
      d_val_def d_sign_def d_mag_def mag_of_bits_def)

theorem pressure_hysteresis_witness:
  "classify_pressure (Double 0x3FE4000000000000) demo_watermarks PressureState.HIGH = PressureState.HIGH"
proof -
  have "\<not> d_less (Double 0x3FE4000000000000) (wm_low demo_watermarks)"
    "\<not> d_le (wm_critical demo_watermarks) (Double 0x3FE4000000000000)"
    by (simp_all add: demo_watermarks_def is_nan_def d_exp_def d_man_def d_less_def d_le_def
      d_val_def d_sign_def d_mag_def mag_of_bits_def)
  with pressure_hysteresis [OF demo_valid, of PressureState.HIGH "Double 0x3FE4000000000000"]
  show ?thesis by (simp add: classify_pressure_def)
qed

text \<open>
  C10.  Classification is monotone: for the same valid watermarks and the same previous state, more
  utilization never gives a lower level of pressure.
\<close>

theorem pressure_monotone:
  assumes "wm_valid wm" "d_le u v"
  shows "level (classify_pressure u wm prior) \<le> level (classify_pressure v wm prior)"
proof -
  have t: "d_less v x \<longrightarrow> d_less u x" "d_le x u \<longrightarrow> d_le x v" for x
    using assms(2) by (blast intro: d_le_less_trans d_le_trans)+
  show ?thesis unfolding classify_verdict by (intro verdict_mono t below_low assms(1))
qed

theorem pressure_monotone_witness:
  "level (classify_pressure (Double 0x3FE4000000000000) demo_watermarks PressureState.NORMAL) \<le>
   level (classify_pressure (Double 0x3FF0000000000000) demo_watermarks PressureState.NORMAL)"
proof (rule pressure_monotone [OF demo_valid])
  show "d_le (Double 0x3FE4000000000000) (Double 0x3FF0000000000000)"
    by (simp add: is_nan_def d_exp_def d_man_def d_le_def d_val_def d_sign_def d_mag_def mag_of_bits_def)
qed

text \<open>
  C11.  The extremes, for valid watermarks: without managed capacity the verdict is \<open>UNKNOWN\<close> (and only then), and with all of
  the capacity committed it is \<open>CRITICAL\<close>, whatever the previous state.
\<close>

theorem pressure_extremes:
  assumes "wm_valid (ev_watermarks ev)"
  shows "(evaluate_pressure ev prior = PressureState.UNKNOWN \<longleftrightarrow> ev_managed_capacity ev = 0) \<and>
    (ev_managed_capacity ev \<noteq> 0 \<and> ev_committed ev = ev_managed_capacity ev \<longrightarrow>
       evaluate_pressure ev prior = PressureState.CRITICAL)"
proof -
  let ?wm = "ev_watermarks ev" and ?c = "ev_managed_capacity ev"
  have "verdict up below half crit high low \<noteq> PressureState.UNKNOWN" for up below half crit high low
    by (simp add: verdict_def)
  then have "evaluate_pressure ev prior = PressureState.UNKNOWN \<longleftrightarrow> ?c = 0"
    by (simp add: evaluate_pressure_def classify_verdict)
  moreover have "evaluate_pressure ev prior = PressureState.CRITICAL" if "?c \<noteq> 0" "ev_committed ev = ?c"
  proof -
    have "d_div (d_of_u64 ?c) (d_of_u64 ?c) = d_lit 1 1"
      using d_div_self [OF d_of_u64_pos(1,2,4) [OF that(1)]] by (simp add: d_lit_1)
    moreover have "d_le (wm_critical ?wm) (d_lit 1 1)" using assms by (simp add: wm_valid_def)
    moreover from this have "\<not> d_less (d_lit 1 1) (wm_low ?wm)" using below_low [OF assms] by blast
    ultimately show ?thesis using that by (simp add: evaluate_pressure_def classify_verdict verdict_def)
  qed
  ultimately show ?thesis by blast
qed

theorem pressure_extremes_witness:
  "evaluate_pressure \<lparr>ev_managed_capacity = 1000, ev_committed = 1000, ev_free = 0, ev_reclaimable = 0,
     ev_largest_free = 0, ev_fragmentation = Double 0, ev_watermarks = demo_watermarks\<rparr> PressureState.LOW = PressureState.CRITICAL"
  using pressure_extremes [of "\<lparr>ev_managed_capacity = 1000, ev_committed = 1000, ev_free = 0, ev_reclaimable = 0,
     ev_largest_free = 0, ev_fragmentation = Double 0, ev_watermarks = demo_watermarks\<rparr>" PressureState.LOW] demo_valid
  by simp

end
