(* ===== verification/Gms_Persist.thy ===== *)
theory Gms_Persist
  imports Gms_Codec Gms_Containers Gms_Allocation Gms_Pressure "HOL-Library.Product_Lexorder"
begin

text \<open>
  \<^verbatim>\<open>include/gpu_memory_service/persistence.hpp\<close> and \<^verbatim>\<open>src/persistence.cpp\<close>: the durable snapshot,
  its encoding, the decoder with its structural validation, and the file helpers.  The
  \<open>Writer\<close> methods are the bytes they append, the \<open>Reader\<close> methods readers in the sense of
  \<open>Gms_Codec\<close>.
\<close>

section \<open>Writer and Reader\<close>

definition persist_crc32 :: "u8 list \<Rightarrow> u32" where
  "persist_crc32 data =
     foldl (\<lambda>crc x. ((\<lambda>c. drop_bit 1 c XOR (0xEDB88320 AND (0 - (c AND 1)))) ^^ 8) (crc XOR ucast x))
       0xFFFFFFFF data XOR 0xFFFFFFFF"

definition w_u8 :: "u8 \<Rightarrow> u8 list" where
  "w_u8 v = [v]"

definition w_u32 :: "u32 \<Rightarrow> u8 list" where
  "w_u32 v = map (\<lambda>i. ucast (drop_bit (8 * i) v AND 0xFF)) [0..<4]"

definition w_u64 :: "u64 \<Rightarrow> u8 list" where
  "w_u64 v = map (\<lambda>i. ucast (drop_bit (8 * i) v AND 0xFF)) [0..<8]"

definition w_str :: "string \<Rightarrow> u8 list" where
  "w_str s = w_u32 (of_nat (length s)) @ map char_byte s"

definition r_u8 :: "u8 list \<Rightarrow> u8 rd" where
  "r_u8 b = (if length b < 1 then Short else Got (hd b) (tl b))"

definition r_u32 :: "u8 list \<Rightarrow> u32 rd" where
  "r_u32 b = (if length b < 4 then Short else Got (le_word (take 4 b)) (drop 4 b))"

definition r_u64 :: "u8 list \<Rightarrow> u64 rd" where
  "r_u64 b = (if length b < 8 then Short else Got (le_word (take 8 b)) (drop 8 b))"

text \<open>
  Unlike \<open>take_str\<close>, \<open>Reader::str\<close> forms \<open>&b_[pos_]\<close>, which at the end of the buffer indexes past the
  vector, for an empty string too.
\<close>

definition r_str :: "u8 list \<Rightarrow> string rd" where
  "r_str b = (case r_u32 b of
     Got n b' \<Rightarrow> if n > push_bit 20 1 then Short else if length b' < unat n then Short
                 else if b' = [] then Wild
                 else Got (map byte_char (take (unat n) b')) (drop (unat n) b')
   | Short \<Rightarrow> Short | Wild \<Rightarrow> Wild)"

section \<open>Records and domains\<close>

definition write_record :: "AllocationRecord \<Rightarrow> u8 list" where
  "write_record r =
     w_u64 (id_value (rec_id r)) @
     w_u64 (gen_value (rec_generation r)) @
     w_u64 (rec_requested_bytes r) @
     w_u64 (rec_region_size r) @
     w_u64 (rec_offset r) @
     w_u64 (rec_alignment r) @
     w_u64 (id_value (rec_region_id r)) @
     w_u64 (gen_value (rec_region_generation r)) @
     w_u8 (MemoryClass_code (rec_mem_class r)) @
     w_u8 (Reclaimability_code (rec_reclaimability r)) @
     w_u8 (Movability_code (rec_movability r)) @
     w_u32 (rec_pin_count r) @
     w_u8 (ResidencyState_code (rec_residency r)) @
     w_u8 (LifecycleState_code (rec_lifecycle r)) @
     w_str (rec_owner r) @
     w_u64 (id_value (rec_worker r)) @
     w_u64 (gen_value (rec_worker_boot r)) @
     w_u64 (gen_value (rec_source_boot r)) @
     w_u64 (id_value (rec_workload r)) @
     w_u64 (id_value (rec_execution r)) @
     w_u64 (gen_value (rec_relocation_generation r)) @
     w_u64 (gen_value (rec_reservation_gen r)) @
     w_u64 (gen_value (rec_resource_claim_gen r)) @
     w_u64 (gen_value (rec_placement_gen r)) @
     w_u64 (gen_value (rec_policy_gen r)) @
     w_str (rec_backing_ref r) @
     w_u8 (Provenance_code (rec_provenance r)) @
     w_u8 (if rec_recoverable r then 1 else 0)"

definition read_record :: "u8 list \<Rightarrow> AllocationRecord rd" where
  "read_record =
     rd_bind r_u64 (\<lambda>id'.
     rd_bind r_u64 (\<lambda>generation'.
     rd_bind r_u64 (\<lambda>requested_bytes'.
     rd_bind r_u64 (\<lambda>region_size'.
     rd_bind r_u64 (\<lambda>offset'.
     rd_bind r_u64 (\<lambda>alignment'.
     rd_bind r_u64 (\<lambda>region_id'.
     rd_bind r_u64 (\<lambda>region_generation'.
     rd_bind r_u8 (\<lambda>mem_class'.
     rd_bind r_u8 (\<lambda>reclaimability'.
     rd_bind r_u8 (\<lambda>movability'.
     rd_bind r_u32 (\<lambda>pin_count'.
     rd_bind r_u8 (\<lambda>residency'.
     rd_bind r_u8 (\<lambda>lifecycle'.
     rd_bind r_str (\<lambda>owner'.
     rd_bind r_u64 (\<lambda>worker'.
     rd_bind r_u64 (\<lambda>worker_boot'.
     rd_bind r_u64 (\<lambda>source_boot'.
     rd_bind r_u64 (\<lambda>workload'.
     rd_bind r_u64 (\<lambda>execution'.
     rd_bind r_u64 (\<lambda>relocation_generation'.
     rd_bind r_u64 (\<lambda>reservation_gen'.
     rd_bind r_u64 (\<lambda>resource_claim_gen'.
     rd_bind r_u64 (\<lambda>placement_gen'.
     rd_bind r_u64 (\<lambda>policy_gen'.
     rd_bind r_str (\<lambda>backing_ref'.
     rd_bind r_u8 (\<lambda>provenance'.
     rd_bind r_u8 (\<lambda>recoverable'.
       rd_return \<lparr>rec_id = TypedId id',
         rec_generation = TypedGeneration generation',
         rec_requested_bytes = requested_bytes',
         rec_region_size = region_size',
         rec_offset = offset',
         rec_alignment = alignment',
         rec_region_id = TypedId region_id',
         rec_region_generation = TypedGeneration region_generation',
         rec_mem_class = MemoryClass_of_code mem_class',
         rec_reclaimability = Reclaimability_of_code reclaimability',
         rec_movability = Movability_of_code movability',
         rec_pin_count = pin_count',
         rec_residency = ResidencyState_of_code residency',
         rec_lifecycle = LifecycleState_of_code lifecycle',
         rec_owner = owner',
         rec_worker = TypedId worker',
         rec_worker_boot = TypedGeneration worker_boot',
         rec_source_boot = TypedGeneration source_boot',
         rec_workload = TypedId workload',
         rec_execution = TypedId execution',
         rec_relocation_generation = TypedGeneration relocation_generation',
         rec_reservation_gen = TypedGeneration reservation_gen',
         rec_resource_claim_gen = TypedGeneration resource_claim_gen',
         rec_placement_gen = TypedGeneration placement_gen',
         rec_policy_gen = TypedGeneration policy_gen',
         rec_backing_ref = backing_ref',
         rec_provenance = Provenance_of_code provenance',
         rec_recoverable = (recoverable' = 1)\<rparr>))))))))))))))))))))))))))))"

definition write_domain :: "MemoryDomain \<Rightarrow> u8 list" where
  "write_domain d =
     w_u64 (id_value (dom_domain_id d)) @
     w_u64 (gen_value (dom_domain_generation d)) @
     w_u64 (id_value (dom_device_id d)) @
     w_u64 (gen_value (dom_device_generation d)) @
     w_u64 (dom_total_capacity d) @
     w_u64 (dom_allocator_visible_capacity d) @
     w_u64 (dom_reserved_headroom d) @
     w_u64 (dom_managed_capacity d) @
     w_u64 (dom_current_committed d) @
     w_u64 (dom_current_physically_allocated d) @
     w_u64 (dom_current_resident d) @
     w_u64 (dom_current_reclaimable d) @
     w_u64 (dom_current_movable d) @
     w_u64 (dom_current_pinned d) @
     w_u64 (bits (dom_external_fragmentation d)) @
     w_u8 (PressureState_code (dom_pressure d)) @
     w_u8 (DeviceHealth_code (dom_health d)) @
     w_u8 (Provenance_code (dom_provenance d)) @
     w_u64 (gen_value (wm_generation (dom_watermarks d))) @
     w_u64 (bits (wm_low (dom_watermarks d))) @ w_u64 (bits (wm_high (dom_watermarks d))) @ w_u64 (bits (wm_critical (dom_watermarks d)))"

definition read_domain :: "u8 list \<Rightarrow> MemoryDomain rd" where
  "read_domain =
     rd_bind r_u64 (\<lambda>domain_id'.
     rd_bind r_u64 (\<lambda>domain_generation'.
     rd_bind r_u64 (\<lambda>device_id'.
     rd_bind r_u64 (\<lambda>device_generation'.
     rd_bind r_u64 (\<lambda>total_capacity'.
     rd_bind r_u64 (\<lambda>allocator_visible_capacity'.
     rd_bind r_u64 (\<lambda>reserved_headroom'.
     rd_bind r_u64 (\<lambda>managed_capacity'.
     rd_bind r_u64 (\<lambda>current_committed'.
     rd_bind r_u64 (\<lambda>current_physically_allocated'.
     rd_bind r_u64 (\<lambda>current_resident'.
     rd_bind r_u64 (\<lambda>current_reclaimable'.
     rd_bind r_u64 (\<lambda>current_movable'.
     rd_bind r_u64 (\<lambda>current_pinned'.
     rd_bind r_u64 (\<lambda>external_fragmentation'.
     rd_bind r_u8 (\<lambda>pressure'.
     rd_bind r_u8 (\<lambda>health'.
     rd_bind r_u8 (\<lambda>provenance'.
     rd_bind r_u64 (\<lambda>g. rd_bind r_u64 (\<lambda>l. rd_bind r_u64 (\<lambda>h. rd_bind r_u64 (\<lambda>c.
       rd_return \<lparr>dom_domain_id = TypedId domain_id',
         dom_domain_generation = TypedGeneration domain_generation',
         dom_device_id = TypedId device_id',
         dom_device_generation = TypedGeneration device_generation',
         dom_total_capacity = total_capacity',
         dom_allocator_visible_capacity = allocator_visible_capacity',
         dom_reserved_headroom = reserved_headroom',
         dom_managed_capacity = managed_capacity',
         dom_current_committed = current_committed',
         dom_current_physically_allocated = current_physically_allocated',
         dom_current_resident = current_resident',
         dom_current_reclaimable = current_reclaimable',
         dom_current_movable = current_movable',
         dom_current_pinned = current_pinned',
         dom_external_fragmentation = Double external_fragmentation',
         dom_pressure = PressureState_of_code pressure',
         dom_health = DeviceHealth_of_code health',
         dom_watermarks = \<lparr>wm_low = Double l, wm_high = Double h, wm_critical = Double c, wm_generation = TypedGeneration g\<rparr>,
         dom_provenance = Provenance_of_code provenance'\<rparr>))))))))))))))))))))))"


definition enum_ok :: "('e \<Rightarrow> u8) \<Rightarrow> 'e \<Rightarrow> u8 \<Rightarrow> bool" where
  "enum_ok code e mx \<longleftrightarrow> code e \<le> mx"

definition validate_record :: "AllocationRecord \<Rightarrow> u64 \<Rightarrow> bool" where
  "validate_record r managed =
    (if rec_requested_bytes r = 0 then False
     else if rec_alignment r = 0 \<or> rec_alignment r AND (rec_alignment r - 1) \<noteq> 0 then False
     else if rec_region_size r < rec_requested_bytes r then False
     else if rec_offset r > managed \<or> rec_region_size r > managed - rec_offset r then False
     else if rec_offset r mod rec_alignment r \<noteq> 0 then False
     else if \<not> enum_ok MemoryClass_code (rec_mem_class r) (MemoryClass_code MemoryClass.INTERNAL) then False
     else if \<not> enum_ok Reclaimability_code (rec_reclaimability r) (Reclaimability_code Reclaimability.BEST_EFFORT) then False
     else if \<not> enum_ok Movability_code (rec_movability r) (Movability_code Movability.NONMOVABLE) then False
     else if \<not> enum_ok ResidencyState_code (rec_residency r) (ResidencyState_code ResidencyState.REVALIDATION_REQUIRED) then False
     else if \<not> enum_ok LifecycleState_code (rec_lifecycle r) (LifecycleState_code LifecycleState.RETIRED) then False
     else if \<not> enum_ok Provenance_code (rec_provenance r) (Provenance_code Provenance.RECONSTRUCTED) then False
     else if gen_value (rec_generation r) = 0 then False
     else True)"

section \<open>Snapshots\<close>

definition persist_kMagic :: u32 where
  "persist_kMagic = 0x47534d53"

definition persist_kVersion :: u32 where
  "persist_kVersion = 1"

definition kMaxRecords :: u32 where
  "kMaxRecords = push_bit 20 1"

record PersistSnapshot =
  ps_magic :: u32
  ps_version :: u32
  ps_domain :: MemoryDomain
  ps_records :: "AllocationRecord list"
  ps_retired :: "AllocationRecord list"
  ps_next_alloc_id :: u64
  ps_history_count :: u64

text \<open>The checksum is that of the buffer written so far.\<close>

definition persist_body :: "PersistSnapshot \<Rightarrow> u8 list" where
  "persist_body s =
     w_u32 persist_kMagic @ w_u32 persist_kVersion @
     write_domain (ps_domain s) @
     w_u32 (of_nat (length (ps_records s))) @
     concat (map write_record (ps_records s)) @
     w_u32 (of_nat (length (ps_retired s))) @
     concat (map write_record (ps_retired s)) @
     w_u64 (ps_next_alloc_id s) @ w_u64 (ps_history_count s)"

definition persist_encode :: "PersistSnapshot \<Rightarrow> u8 list" where
  "persist_encode s = (let buf = persist_body s in buf @ w_u32 (persist_crc32 buf))"

text \<open>A read that must succeed, with the failure that reports it.\<close>

definition persist_fail :: "string \<Rightarrow> 'a result" where
  "persist_fail msg = Err (Failure RejectReason.INTERNAL_ERROR msg)"

definition expect :: "string \<Rightarrow> 'a rd \<Rightarrow> ('a \<Rightarrow> u8 list \<Rightarrow> 'b result) \<Rightarrow> 'b result" where
  "expect msg r k = (case r of Got a b \<Rightarrow> k a b | Short \<Rightarrow> persist_fail msg | Wild \<Rightarrow> Fault)"

text \<open>The two validation loops, over \<open>seen\<close> and \<open>sum_live\<close>.\<close>

fun check_live :: "u64 \<Rightarrow> AllocationRecord list \<Rightarrow> AllocationId list \<Rightarrow> u64 \<Rightarrow> (AllocationId list \<times> u64) result" where
  "check_live managed [] seen sum_live = Ok (seen, sum_live)"
| "check_live managed (rec # rs) seen sum_live =
    (if \<not> validate_record rec managed then persist_fail ''invalid record''
     else if rec_id rec \<in> set seen then persist_fail ''duplicate allocation id''
     else check_live managed rs (os_insert (rec_id rec) seen) (sum_live + rec_region_size rec))"

fun check_retired :: "u64 \<Rightarrow> AllocationRecord list \<Rightarrow> AllocationId list \<Rightarrow> AllocationId list result" where
  "check_retired managed [] seen = Ok seen"
| "check_retired managed (rec # rs) seen =
    (if \<not> validate_record rec managed then persist_fail ''invalid retired record''
     else if rec_id rec \<in> set seen then persist_fail ''duplicate allocation id''
     else check_retired managed rs (os_insert (rec_id rec) seen))"

fun adjacent_overlap :: "(u64 \<times> u64) list \<Rightarrow> bool" where
  "adjacent_overlap (a # b # iv) \<longleftrightarrow> fst b < snd a \<or> adjacent_overlap (b # iv)"
| "adjacent_overlap _ \<longleftrightarrow> False"

text \<open>The intervals of the live records; \<open>std::sort\<close> orders the pairs lexicographically.\<close>

definition persist_intervals :: "AllocationRecord list \<Rightarrow> (u64 \<times> u64) list" where
  "persist_intervals rs = map (\<lambda>rec. (rec_offset rec, rec_offset rec + rec_region_size rec)) rs"

definition persist_validate :: "PersistSnapshot \<Rightarrow> PersistSnapshot result" where
  "persist_validate s =
    (let managed = dom_managed_capacity (ps_domain s) in
     case check_live managed (ps_records s) [] 0 of
       Err e \<Rightarrow> Err e | Fault \<Rightarrow> Fault
     | Ok (seen, sum_live) \<Rightarrow>
      (case check_retired managed (ps_retired s) seen of
         Err e \<Rightarrow> Err e | Fault \<Rightarrow> Fault
       | Ok _ \<Rightarrow>
          if sum_live > managed then persist_fail ''physical bytes exceed governed capacity''
          else if adjacent_overlap (sort (persist_intervals (ps_records s))) then
            persist_fail ''overlapping persisted regions''
          else Ok s))"

definition persist_decode :: "u8 list \<Rightarrow> PersistSnapshot result" where
  "persist_decode b =
    expect ''truncated magic'' (r_u32 b) (\<lambda>magic b1.
    if magic \<noteq> persist_kMagic then persist_fail ''bad magic'' else
    expect ''truncated version'' (r_u32 b1) (\<lambda>ver b2.
    if ver \<noteq> persist_kVersion then persist_fail ''unsupported version'' else
    expect ''malformed domain'' (read_domain b2) (\<lambda>domain b3.
    if \<not> wm_valid (dom_watermarks domain) then persist_fail ''invalid watermarks (NaN/Inf/bad order)'' else
    expect ''truncated record count'' (r_u32 b3) (\<lambda>rocount b4.
    if rocount > kMaxRecords then persist_fail ''hostile record count'' else
    expect ''malformed record'' (take_list read_record (unat rocount) b4) (\<lambda>records b5.
    expect ''truncated retired count'' (r_u32 b5) (\<lambda>trcount b6.
    if trcount > kMaxRecords then persist_fail ''hostile retired count'' else
    expect ''malformed retired record'' (take_list read_record (unat trcount) b6) (\<lambda>retired b7.
    expect ''truncated next alloc id'' (r_u64 b7) (\<lambda>next_alloc_id b8.
    expect ''truncated history'' (r_u64 b8) (\<lambda>history_count b9.
    expect ''truncated checksum'' (r_u32 b9) (\<lambda>stored b10.
    if length b10 \<noteq> 0 then persist_fail ''trailing garbage'' else
    if stored \<noteq> persist_crc32 (take (length b - 4) b) then persist_fail ''checksum mismatch'' else
    persist_validate \<lparr>ps_magic = persist_kMagic, ps_version = persist_kVersion, ps_domain = domain,
      ps_records = records, ps_retired = retired, ps_next_alloc_id = next_alloc_id, ps_history_count = history_count\<rparr>))))))))))"

section \<open>Files\<close>

text \<open>
  What the streams of the standard library do with the disk is an argument: the content of
  every file, which paths can be opened for writing, what a write leaves in the file once the
  stream is closed and whether the stream is still good after it, and whether a read succeeds.
\<close>

record file_system =
  fs_files :: "string \<Rightarrow> u8 list option"
  fs_can_write :: "string \<Rightarrow> bool"
  fs_write :: "string \<Rightarrow> u8 list \<Rightarrow> u8 list \<times> bool"
  fs_can_read :: "string \<Rightarrow> bool"

definition write_file :: "string \<Rightarrow> PersistSnapshot \<Rightarrow> file_system \<Rightarrow> file_system \<times> unit result" where
  "write_file path s fs =
    (let bytes = persist_encode s in
     if \<not> fs_can_write fs path then (fs, persist_fail ''cannot open file for write'')
     else let (content, good) = fs_write fs path bytes; fs' = fs\<lparr>fs_files := (fs_files fs)(path \<mapsto> content)\<rparr> in
       if \<not> good then (fs', persist_fail ''write failed'') else (fs', Ok ()))"

definition read_file :: "string \<Rightarrow> file_system \<Rightarrow> PersistSnapshot result" where
  "read_file path fs =
    (case fs_files fs path of
       None \<Rightarrow> persist_fail ''cannot open file for read''
     | Some b \<Rightarrow>
        if b = [] then persist_fail ''empty file''
        else if \<not> fs_can_read fs path then persist_fail ''read failed''
        else persist_decode b)"

end
