(* ===== verification/Gms_Governor.thy ===== *)
theory Gms_Governor
  imports Gms_Region Gms_Persist
begin

text \<open>
  The model of \<open>MemoryGovernor\<close> (\<^verbatim>\<open>include/gpu_memory_service/governed_memory.hpp\<close> and
  \<^verbatim>\<open>src/governed_memory.cpp\<close>) and of the backends behind it.  Every method of the source
  file holds the mutex for its whole body, so it is one atomic step on the state (shown in \<^verbatim>\<open>Gms_Concurrent\<close>); state is passed explicitly, also by
  the const methods, which update the mutable pressure and the cached summary of the arena.
\<close>

section \<open>Backends\<close>

text \<open>
  \<open>IBackend\<close> as the governor sees it: \<open>allocate_arena\<close> gives a base address or an error text, \<open>free_arena\<close>
  gives the address back.  A null \<open>void*\<close> is 0.
\<close>

record IBackend =
  be_allocate_arena :: "u64 \<Rightarrow> u64 \<Rightarrow> string + u64"
  be_is_cuda :: bool

text \<open>\<open>HostBackend\<close>, over the C runtime's \<open>_aligned_malloc\<close>; it leaves the error text empty.\<close>

definition HostBackend :: "(u64 \<Rightarrow> u64 \<Rightarrow> u64) \<Rightarrow> IBackend" where
  "HostBackend aligned_malloc =
     \<lparr>be_allocate_arena = (\<lambda>bytes alignment.
        if bytes = 0 then Inl ''''
        else let p = aligned_malloc bytes alignment in if p = 0 then Inl '''' else Inr p),
      be_is_cuda = False\<rparr>"

text \<open>The address \<open>free_arena\<close> hands to \<open>_aligned_free\<close>, if any.\<close>

definition HostBackend_free_arena :: "u64 \<Rightarrow> u64 option" where
  "HostBackend_free_arena base = (if base \<noteq> 0 then Some base else None)"

section \<open>State\<close>

record MemoryGovernor =
  g_domain :: MemoryDomain
  g_backend :: "IBackend option"
  g_arena :: RegionAllocator
  g_records :: "(AllocationId, AllocationRecord) omap"
  g_retired :: "(AllocationId, AllocationRecord) omap"
  g_arena_base :: u64
  g_initialized :: bool
  g_next_alloc_id :: u64
  g_history_count :: u64

record MemorySummary =
  ms_managed_capacity :: u64
  ms_free :: u64
  ms_committed :: u64
  ms_resident :: u64
  ms_reclaimable :: u64
  ms_movable :: u64
  ms_pinned :: u64
  ms_largest_free :: u64
  ms_free_regions :: u64
  ms_live_allocations :: u64
  ms_external_fragmentation :: double
  ms_provenance :: Provenance
  ms_pressure :: PressureState
  ms_domain_generation :: GpuMemoryDomainGeneration

record AllocationHandle =
  ah_id :: AllocationId
  ah_generation :: AllocationGeneration
  ah_offset :: u64
  ah_size :: u64
  ah_alignment :: u64

record CompactionStep =
  cs_id :: AllocationId
  cs_generation :: AllocationGeneration
  cs_old_offset :: u64
  cs_old_size :: u64
  cs_new_offset :: u64
  cs_new_size :: u64
  cs_movability :: Movability

record CompactionPlan =
  cp_steps :: "CompactionStep list"
  cp_bytes_moved :: u64
  cp_largest_free_before :: u64
  cp_largest_free_after :: u64
  cp_rationale :: string

section \<open>Construction\<close>

definition MemoryGovernor_new :: "MemoryDomain \<Rightarrow> IBackend option \<Rightarrow> MemoryGovernor" where
  "MemoryGovernor_new domain backend =
     \<lparr>g_domain = domain, g_backend = backend, g_arena = RegionAllocator_new (dom_managed_capacity domain),
      g_records = [], g_retired = [], g_arena_base = 0, g_initialized = False, g_next_alloc_id = 1,
      g_history_count = 0\<rparr>"

text \<open>The destructor, with the base address it hands to \<open>free_arena\<close>, if any.\<close>

definition MemoryGovernor_destroy :: "MemoryGovernor \<Rightarrow> MemoryGovernor \<times> u64 option" where
  "MemoryGovernor_destroy g =
    (if g_backend g \<noteq> None \<and> g_arena_base g \<noteq> 0 \<and> g_initialized g
     then (g\<lparr>g_arena_base := 0\<rparr>, Some (g_arena_base g)) else (g, None))"

definition gov_initialize :: "MemoryGovernor \<Rightarrow> MemoryGovernor \<times> unit result" where
  "gov_initialize g =
    (if g_initialized g then (g, Ok ())
     else case g_backend g of
       None \<Rightarrow> (g, Err (Failure RejectReason.INTERNAL_ERROR ''no backend''))
     | Some be \<Rightarrow>
        if dom_managed_capacity (g_domain g) = 0 then
          (g, Err (Failure RejectReason.INVALID_REQUEST ''managed capacity is zero''))
        else case be_allocate_arena be (dom_managed_capacity (g_domain g)) 256 of
          Inl err \<Rightarrow> (g, Err (Failure RejectReason.PHYSICAL_OOM err))
        | Inr base \<Rightarrow> (g\<lparr>g_arena_base := base, g_initialized := True,
                          g_domain := (g_domain g)\<lparr>dom_health := DeviceHealth.HEALTHY\<rparr>\<rparr>, Ok ()))"

definition next_id_locked :: "MemoryGovernor \<Rightarrow> MemoryGovernor \<times> AllocationId" where
  "next_id_locked g = (g\<lparr>g_next_alloc_id := g_next_alloc_id g + 1\<rparr>, TypedId (g_next_alloc_id g))"

section \<open>request\<close>

definition arena_request :: "AllocationRequest \<Rightarrow> AllocationId \<Rightarrow> AllocationGeneration \<Rightarrow> AllocRequest" where
  "arena_request req aid gen =
     \<lparr>ar_bytes = req_bytes req, ar_alignment = req_alignment req,
      ar_movability = (if req_requires_pin req then Movability.PINNED else req_movability req),
      ar_mem_class = req_mem_class req, ar_reclaimability = req_reclaimability req, ar_alloc_id = aid,
      ar_alloc_generation = gen, ar_worker_boot = req_worker_boot req, ar_provenance = req_provenance req\<rparr>"

definition request_record :: "AllocationRequest \<Rightarrow> AllocationId \<Rightarrow> AllocationGeneration \<Rightarrow> Movability \<Rightarrow> RegionInfo \<Rightarrow> AllocationRecord" where
  "request_record req aid gen mov r =
     \<lparr>rec_id = aid, rec_generation = gen, rec_requested_bytes = req_bytes req, rec_region_size = ri_size r,
      rec_offset = ri_offset r, rec_alignment = req_alignment req, rec_region_id = ri_region_id r,
      rec_region_generation = ri_region_generation r, rec_mem_class = req_mem_class req,
      rec_reclaimability = req_reclaimability req, rec_movability = mov,
      rec_pin_count = (if req_requires_pin req then 1 else 0), rec_residency = ResidencyState.RESIDENT,
      rec_lifecycle = (if req_requires_pin req then LifecycleState.PINNED else LifecycleState.RESIDENT),
      rec_owner = req_owner req, rec_worker = req_worker req, rec_worker_boot = req_worker_boot req,
      rec_source_boot = req_source_boot req, rec_workload = req_workload req, rec_execution = req_execution req,
      rec_relocation_generation = gen_none, rec_reservation_gen = req_reservation_gen req,
      rec_resource_claim_gen = req_resource_claim_gen req, rec_placement_gen = req_placement_gen req,
      rec_policy_gen = req_policy_gen req, rec_backing_ref = req_backing_ref req,
      rec_provenance = req_provenance req, rec_recoverable = (req_backing_ref req \<noteq> [])\<rparr>"

definition count_request :: "AllocationRecord \<Rightarrow> u64 \<Rightarrow> MemoryDomain \<Rightarrow> MemoryDomain" where
  "count_request rec sz d =
    (let d1 = d\<lparr>dom_current_committed := dom_current_committed d + sz,
                dom_current_resident := dom_current_resident d + sz\<rparr> in
     if rec_movability rec = Movability.MOVABLE then d1\<lparr>dom_current_movable := dom_current_movable d1 + sz\<rparr>
     else if rec_movability rec = Movability.PINNED then d1\<lparr>dom_current_pinned := dom_current_pinned d1 + sz\<rparr>
     else d1)"

definition gov_request :: "MemoryGovernor \<Rightarrow> AllocationRequest \<Rightarrow> MemoryGovernor \<times> AllocationHandle result" where
  "gov_request g req =
    (let vf = validate_request req (dom_managed_capacity (g_domain g)) in
     if \<not> Failure_ok vf then (g, Err vf)
     else if \<not> g_initialized g then (g, Err (Failure RejectReason.INTERNAL_ERROR ''governor not initialized''))
     else let region_size = detail_align_up (req_bytes req) (req_alignment req) in
     if region_size = 0 \<or> region_size < req_bytes req then
       (g, Err (Failure RejectReason.SIZE_OVERFLOW ''aligned allocation size overflow''))
     else
       let (g1, aid) = next_id_locked g;
           gen = gen_first;
           ar = arena_request req aid gen
       in case arena_allocate (g_arena g1) ar of
            (arena, Err e) \<Rightarrow> (g1\<lparr>g_arena := arena\<rparr>, Err e)
          | (arena, Fault) \<Rightarrow> (g1\<lparr>g_arena := arena\<rparr>, Fault)
          | (arena, Ok r) \<Rightarrow>
              let rec = request_record req aid gen (ar_movability ar) r in
              (g1\<lparr>g_arena := arena, g_records := om_assign aid rec (g_records g1),
                  g_domain := count_request rec (ri_size r) (g_domain g1)\<rparr>,
               Ok \<lparr>ah_id = aid, ah_generation = gen, ah_offset = ri_offset r, ah_size = ri_size r,
                   ah_alignment = req_alignment req\<rparr>))"

section \<open>release\<close>

definition count_release :: "AllocationRecord \<Rightarrow> MemoryDomain \<Rightarrow> MemoryDomain" where
  "count_release rel d =
    (let d1 = d\<lparr>dom_current_committed := sub (dom_current_committed d) (rec_region_size rel),
                dom_current_resident := sub (dom_current_resident d) (rec_region_size rel)\<rparr> in
     if rec_movability rel = Movability.MOVABLE then
       d1\<lparr>dom_current_movable := sub (dom_current_movable d1) (rec_region_size rel)\<rparr>
     else if rec_movability rel = Movability.PINNED then
       d1\<lparr>dom_current_pinned := sub (dom_current_pinned d1) (rec_region_size rel)\<rparr>
     else d1)"

definition release_locked ::
  "MemoryGovernor \<Rightarrow> AllocationId \<Rightarrow> AllocationGeneration \<Rightarrow> WorkerBootId \<Rightarrow> SourceBootId \<Rightarrow>
   MemoryGovernor \<times> AllocationRecord result" where
  "release_locked g aid gen worker_boot source_boot =
    (case om_find (g_records g) aid of
       None \<Rightarrow>
        (case om_find (g_retired g) aid of
           Some rit \<Rightarrow>
             if rec_generation rit = gen then
               (g, Err (Failure RejectReason.DOUBLE_FREE ''double free of released allocation''))
             else (g, Err (Failure RejectReason.STALE_GENERATION ''stale generation on released allocation''))
         | None \<Rightarrow> (g, Err (Failure RejectReason.STALE_GENERATION ''unknown allocation'')))
     | Some rec \<Rightarrow>
        if rec_generation rec \<noteq> gen then
          (g, Err (Failure RejectReason.STALE_GENERATION ''stale allocation generation on release''))
        else if is_set worker_boot \<and> worker_boot \<noteq> rec_worker_boot rec then
          (g, Err (Failure RejectReason.STALE_AUTHORITY ''stale worker boot authority''))
        else if is_set source_boot \<and> source_boot \<noteq> rec_source_boot rec then
          (g, Err (Failure RejectReason.STALE_AUTHORITY ''stale source boot authority''))
        else if rec_pin_count rec > 0 then
          (g, Err (Failure RejectReason.FREE_OF_ACTIVE_OR_PINNED ''cannot release a pinned allocation''))
        else if rec_residency rec = ResidencyState.ACTIVE then
          (g, Err (Failure RejectReason.FREE_OF_ACTIVE_OR_PINNED ''cannot release an active allocation''))
        else (case arena_free (g_arena g) aid gen of
            (arena, Err e) \<Rightarrow> (g\<lparr>g_arena := arena\<rparr>, Err e)
          | (arena, Fault) \<Rightarrow> (g\<lparr>g_arena := arena\<rparr>, Fault)
          | (arena, Ok _) \<Rightarrow>
              let rel = rec\<lparr>rec_lifecycle := LifecycleState.RELEASED, rec_residency := ResidencyState.NONRESIDENT\<rparr> in
              (g\<lparr>g_arena := arena, g_retired := om_assign aid rel (g_retired g),
                 g_records := om_erase aid (g_records g), g_domain := count_release rel (g_domain g),
                 g_history_count := g_history_count g + 1\<rparr>, Ok rel)))"

definition gov_release :: "MemoryGovernor \<Rightarrow> AllocationId \<Rightarrow> AllocationGeneration \<Rightarrow> MemoryGovernor \<times> AllocationRecord result" where
  "gov_release g aid gen = release_locked g aid gen (TypedGeneration 0) (TypedGeneration 0)"

definition release_for_worker ::
  "MemoryGovernor \<Rightarrow> AllocationId \<Rightarrow> AllocationGeneration \<Rightarrow> WorkerBootId \<Rightarrow> SourceBootId \<Rightarrow>
   MemoryGovernor \<times> AllocationRecord result" where
  "release_for_worker g aid gen worker_boot source_boot = release_locked g aid gen worker_boot source_boot"

section \<open>pin, unpin, get\<close>

definition count_pin :: "AllocationRecord \<Rightarrow> MemoryDomain \<Rightarrow> MemoryDomain" where
  "count_pin rec d =
    (let d1 = d\<lparr>dom_current_movable := sub (dom_current_movable d) (rec_region_size rec)\<rparr>;
         d2 = d1\<lparr>dom_current_pinned := sub (dom_current_pinned d1) 0\<rparr>
     in d2\<lparr>dom_current_pinned := dom_current_pinned d2 + rec_region_size rec\<rparr>)"

definition gov_pin :: "MemoryGovernor \<Rightarrow> AllocationId \<Rightarrow> AllocationGeneration \<Rightarrow> MemoryGovernor \<times> unit result" where
  "gov_pin g aid gen =
    (case om_find (g_records g) aid of
       None \<Rightarrow> (g, Err (Failure RejectReason.STALE_GENERATION ''unknown allocation''))
     | Some rec \<Rightarrow>
        if rec_generation rec \<noteq> gen then (g, Err (Failure RejectReason.STALE_GENERATION ''stale generation on pin''))
        else (case arena_pin (g_arena g) aid gen of
            (arena, Err e) \<Rightarrow> (g\<lparr>g_arena := arena\<rparr>, Err e)
          | (arena, Fault) \<Rightarrow> (g\<lparr>g_arena := arena\<rparr>, Fault)
          | (arena, Ok r) \<Rightarrow>
              let rec' = rec\<lparr>rec_movability := Movability.PINNED, rec_pin_count := ri_pin_count r,
                             rec_lifecycle := LifecycleState.PINNED\<rparr> in
              (g\<lparr>g_arena := arena, g_records := om_assign aid rec' (g_records g),
                 g_domain := count_pin rec' (g_domain g)\<rparr>, Ok ())))"

definition count_unpin :: "AllocationRecord \<Rightarrow> MemoryDomain \<Rightarrow> MemoryDomain" where
  "count_unpin rec d =
    (if rec_pin_count rec = 0 then
       d\<lparr>dom_current_pinned := sub (dom_current_pinned d) (rec_region_size rec),
         dom_current_movable := dom_current_movable d + rec_region_size rec\<rparr>
     else d)"

definition gov_unpin :: "MemoryGovernor \<Rightarrow> AllocationId \<Rightarrow> AllocationGeneration \<Rightarrow> MemoryGovernor \<times> unit result" where
  "gov_unpin g aid gen =
    (case om_find (g_records g) aid of
       None \<Rightarrow> (g, Err (Failure RejectReason.STALE_GENERATION ''unknown allocation''))
     | Some rec \<Rightarrow>
        if rec_generation rec \<noteq> gen then (g, Err (Failure RejectReason.STALE_GENERATION ''stale generation on unpin''))
        else (case arena_unpin (g_arena g) aid gen of
            (arena, Err e) \<Rightarrow> (g\<lparr>g_arena := arena\<rparr>, Err e)
          | (arena, Fault) \<Rightarrow> (g\<lparr>g_arena := arena\<rparr>, Fault)
          | (arena, Ok r) \<Rightarrow>
              let rec' = rec\<lparr>rec_movability := ri_movability r, rec_pin_count := ri_pin_count r,
                             rec_lifecycle := (if ri_pin_count r = 0 then LifecycleState.RESIDENT else LifecycleState.PINNED)\<rparr> in
              (g\<lparr>g_arena := arena, g_records := om_assign aid rec' (g_records g),
                 g_domain := count_unpin rec' (g_domain g)\<rparr>, Ok ())))"

definition gov_get :: "MemoryGovernor \<Rightarrow> AllocationId \<Rightarrow> AllocationGeneration \<Rightarrow> AllocationRecord result" where
  "gov_get g aid gen =
    (case om_find (g_records g) aid of
       None \<Rightarrow> Err (Failure RejectReason.STALE_GENERATION ''unknown allocation'')
     | Some rec \<Rightarrow>
        if rec_generation rec \<noteq> gen then Err (Failure RejectReason.STALE_GENERATION ''stale allocation generation on query'')
        else (case arena_get (g_arena g) aid gen of
            Err e \<Rightarrow> Err e
          | Fault \<Rightarrow> Fault
          | Ok _ \<Rightarrow> Ok rec))"

section \<open>Queries\<close>

definition reclaim_pinned :: "AllocationRecord \<Rightarrow> bool" where
  "reclaim_pinned rec \<longleftrightarrow> rec_pin_count rec > 0 \<or> rec_movability rec = Movability.PINNED \<or>
     rec_movability rec = Movability.NONMOVABLE"

definition reclaim_never :: "AllocationRecord \<Rightarrow> bool" where
  "reclaim_never rec \<longleftrightarrow> rec_reclaimability rec = Reclaimability.NEVER_RECLAIM \<or>
     rec_reclaimability rec = Reclaimability.UNKNOWN"

definition reclaim_active :: "AllocationRecord \<Rightarrow> bool" where
  "reclaim_active rec \<longleftrightarrow> rec_residency rec = ResidencyState.ACTIVE"

definition reclaimable_bytes_locked :: "MemoryGovernor \<Rightarrow> u64" where
  "reclaimable_bytes_locked g =
     foldl (\<lambda>total kv. let rec = snd kv in
              if \<not> reclaim_pinned rec \<and> \<not> reclaim_never rec \<and> \<not> reclaim_active rec
              then total + rec_region_size rec else total) 0 (g_records g)"

definition gov_pressure :: "MemoryGovernor \<Rightarrow> MemoryGovernor \<times> PressureState" where
  "gov_pressure g =
    (let (a1, largest) = largest_free_region (g_arena g);
         (a2, frag) = external_fragmentation a1;
         ev = \<lparr>ev_managed_capacity = dom_managed_capacity (g_domain g), ev_committed = ra_live_bytes (g_arena g),
               ev_free = free_bytes (g_arena g), ev_reclaimable = reclaimable_bytes_locked g,
               ev_largest_free = largest, ev_fragmentation = frag, ev_watermarks = dom_watermarks (g_domain g)\<rparr>;
         p = evaluate_pressure ev (dom_pressure (g_domain g))
     in (g\<lparr>g_arena := a2, g_domain := (g_domain g)\<lparr>dom_pressure := p\<rparr>\<rparr>, p))"

definition gov_summary :: "MemoryGovernor \<Rightarrow> MemoryGovernor \<times> MemorySummary" where
  "gov_summary g =
    (let (a1, largest) = largest_free_region (g_arena g);
         (a2, free_regions) = free_region_count a1;
         (a3, frag) = external_fragmentation a2;
         (g', p) = gov_pressure (g\<lparr>g_arena := a3\<rparr>)
     in (g', \<lparr>ms_managed_capacity = dom_managed_capacity (g_domain g), ms_free = free_bytes (g_arena g),
              ms_committed = ra_live_bytes (g_arena g), ms_resident = ra_live_bytes (g_arena g),
              ms_reclaimable = reclaimable_bytes_locked g, ms_movable = movable_bytes (g_arena g),
              ms_pinned = pinned_bytes (g_arena g), ms_largest_free = largest, ms_free_regions = free_regions,
              ms_live_allocations = ra_live_count (g_arena g), ms_external_fragmentation = frag,
              ms_provenance = dom_provenance (g_domain g), ms_pressure = p,
              ms_domain_generation = dom_domain_generation (g_domain g)\<rparr>))"

definition gov_allocations :: "MemoryGovernor \<Rightarrow> AllocationRecord list" where
  "gov_allocations g = map snd (g_records g)"

definition gov_region_size :: "MemoryGovernor \<Rightarrow> AllocationId \<Rightarrow> u64" where
  "gov_region_size g aid =
    (case om_find (g_records g) aid of
       Some rec \<Rightarrow> rec_region_size rec
     | None \<Rightarrow> (case om_find (g_retired g) aid of Some rec \<Rightarrow> rec_region_size rec | None \<Rightarrow> 0))"

definition record_count :: "MemoryGovernor \<Rightarrow> nat" where
  "record_count g = length (g_records g)"

section \<open>Reclaim candidates\<close>

definition reclaimability_requires_backing :: "Reclaimability \<Rightarrow> bool" where
  "reclaimability_requires_backing r \<longleftrightarrow>
     r = Reclaimability.RECLAIM_IF_RELOADABLE \<or> r = Reclaimability.RECLAIM_IF_CHECKPOINTED"

fun reclaimability_priority :: "Reclaimability \<Rightarrow> int" where
  "reclaimability_priority Reclaimability.BEST_EFFORT = 0"
| "reclaimability_priority Reclaimability.RECLAIM_IF_CHECKPOINTED = 1"
| "reclaimability_priority Reclaimability.RECLAIM_IF_RELOADABLE = 2"
| "reclaimability_priority Reclaimability.RECLAIM_IF_COLD = 3"
| "reclaimability_priority Reclaimability.RECLAIM_AFTER_COMPLETION = 4"
| "reclaimability_priority Reclaimability.NEVER_RECLAIM = 5"
| "reclaimability_priority Reclaimability.UNKNOWN = 6"
| "reclaimability_priority (Reclaimability.Unnamed b) = 6"

record Cand =
  cand_id :: AllocationId
  cand_pri :: int
  cand_size :: u64

definition cand_less :: "Cand \<Rightarrow> Cand \<Rightarrow> bool" where
  "cand_less a b =
    (if cand_pri a \<noteq> cand_pri b then cand_pri a < cand_pri b
     else if cand_size a \<noteq> cand_size b then cand_size a > cand_size b
     else id_value (cand_id a) < id_value (cand_id b))"

definition is_candidate :: "AllocationRecord \<Rightarrow> bool" where
  "is_candidate rec \<longleftrightarrow> \<not> (reclaim_pinned rec \<or> reclaim_never rec \<or> reclaim_active rec) \<and>
     \<not> (reclaimability_requires_backing (rec_reclaimability rec) \<and> \<not> rec_recoverable rec \<and> rec_backing_ref rec = [])"

definition candidate_of :: "AllocationRecord \<Rightarrow> Cand" where
  "candidate_of rec = \<lparr>cand_id = rec_id rec, cand_pri = reclaimability_priority (rec_reclaimability rec),
     cand_size = rec_region_size rec\<rparr>"

definition reclaim_candidates :: "MemoryGovernor \<Rightarrow> u64 \<Rightarrow> AllocationId list" where
  "reclaim_candidates g mx =
    (let c = map candidate_of (filter is_candidate (map snd (g_records g)))
     in map cand_id (take (unat mx) (stable_sort cand_less c)))"

section \<open>Compaction\<close>

definition may_move :: "RegionInfo \<Rightarrow> bool" where
  "may_move m \<longleftrightarrow> ri_live m \<and> \<not> (ri_movability m \<noteq> Movability.MOVABLE \<or> ri_pin_count m > 0) \<and>
     ri_residency m \<noteq> ResidencyState.ACTIVE \<and> ri_reclaimability m \<noteq> Reclaimability.NEVER_RECLAIM"

text \<open>The sizes \<open>(lft, rgt)\<close> of the free neighbours of \<open>m\<close>.\<close>

definition free_neighbours :: "RegionInfo \<Rightarrow> RegionInfo list \<Rightarrow> u64 \<times> u64" where
  "free_neighbours m free =
     foldl (\<lambda>(lft, rgt) f. (if ri_offset f + ri_size f = ri_offset m then ri_size f else lft,
                            if ri_offset f = ri_offset m + ri_size m then ri_size f else rgt)) (0, 0) free"

text \<open>One round of the inner loop; the state is the plan and the best gain so far.\<close>

definition consider_target ::
  "u64 \<times> u64 \<Rightarrow> RegionInfo \<Rightarrow> CompactionPlan \<times> double \<Rightarrow> RegionInfo \<Rightarrow> CompactionPlan \<times> double" where
  "consider_target nb m st f =
    (let (lft, rgt) = nb; (plan, best_gain) = st in
     if ri_offset f + ri_size f = ri_offset m \<or> ri_offset f = ri_offset m + ri_size m then st
     else if ri_size f < ri_size m then st
     else
       let nf = detail_align_up (ri_offset f) (ri_alignment m);
           front = (if nf \<ge> ri_offset f then nf - ri_offset f else 0) in
       if front > ri_size f \<or> ri_size m > ri_size f - front then st
       else
         let largest_before = cp_largest_free_before plan;
             tail_free = ri_size f - front - ri_size m;
             consolidated = lft + ri_size m + rgt;
             after1 = max largest_before consolidated;
             after2 = (if front > 0 then max after1 front else after1);
             after = (if tail_free > 0 then max after2 tail_free else after2);
             gain = d_sub (d_of_u64 after) (d_of_u64 largest_before)
         in if d_less best_gain gain then
              (plan\<lparr>cp_steps := [\<lparr>cs_id = ri_alloc_id m, cs_generation = ri_alloc_generation m,
                                 cs_old_offset = ri_offset m, cs_old_size = ri_size m, cs_new_offset = nf,
                                 cs_new_size = ri_size m, cs_movability = Movability.MOVABLE\<rparr>],
                    cp_bytes_moved := ri_size m, cp_largest_free_after := after\<rparr>, gain)
            else st)"

definition plan_loop :: "RegionInfo list \<Rightarrow> RegionInfo list \<Rightarrow> CompactionPlan \<Rightarrow> CompactionPlan \<times> double" where
  "plan_loop live free plan =
     foldl (\<lambda>st m. if may_move m then foldl (consider_target (free_neighbours m free) m) st free else st)
       (plan, d_neg (d_lit 1 1)) live"

definition plan_compaction :: "MemoryGovernor \<Rightarrow> MemoryGovernor \<times> CompactionPlan" where
  "plan_compaction g =
    (let live = snapshot_live (g_arena g);
         free = snapshot_free (g_arena g);
         (a1, largest) = largest_free_region (g_arena g);
         plan0 = \<lparr>cp_steps = [], cp_bytes_moved = 0, cp_largest_free_before = largest,
                  cp_largest_free_after = largest, cp_rationale = []\<rparr>;
         plan = fst (plan_loop live free plan0)
     in (g\<lparr>g_arena := a1\<rparr>,
         plan\<lparr>cp_rationale :=
           (if cp_steps plan = [] then
              ''no safe compaction found (all movable allocations are pinned, active, or lack a free target)''
            else ''deterministic single-move compaction: '' @ show_word (cp_bytes_moved plan) @ '' bytes moved'')\<rparr>))"

definition apply_relocation ::
  "MemoryGovernor \<Rightarrow> AllocationId \<Rightarrow> AllocationGeneration \<Rightarrow> u64 \<Rightarrow> u64 \<Rightarrow> MemoryGovernor \<times> AllocationHandle result" where
  "apply_relocation g aid gen new_offset new_size =
    (case om_find (g_records g) aid of
       None \<Rightarrow> (g, Err (Failure RejectReason.STALE_GENERATION ''unknown allocation''))
     | Some rec \<Rightarrow>
        if rec_generation rec \<noteq> gen then (g, Err (Failure RejectReason.STALE_GENERATION ''stale generation on relocate''))
        else if rec_pin_count rec > 0 then
          (g, Err (Failure RejectReason.BLOCKED_BY_PINNED ''cannot relocate a pinned allocation''))
        else (case arena_relocate (g_arena g) aid gen new_offset new_size (rec_alignment rec) of
            (arena, Err e) \<Rightarrow> (g\<lparr>g_arena := arena\<rparr>, Err e)
          | (arena, Fault) \<Rightarrow> (g\<lparr>g_arena := arena\<rparr>, Fault)
          | (arena, Ok r) \<Rightarrow>
              let rec' = rec\<lparr>rec_offset := ri_offset r, rec_region_size := ri_size r,
                             rec_region_generation := ri_region_generation r, rec_generation := ri_alloc_generation r,
                             rec_relocation_generation :=
                               (if is_set (rec_relocation_generation rec) then gen_next (rec_relocation_generation rec)
                                else gen_first),
                             rec_lifecycle := LifecycleState.RESIDENT\<rparr> in
              (g\<lparr>g_arena := arena, g_records := om_assign aid rec' (g_records g)\<rparr>,
               Ok \<lparr>ah_id = aid, ah_generation = rec_generation rec', ah_offset = ri_offset r, ah_size = ri_size r,
                   ah_alignment = rec_alignment rec'\<rparr>)))"

section \<open>explain\<close>

definition gov_explain :: "MemoryGovernor \<Rightarrow> MemoryGovernor \<times> string" where
  "gov_explain g =
    (let (g', s) = gov_summary g in
     (g', ''domain='' @ show_word (id_value (dom_domain_id (g_domain g'))) @
          '' gen='' @ show_word (gen_value (dom_domain_generation (g_domain g'))) @
          '' device='' @ show_word (id_value (dom_device_id (g_domain g'))) @
          '' managed='' @ show_word (ms_managed_capacity s) @
          '' committed='' @ show_word (ms_committed s) @
          '' free='' @ show_word (ms_free s) @
          '' largest_free='' @ show_word (ms_largest_free s) @
          '' free_regions='' @ show_word (ms_free_regions s) @
          '' live='' @ show_word (ms_live_allocations s) @
          '' reclaimable='' @ show_word (ms_reclaimable s) @
          '' movable='' @ show_word (ms_movable s) @
          '' pinned='' @ show_word (ms_pinned s) @
          '' frag='' @ show_double (ms_external_fragmentation s) @
          '' pressure='' @ PressureState_to_string (ms_pressure s) @ [CHR 0x0A]))"

section \<open>Durable state\<close>

definition gov_snapshot :: "MemoryGovernor \<Rightarrow> PersistSnapshot" where
  "gov_snapshot g =
     \<lparr>ps_magic = persist_kMagic, ps_version = persist_kVersion, ps_domain = g_domain g,
      ps_records = map snd (g_records g), ps_retired = map snd (g_retired g),
      ps_next_alloc_id = g_next_alloc_id g, ps_history_count = g_history_count g\<rparr>"

definition stale_record :: "AllocationRecord \<Rightarrow> AllocationRecord" where
  "stale_record rec = rec\<lparr>rec_lifecycle := LifecycleState.REVALIDATION_REQUIRED,
     rec_residency := ResidencyState.REVALIDATION_REQUIRED\<rparr>"

definition restored_domain :: "MemoryDomain \<Rightarrow> MemoryDomain" where
  "restored_domain d = d\<lparr>dom_current_committed := 0, dom_current_resident := 0, dom_current_movable := 0,
     dom_current_pinned := 0, dom_health := DeviceHealth.UNKNOWN, dom_pressure := PressureState.REVALIDATION_REQUIRED\<rparr>"

definition gov_restore :: "MemoryGovernor \<Rightarrow> PersistSnapshot \<Rightarrow> MemoryGovernor \<times> unit result" where
  "gov_restore g s =
    (let retired1 = foldl (\<lambda>m rec. om_assign (rec_id rec) (stale_record rec) m) [] (ps_records s);
         retired2 = foldl (\<lambda>m rec. om_assign (rec_id rec) rec m) retired1 (ps_retired s)
     in (g\<lparr>g_domain := restored_domain (ps_domain s), g_records := [], g_retired := retired2,
           g_arena := RegionAllocator_new (dom_managed_capacity (ps_domain s)),
           g_next_alloc_id := ps_next_alloc_id s, g_history_count := ps_history_count s,
           g_initialized := False\<rparr>, Ok ()))"

definition gov_save :: "MemoryGovernor \<Rightarrow> string \<Rightarrow> file_system \<Rightarrow> file_system \<times> unit result" where
  "gov_save g path fs = write_file path (gov_snapshot g) fs"

definition gov_load :: "MemoryGovernor \<Rightarrow> string \<Rightarrow> file_system \<Rightarrow> MemoryGovernor \<times> unit result" where
  "gov_load g path fs =
    (case read_file path fs of
       Err e \<Rightarrow> (g, Err e)
     | Fault \<Rightarrow> (g, Fault)
     | Ok snap \<Rightarrow> gov_restore g snap)"

end
