(* ===== verification/Gms_Layout.thy ===== *)
theory Gms_Layout
  imports Gms_Region
begin

text \<open>
  Byte-level reading of the region map.  A region is the set of byte addresses it covers; a layout
  is a set of non-empty, pairwise disjoint regions that covers exactly a given set of bytes.  The
  primitive changes of the allocator (take a region out, put one in) are shown to change the
  covered set by exactly that region, together with the free-slot index.  The operations are
  compositions of these, which is how \<open>Gms_Region_Inv\<close> proves them.
\<close>

section \<open>Layouts\<close>

type_synonym entry = "u64 \<times> RegionInfo"

definition bytes_of :: "entry \<Rightarrow> nat set" where
  "bytes_of kv = {unat (fst kv) ..< unat (fst kv) + unat (ri_size (snd kv))}"

definition layout_ok :: "nat set \<Rightarrow> entry set \<Rightarrow> bool" where
  "layout_ok B R \<longleftrightarrow>
     (\<forall>kv\<in>R. ri_size (snd kv) \<noteq> 0 \<and> ri_offset (snd kv) = fst kv) \<and>
     (\<forall>a\<in>R. \<forall>b\<in>R. a \<noteq> b \<longrightarrow> bytes_of a \<inter> bytes_of b = {}) \<and>
     (\<Union>kv\<in>R. bytes_of kv) = B"

definition slot_of :: "entry \<Rightarrow> FreeSlot" where
  "slot_of kv = FreeSlot (ri_size (snd kv)) (fst kv)"

definition live_entries :: "entry set \<Rightarrow> entry set" where
  "live_entries R = {kv \<in> R. ri_live (snd kv)}"

definition free_entries :: "entry set \<Rightarrow> entry set" where
  "free_entries R = {kv \<in> R. \<not> ri_live (snd kv)}"

definition regs :: "RegionAllocator \<Rightarrow> entry set" where
  "regs ra = set (ra_regions ra)"

text \<open>The region map and the slot index are well formed and agree, covering the bytes \<open>B\<close>.\<close>

definition core_inv :: "nat set \<Rightarrow> RegionAllocator \<Rightarrow> bool" where
  "core_inv B ra \<longleftrightarrow> om_ok (ra_regions ra) \<and> os_ok (ra_free_slots ra) \<and> layout_ok B (regs ra) \<and>
     set (ra_free_slots ra) = slot_of ` free_entries (regs ra)"

definition no_adjacent_free :: "entry set \<Rightarrow> bool" where
  "no_adjacent_free R \<longleftrightarrow>
     (\<forall>a\<in>free_entries R. \<forall>b\<in>free_entries R. unat (fst a) + unat (ri_size (snd a)) \<noteq> unat (fst b))"

definition live_sum :: "entry set \<Rightarrow> nat" where
  "live_sum R = (\<Sum>kv\<in>live_entries R. unat (ri_size (snd kv)))"

section \<open>Taking regions out and putting them in\<close>

lemma bytes_of_nonempty: "ri_size (snd kv) \<noteq> 0 \<Longrightarrow> unat (fst kv) \<in> bytes_of kv"
  by (simp add: bytes_of_def unat_pos_iff)

lemma finite_bytes_of [simp]: "finite (bytes_of kv)"
  by (simp add: bytes_of_def)

lemma card_bytes_of [simp]: "card (bytes_of kv) = unat (ri_size (snd kv))"
  by (simp add: bytes_of_def)

lemma layout_erase: "layout_ok B R \<Longrightarrow> x \<in> R \<Longrightarrow> layout_ok (B - bytes_of x) (R - {x})"
  unfolding layout_ok_def by (auto; blast)

lemma layout_insert:
  assumes "layout_ok B R" "ri_size (snd x) \<noteq> 0" "ri_offset (snd x) = fst x" "bytes_of x \<inter> B = {}"
  shows "layout_ok (B \<union> bytes_of x) (insert x R)"
  using assms unfolding layout_ok_def by (auto simp: Int_commute; blast)

lemma layout_bytes: "layout_ok B R \<Longrightarrow> x \<in> R \<Longrightarrow> bytes_of x \<subseteq> B"
  unfolding layout_ok_def by auto

lemma layout_offset: "layout_ok B R \<Longrightarrow> (k, r) \<in> R \<Longrightarrow> ri_offset r = k"
  unfolding layout_ok_def by auto

lemma layout_size: "layout_ok B R \<Longrightarrow> (k, r) \<in> R \<Longrightarrow> ri_size r \<noteq> 0"
  unfolding layout_ok_def by auto

lemma layout_disjoint:
  "layout_ok B R \<Longrightarrow> x \<in> R \<Longrightarrow> y \<in> R \<Longrightarrow> p \<in> bytes_of x \<Longrightarrow> p \<in> bytes_of y \<Longrightarrow> x = y"
  unfolding layout_ok_def by blast

lemma layout_cover: "layout_ok B R \<Longrightarrow> p \<in> B \<Longrightarrow> \<exists>x\<in>R. p \<in> bytes_of x"
  unfolding layout_ok_def by auto

lemma layout_key_absent:
  assumes "layout_ok B R" "unat k \<notin> B" shows "k \<notin> fst ` R"
proof
  assume "k \<in> fst ` R"
  then obtain r where "(k, r) \<in> R" by auto
  then have "unat k \<in> bytes_of (k, r)" "bytes_of (k, r) \<subseteq> B"
    using assms(1) bytes_of_nonempty [of "(k, r)"] layout_size layout_bytes by auto
  with assms(2) show False by auto
qed

lemma layout_key_inject:
  assumes "layout_ok B R" "x \<in> R" "y \<in> R" "fst x = fst y" shows "x = y"
proof -
  have "ri_size (snd x) \<noteq> 0" "ri_size (snd y) \<noteq> 0" using assms by (auto simp: layout_ok_def)
  then have "unat (fst x) \<in> bytes_of x" "unat (fst x) \<in> bytes_of y"
    using assms(4) bytes_of_nonempty [of x] bytes_of_nonempty [of y] by simp_all
  with assms(1-3) show ?thesis by (rule layout_disjoint)
qed

lemma slot_of_inject: "layout_ok B R \<Longrightarrow> inj_on slot_of R"
  by (rule inj_onI) (auto simp: slot_of_def dest: layout_key_inject)

lemma erase_key:
  assumes "layout_ok B R" "(k, r) \<in> R" shows "{kv \<in> R. fst kv \<noteq> k} = R - {(k, r)}"
  using assms layout_key_inject by fastforce

section \<open>The primitive changes keep map and index in step\<close>

lemma core_inv_cong:
  "ra_regions a = ra_regions b \<Longrightarrow> ra_free_slots a = ra_free_slots b \<Longrightarrow> core_inv B a = core_inv B b"
  by (simp add: core_inv_def regs_def)

lemma core_layout: "core_inv B ra \<Longrightarrow> layout_ok B (regs ra)"
  by (simp add: core_inv_def)

lemma core_find: "core_inv B ra \<Longrightarrow> om_find (ra_regions ra) k = Some r \<longleftrightarrow> (k, r) \<in> regs ra"
  by (simp add: core_inv_def regs_def om_find_iff)

lemma core_erase_live:
  assumes "core_inv B ra" "(k, r) \<in> regs ra" "ri_live r"
    "ra_regions ra' = om_erase k (ra_regions ra)" "ra_free_slots ra' = ra_free_slots ra"
  shows "core_inv (B - bytes_of (k, r)) ra'" "regs ra' = regs ra - {(k, r)}"
proof -
  show R: "regs ra' = regs ra - {(k, r)}"
    using erase_key [OF core_layout [OF assms(1)] assms(2)] assms(4) by (simp add: regs_def set_om_erase)
  have "free_entries (regs ra') = free_entries (regs ra)"
    unfolding R free_entries_def using assms(3) by fastforce
  moreover have "layout_ok (B - bytes_of (k, r)) (regs ra')"
    unfolding R using core_layout [OF assms(1)] assms(2) by (rule layout_erase)
  ultimately show "core_inv (B - bytes_of (k, r)) ra'"
    using assms(1,4,5) by (simp add: core_inv_def om_ok_erase)
qed

lemma core_erase_free:
  assumes "core_inv B ra" "(k, r) \<in> regs ra" "\<not> ri_live r"
    "ra_regions ra' = om_erase k (ra_regions ra)"
    "ra_free_slots ra' = os_erase (FreeSlot (ri_size r) k) (ra_free_slots ra)"
  shows "core_inv (B - bytes_of (k, r)) ra'" "regs ra' = regs ra - {(k, r)}"
proof -
  show R: "regs ra' = regs ra - {(k, r)}"
    using erase_key [OF core_layout [OF assms(1)] assms(2)] assms(4) by (simp add: regs_def set_om_erase)
  have "slot_of ` (free_entries (regs ra) - {(k, r)}) = slot_of ` free_entries (regs ra) - slot_of ` {(k, r)}"
    using slot_of_inject [OF core_layout [OF assms(1)]] assms(2)
    by (intro inj_on_image_set_diff) (auto simp: free_entries_def)
  moreover have "free_entries (regs ra') = free_entries (regs ra) - {(k, r)}"
    using R by (auto simp: free_entries_def)
  ultimately have "slot_of ` free_entries (regs ra) - {slot_of (k, r)} = slot_of ` free_entries (regs ra')"
    by simp
  moreover have "slot_of (k, r) = FreeSlot (ri_size r) k" by (simp add: slot_of_def)
  ultimately show "core_inv (B - bytes_of (k, r)) ra'"
    using assms R by (simp add: core_inv_def om_ok_erase layout_erase os_ok_erase set_os_erase)
qed

lemma core_add_live:
  assumes "core_inv B ra" "ri_live r" "ri_size r \<noteq> 0" "ri_offset r = k" "bytes_of (k, r) \<inter> B = {}"
    "ra_regions ra' = om_emplace k r (ra_regions ra)" "ra_free_slots ra' = ra_free_slots ra"
  shows "core_inv (B \<union> bytes_of (k, r)) ra'" "regs ra' = insert (k, r) (regs ra)"
proof -
  have "k \<notin> fst ` regs ra"
    using layout_key_absent [OF core_layout [OF assms(1)]] bytes_of_nonempty [of "(k, r)"] assms(3,5)
    by auto
  then show R: "regs ra' = insert (k, r) (regs ra)" using assms(6) by (simp add: regs_def set_om_emplace)
  have "free_entries (regs ra') = free_entries (regs ra)"
    using assms(2) R by (auto simp: free_entries_def)
  then show "core_inv (B \<union> bytes_of (k, r)) ra'"
    using assms R by (simp add: core_inv_def om_ok_emplace layout_insert)
qed

lemma core_add_free:
  assumes "core_inv B ra" "\<not> ri_live r" "ri_size r \<noteq> 0" "ri_offset r = k" "bytes_of (k, r) \<inter> B = {}"
    "ra_regions ra' = om_emplace k r (ra_regions ra)"
    "ra_free_slots ra' = os_insert (FreeSlot (ri_size r) k) (ra_free_slots ra)"
  shows "core_inv (B \<union> bytes_of (k, r)) ra'" "regs ra' = insert (k, r) (regs ra)"
proof -
  have "k \<notin> fst ` regs ra"
    using layout_key_absent [OF core_layout [OF assms(1)]] bytes_of_nonempty [of "(k, r)"] assms(3,5)
    by auto
  then show R: "regs ra' = insert (k, r) (regs ra)" using assms(6) by (simp add: regs_def set_om_emplace)
  have "free_entries (regs ra') = insert (k, r) (free_entries (regs ra))"
    using assms(2) R by (auto simp: free_entries_def)
  then show "core_inv (B \<union> bytes_of (k, r)) ra'"
    using assms R by (simp add: core_inv_def om_ok_emplace layout_insert os_ok_insert set_os_insert slot_of_def)
qed

section \<open>Sums\<close>

lemma live_sum_insert:
  "finite R \<Longrightarrow> x \<notin> R \<Longrightarrow>
   live_sum (insert x R) = live_sum R + (if ri_live (snd x) then unat (ri_size (snd x)) else 0)"
proof -
  assume "finite R" "x \<notin> R"
  moreover have "live_entries (insert x R) =
      (if ri_live (snd x) then insert x (live_entries R) else live_entries R)"
    by (auto simp: live_entries_def)
  ultimately show ?thesis by (simp add: live_sum_def) (simp add: live_entries_def)
qed

lemma live_sum_remove:
  "finite R \<Longrightarrow> x \<in> R \<Longrightarrow>
   live_sum (R - {x}) + (if ri_live (snd x) then unat (ri_size (snd x)) else 0) = live_sum R"
  using live_sum_insert [of "R - {x}" x] by (simp add: insert_absorb)

lemma card_live_insert:
  "finite R \<Longrightarrow> x \<notin> R \<Longrightarrow>
   card (live_entries (insert x R)) = card (live_entries R) + (if ri_live (snd x) then 1 else 0)"
proof -
  assume "finite R" "x \<notin> R"
  moreover have "live_entries (insert x R) =
      (if ri_live (snd x) then insert x (live_entries R) else live_entries R)"
    by (auto simp: live_entries_def)
  ultimately show ?thesis by simp (simp add: live_entries_def)
qed

lemma card_live_remove:
  "finite R \<Longrightarrow> x \<in> R \<Longrightarrow>
   card (live_entries (R - {x})) + (if ri_live (snd x) then 1 else 0) = card (live_entries R)"
  using card_live_insert [of "R - {x}" x] by (simp add: insert_absorb)

lemma sum_sizes_card:
  assumes "layout_ok B R" "finite R"
  shows "(\<Sum>kv\<in>R. unat (ri_size (snd kv))) = card B"
proof -
  have "card (\<Union>kv\<in>R. bytes_of kv) = (\<Sum>kv\<in>R. card (bytes_of kv))"
    using assms by (intro card_UN_disjoint) (auto simp: layout_ok_def)
  with assms(1) show ?thesis by (simp add: layout_ok_def)
qed

lemma live_sum_free_sum:
  assumes "layout_ok B R" "finite R"
  shows "live_sum R + (\<Sum>kv\<in>free_entries R. unat (ri_size (snd kv))) = card B"
proof -
  have "R = live_entries R \<union> free_entries R" "live_entries R \<inter> free_entries R = {}"
    by (auto simp: live_entries_def free_entries_def)
  moreover have "finite (live_entries R)" "finite (free_entries R)"
    using assms(2) by (auto simp: live_entries_def free_entries_def)
  ultimately have "(\<Sum>kv\<in>R. unat (ri_size (snd kv))) =
      live_sum R + (\<Sum>kv\<in>free_entries R. unat (ri_size (snd kv)))"
    by (metis live_sum_def sum.union_disjoint)
  with sum_sizes_card [OF assms] show ?thesis by simp
qed

lemma card_live_le:
  assumes "layout_ok B R" "finite R" shows "card (live_entries R) \<le> live_sum R"
proof -
  have "card (live_entries R) = (\<Sum>kv\<in>live_entries R. 1)" by simp
  also have "\<dots> \<le> live_sum R"
    unfolding live_sum_def using assms
    by (intro sum_mono) (auto simp: live_entries_def layout_ok_def Suc_le_eq unat_pos_iff)
  finally show ?thesis .
qed

end
