(* ===== verification/Gms_Region_Inv.thy ===== *)
theory Gms_Region_Inv
  imports Gms_Layout
begin

text \<open>
  The invariant of a \<open>RegionAllocator\<close> and the proof that \<open>allocate\<close> keeps it.  \<open>arena_inv\<close> says that
  the regions tile \<open>[0, capacity)\<close>, that no two free regions are adjacent, that every live region
  is aligned, and that the slot index, the offset map and the counters agree with the region map.
  \<open>arena_live\<close> is the abstract state (allocation id to live region) in which the operations are
  specified; \<open>alloc_reject\<close> is the decision of \<open>allocate\<close> in terms of the layout.
\<close>

section \<open>The arena invariant\<close>

abbreviation lo_of :: "entry \<Rightarrow> nat" where "lo_of kv \<equiv> unat (fst kv)"
abbreviation hi_of :: "entry \<Rightarrow> nat" where "hi_of kv \<equiv> unat (fst kv) + unat (ri_size (snd kv))"

text \<open>The offset map lists exactly the live entries \<open>L\<close>, by allocation id.\<close>

definition links_ok :: "entry set \<Rightarrow> (AllocationId, u64) omap \<Rightarrow> bool" where
  "links_ok L m \<longleftrightarrow> om_ok m \<and>
     (\<forall>aid off. om_find m aid = Some off \<longleftrightarrow> (\<exists>r. (off, r) \<in> L \<and> ri_alloc_id r = aid))"

definition aligned_ok :: "entry set \<Rightarrow> bool" where
  "aligned_ok R \<longleftrightarrow>
     (\<forall>kv\<in>live_entries R. is_pow2 (ri_alignment (snd kv)) \<and> fst kv mod ri_alignment (snd kv) = 0)"

definition summary_ok :: "RegionAllocator \<Rightarrow> bool" where
  "summary_ok ra \<longleftrightarrow> (\<not> ra_summary_dirty ra \<longrightarrow>
     ra_free_count ra = of_nat (length (ra_free_slots ra)) \<and>
     ra_largest_free ra = (if ra_free_slots ra = [] then 0 else fs_size (last (ra_free_slots ra))))"

definition arena_inv :: "RegionAllocator \<Rightarrow> bool" where
  "arena_inv ra \<longleftrightarrow> ra_capacity ra \<noteq> 0 \<and> core_inv {..<unat (ra_capacity ra)} ra \<and>
     no_adjacent_free (regs ra) \<and> aligned_ok (regs ra) \<and>
     unat (ra_live_bytes ra) = live_sum (regs ra) \<and>
     unat (ra_live_count ra) = card (live_entries (regs ra)) \<and> links_ok (live_entries (regs ra)) (ra_alloc_offset ra) \<and> summary_ok ra"

section \<open>Arithmetic of one region\<close>

lemma finite_regs [simp]: "finite (regs ra)"
  by (simp add: regs_def)

lemma layout_hi_le:
  assumes "layout_ok {..<n} R" "x \<in> R" shows "hi_of x \<le> n"
proof -
  have "0 < unat (ri_size (snd x))" using assms by (auto simp: layout_ok_def unat_pos_iff)
  moreover from this have "hi_of x - 1 \<in> bytes_of x" by (auto simp: bytes_of_def)
  ultimately show ?thesis using layout_bytes [OF assms] by auto
qed

lemma layout_sep:
  assumes "layout_ok B R" "x \<in> R" "y \<in> R" "x \<noteq> y" shows "hi_of x \<le> lo_of y \<or> hi_of y \<le> lo_of x"
proof (rule ccontr)
  assume "\<not> ?thesis"
  then have "max (lo_of x) (lo_of y) \<in> bytes_of x" "max (lo_of x) (lo_of y) \<in> bytes_of y"
    using assms(1-3) by (auto simp: bytes_of_def layout_ok_def unat_pos_iff)
  with layout_disjoint [OF assms(1-3)] assms(4) show False by blast
qed

lemma region_end:
  assumes "layout_ok {..<unat (c :: u64)} R" "(k, r) \<in> R"
  shows "unat (k + ri_size r) = unat k + unat (ri_size r)"
  using layout_hi_le [OF assms] by (intro unat_add_le [of _ _ c]) simp

lemma arena_core: "arena_inv ra \<Longrightarrow> core_inv {..<unat (ra_capacity ra)} ra"
  by (simp add: arena_inv_def)

lemma arena_layout: "arena_inv ra \<Longrightarrow> layout_ok {..<unat (ra_capacity ra)} (regs ra)"
  by (simp add: arena_inv_def core_inv_def)

lemma arena_sum: "arena_inv ra \<Longrightarrow>
  unat (ra_live_bytes ra) + (\<Sum>kv\<in>free_entries (regs ra). unat (ri_size (snd kv))) = unat (ra_capacity ra)"
  using live_sum_free_sum [OF arena_layout finite_regs, of ra] by (simp add: arena_inv_def)

lemma live_bytes_le: "arena_inv ra \<Longrightarrow> unat (ra_live_bytes ra) \<le> unat (ra_capacity ra)"
  using arena_sum [of ra] by linarith

section \<open>Alignment and the slot scan\<close>

lemma ra_align_up_eq: "is_pow2 al \<Longrightarrow> ra_align_up v al = detail_align_up v al"
  by (auto simp: ra_align_up_def detail_align_up_def is_pow2_def Let_def)

lemma round_up_overflow:
  assumes "is_pow2 al" "\<not> unat v + (unat al - 1) < 2 ^ 64"
  shows "2 ^ 64 \<le> round_up (unat v) (unat al)"
proof (rule ccontr)
  from assms(1) obtain n where n: "n < 64" "unat al = 2 ^ n" by (elim is_pow2_cases)
  assume "\<not> 2 ^ 64 \<le> round_up (unat v) (unat al)"
  then have lt: "round_up (unat v) (unat al) < 2 ^ 64" by simp
  have "unat al dvd 2 ^ 64" using n le_imp_power_dvd [of n 64 "2::nat"] by simp
  then obtain k where k: "2 ^ 64 = unat al * k" by (elim dvdE)
  obtain j where j: "round_up (unat v) (unat al) = unat al * j" by (meson dvdE round_up_dvd)
  from lt j k have "unat al * j < unat al * k" by simp
  then have "j < k" by simp
  then have "unat al * j + unat al \<le> unat al * k" by (metis Suc_leI mult_Suc_right mult_le_mono2 add.commute)
  moreover have "unat v \<le> unat al * j" using round_up_ge [of "unat al" "unat v"] j n by simp
  ultimately show False using assms(2) k n by simp
qed

definition slot_fits :: "u64 \<Rightarrow> u64 \<Rightarrow> FreeSlot \<Rightarrow> bool" where
  "slot_fits aligned al s \<longleftrightarrow> round_up (unat (fs_offset s)) (unat al) + unat aligned \<le> unat (fs_offset s) + unat (fs_size s)"

lemma front_fits:
  assumes al: "is_pow2 al" and bound: "unat (fs_offset s) + unat (fs_size s) \<le> unat (c :: u64)"
  defines "front \<equiv> ra_align_up (fs_offset s) al - fs_offset s"
  shows "\<not> (front > fs_size s \<or> aligned > fs_size s - front) \<longleftrightarrow> slot_fits aligned al s"
    and "slot_fits aligned al s \<Longrightarrow>
      unat front = round_up (unat (fs_offset s)) (unat al) - unat (fs_offset s)"
proof -
  let ?F = "unat (fs_offset s)" and ?S = "unat (fs_size s)"
  have pos: "0 < unat al" using al by (elim is_pow2_cases) simp
  have up: "unat (ra_align_up (fs_offset s) al) =
      (if ?F + (unat al - 1) < 2 ^ 64 then round_up ?F (unat al) else 0)"
    using al by (simp add: ra_align_up_eq detail_align_up_spec)
  have c: "unat c < 2 ^ 64" using unat_lt64 [of c] by simp
  show "\<not> (front > fs_size s \<or> aligned > fs_size s - front) \<longleftrightarrow> slot_fits aligned al s"
  proof (cases "?F + (unat al - 1) < 2 ^ 64")
    case True
    then have f: "unat front = round_up ?F (unat al) - ?F"
      unfolding front_def using up round_up_ge [OF pos, of ?F] by (subst unat_sub_le) auto
    show ?thesis
    proof (cases "unat front \<le> ?S")
      case True
      then have "unat (fs_size s - front) = ?S - unat front" by (simp add: unat_sub_le)
      with True f round_up_ge [OF pos, of ?F] show ?thesis
        by (auto simp: slot_fits_def gms_word)
    qed (use f in \<open>auto simp: slot_fits_def gms_word\<close>)
  next
    case False
    then have z: "ra_align_up (fs_offset s) al = 0" using up by (simp add: unat_eq_zero)
    have big: "2 ^ 64 \<le> round_up ?F (unat al)" by (rule round_up_overflow [OF al False])
    have "?F \<noteq> 0" using False pos unat_lt64 [of al] by auto
    then have "unat front = 2 ^ 64 - ?F"
      unfolding front_def z by (subst unat_sub_if') simp
    with bound c have "?S < unat front" by simp
    moreover have "\<not> slot_fits aligned al s" using big bound c by (simp add: slot_fits_def)
    ultimately show ?thesis by (simp add: gms_word)
  qed
  assume fit: "slot_fits aligned al s"
  show "unat front = round_up ?F (unat al) - ?F"
  proof (cases "?F + (unat al - 1) < 2 ^ 64")
    case True
    then show ?thesis
      unfolding front_def using up round_up_ge [OF pos, of ?F] by (subst unat_sub_le) auto
  next
    case False
    with round_up_overflow [OF al False] fit bound c show ?thesis by (simp add: slot_fits_def)
  qed
qed

lemma find_slot_Some:
  assumes "find_slot aligned al xs = Some (it, front)" "is_pow2 al"
    "\<forall>s\<in>set xs. unat (fs_offset s) + unat (fs_size s) \<le> unat (c :: u64)"
  shows "\<exists>ys zs. xs = ys @ it # zs \<and> slot_fits aligned al it \<and> (\<forall>y\<in>set ys. \<not> slot_fits aligned al y) \<and>
      front = ra_align_up (fs_offset it) al - fs_offset it"
  using assms
proof (induction xs)
  case (Cons s xs)
  have f: "\<not> (ra_align_up (fs_offset s) al - fs_offset s > fs_size s \<or>
       aligned > fs_size s - (ra_align_up (fs_offset s) al - fs_offset s)) \<longleftrightarrow> slot_fits aligned al s"
    using Cons.prems by (intro front_fits(1)) auto
  show ?case
  proof (cases "slot_fits aligned al s")
    case True
    then show ?thesis using Cons.prems(1) f by (intro exI [of _ "[]"] exI [of _ xs]) (auto simp: Let_def)
  next
    case False
    then have "find_slot aligned al xs = Some (it, front)" using Cons.prems(1) f by (auto simp: Let_def)
    with Cons obtain ys zs where "xs = ys @ it # zs" "slot_fits aligned al it"
      "\<forall>y\<in>set ys. \<not> slot_fits aligned al y" "front = ra_align_up (fs_offset it) al - fs_offset it"
      by auto
    with False show ?thesis by (intro exI [of _ "s # ys"] exI [of _ zs]) auto
  qed
qed simp

lemma find_slot_None:
  assumes "find_slot aligned al xs = None" "is_pow2 al"
    "\<forall>s\<in>set xs. unat (fs_offset s) + unat (fs_size s) \<le> unat (c :: u64)"
  shows "\<forall>s\<in>set xs. \<not> slot_fits aligned al s"
  using assms
proof (induction xs)
  case (Cons s xs)
  have "\<not> (ra_align_up (fs_offset s) al - fs_offset s > fs_size s \<or>
       aligned > fs_size s - (ra_align_up (fs_offset s) al - fs_offset s)) \<longleftrightarrow> slot_fits aligned al s"
    using Cons.prems by (intro front_fits(1)) auto
  with Cons show ?case by (auto simp: Let_def split: if_splits)
qed simp

section \<open>allocate\<close>

lemma slot_entry:
  assumes "arena_inv ra" "it \<in> set (ra_free_slots ra)"
  obtains r where "(fs_offset it, r) \<in> regs ra" "\<not> ri_live r" "ri_size r = fs_size it"
    "unat (fs_offset it) + unat (fs_size it) \<le> unat (ra_capacity ra)"
proof -
  from assms obtain k r where "(k, r) \<in> regs ra" "\<not> ri_live r" "it = slot_of (k, r)"
    by (auto simp: arena_inv_def core_inv_def free_entries_def)
  moreover from this have "unat (fs_offset it) + unat (fs_size it) \<le> unat (ra_capacity ra)"
    using layout_hi_le [OF arena_layout [OF assms(1)], of "(k, r)"] by (simp add: slot_of_def)
  ultimately show thesis by (intro that [of r]) (auto simp: slot_of_def)
qed

lemma slots_bounded:
  "arena_inv ra \<Longrightarrow> set xs \<subseteq> set (ra_free_slots ra) \<Longrightarrow>
   \<forall>s\<in>set xs. unat (fs_offset s) + unat (fs_size s) \<le> unat (ra_capacity ra)"
  by (meson slot_entry subsetD)

text \<open>What splitting a free region does, as sets of regions and bytes.\<close>

definition pad_entry :: "u64 \<Rightarrow> u64 \<Rightarrow> Provenance \<Rightarrow> u64 \<Rightarrow> entry" where
  "pad_entry off sz prov rid = (off, RegionInfo_default\<lparr>ri_live := False, ri_offset := off, ri_size := sz,
     ri_region_id := TypedId rid, ri_region_generation := TypedGeneration 1, ri_provenance := prov\<rparr>)"

lemma pad_entry_simps [simp]:
  "fst (pad_entry off sz p rid) = off" "ri_size (snd (pad_entry off sz p rid)) = sz"
  "ri_offset (snd (pad_entry off sz p rid)) = off" "ri_live (snd (pad_entry off sz p rid)) = False"
  by (simp_all add: pad_entry_def)

lemma core_add_free_region:
  assumes "core_inv B ra" "sz \<noteq> 0" "{unat off ..< unat off + unat sz} \<inter> B = {}"
  shows "core_inv (B \<union> {unat off ..< unat off + unat sz}) (add_free_region off sz p ra)"
    "regs (add_free_region off sz p ra) = insert (pad_entry off sz p (ra_next_region_id ra)) (regs ra)"
proof -
  let ?x = "pad_entry off sz p (ra_next_region_id ra)"
  have b: "bytes_of (off, snd ?x) = {unat off ..< unat off + unat sz}" by (simp add: bytes_of_def)
  have x: "?x = (off, snd ?x)" by (simp add: pad_entry_def)
  have "core_inv (B \<union> bytes_of (off, snd ?x)) (add_free_region off sz p ra)"
    "regs (add_free_region off sz p ra) = insert (off, snd ?x) (regs ra)"
    by (rule core_add_free [OF assms(1)];
        use assms b in \<open>simp add: add_free_region_def index_free_def pad_entry_def Let_def\<close>)+
  then show "core_inv (B \<union> {unat off ..< unat off + unat sz}) (add_free_region off sz p ra)"
    "regs (add_free_region off sz p ra) = insert (pad_entry off sz p (ra_next_region_id ra)) (regs ra)"
    using b x by simp_all
qed

lemma add_free_region_frame [simp]:
  "ra_capacity (add_free_region off sz p ra) = ra_capacity ra"
  "ra_live_bytes (add_free_region off sz p ra) = ra_live_bytes ra"
  "ra_live_count (add_free_region off sz p ra) = ra_live_count ra"
  "ra_alloc_offset (add_free_region off sz p ra) = ra_alloc_offset ra"
  by (simp_all add: add_free_region_def index_free_def Let_def)

text \<open>The optional pad of \<open>allocate\<close>: nothing is added when it is empty.\<close>

definition add_pad :: "u64 \<Rightarrow> u64 \<Rightarrow> Provenance \<Rightarrow> RegionAllocator \<Rightarrow> RegionAllocator" where
  "add_pad off sz p ra = (if sz > 0 then add_free_region off sz p ra else ra)"

lemma core_add_pad:
  assumes "core_inv B ra" "{unat off ..< unat off + unat sz} \<inter> B = {}"
  obtains P where "core_inv (B \<union> {unat off ..< unat off + unat sz}) (add_pad off sz p ra)"
    "regs (add_pad off sz p ra) = regs ra \<union> P"
    "\<forall>x\<in>P. \<not> ri_live (snd x) \<and> lo_of x = unat off \<and> hi_of x = unat off + unat sz"
proof (cases "sz = 0")
  case True
  with assms show thesis by (intro that [of "{}"]) (auto simp: add_pad_def)
next
  case False
  with core_add_free_region [OF assms(1) False assms(2)] show thesis
    by (intro that [of "{pad_entry off sz p (ra_next_region_id ra)}"]) (auto simp: add_pad_def u64_pos_iff)
qed

lemma add_pad_frame [simp]:
  "ra_capacity (add_pad off sz p ra) = ra_capacity ra"
  "ra_live_bytes (add_pad off sz p ra) = ra_live_bytes ra"
  "ra_live_count (add_pad off sz p ra) = ra_live_count ra"
  "ra_alloc_offset (add_pad off sz p ra) = ra_alloc_offset ra"
  by (simp_all add: add_pad_def)

lemma live_region_simps [simp]:
  "ri_live (live_region req rid off sz)" "ri_size (live_region req rid off sz) = sz"
  "ri_offset (live_region req rid off sz) = off" "ri_alignment (live_region req rid off sz) = ar_alignment req"
  "ri_alloc_id (live_region req rid off sz) = ar_alloc_id req"
  "ri_alloc_generation (live_region req rid off sz) = ar_alloc_generation req"
  "ri_movability (live_region req rid off sz) = ar_movability req"
  "ri_pin_count (live_region req rid off sz) = 0"
  by (simp_all add: live_region_def RegionInfo_default_def)

text \<open>The set of regions after the split: the free region gives way to its pads and the allocation.\<close>

definition split_ok :: "entry set \<Rightarrow> entry \<Rightarrow> entry \<Rightarrow> entry set \<Rightarrow> bool" where
  "split_ok R fx x R' \<longleftrightarrow> fx \<in> free_entries R \<and> ri_live (snd x) \<and> lo_of fx \<le> lo_of x \<and> hi_of x \<le> hi_of fx \<and>
     (\<exists>pads. R' = (R - {fx}) \<union> pads \<union> {x} \<and>
        (\<forall>p\<in>pads. \<not> ri_live (snd p) \<and>
           (lo_of p = lo_of fx \<and> hi_of p = lo_of x \<or> lo_of p = hi_of x \<and> hi_of p = hi_of fx)))"

text \<open>The chain of map updates in the loop body: erase, pad, allocation, pad.\<close>

lemma core_split_chain:
  fixes k front aligned tail :: u64 and p :: Provenance and req :: AllocRequest
  assumes core: "core_inv B ra" and r: "(k, r) \<in> regs ra" "\<not> ri_live r"
    and nz: "aligned \<noteq> 0" and sum: "unat front + unat aligned + unat tail = unat (ri_size r)"
    and off: "unat (k + front) = unat k + unat front"
    and toff: "unat (k + front + aligned) = unat k + unat front + unat aligned"
  defines "ra2 \<equiv> add_pad k front p (ra\<lparr>ra_regions := om_erase k (ra_regions ra),
             ra_free_slots := os_erase (FreeSlot (ri_size r) k) (ra_free_slots ra)\<rparr>)"
  defines "live \<equiv> live_region req (ra_next_region_id ra2) (k + front) aligned"
  defines "ra4 \<equiv> add_pad (k + front + aligned) tail p (ra2\<lparr>ra_next_region_id := ra_next_region_id ra2 + 1,
             ra_regions := om_emplace (k + front) live (ra_regions ra2)\<rparr>)"
  shows "core_inv B ra4 \<and> split_ok (regs ra) (k, r) (k + front, live) (regs ra4)"
proof -
  let ?F = "unat k" and ?f = "unat front" and ?a = "unat aligned" and ?S = "unat (ri_size r)"
  define ra1 where "ra1 = ra\<lparr>ra_regions := om_erase k (ra_regions ra),
             ra_free_slots := os_erase (FreeSlot (ri_size r) k) (ra_free_slots ra)\<rparr>"
  have sub: "{?F ..< ?F + ?S} \<subseteq> B"
    using layout_bytes [OF core_layout [OF core] r(1)] by (simp add: bytes_of_def)
  have ra1: "core_inv (B - {?F ..< ?F + ?S}) ra1" "regs ra1 = regs ra - {(k, r)}"
    using core_erase_free [OF core r, of ra1] by (simp_all add: ra1_def bytes_of_def)
  have ra2': "ra2 = add_pad k front p ra1" by (simp add: ra2_def ra1_def)
  have d1: "{?F ..< ?F + ?f} \<inter> (B - {?F ..< ?F + ?S}) = {}" using sum by auto
  obtain P where ra2: "core_inv (B - {?F ..< ?F + ?S} \<union> {?F ..< ?F + ?f}) ra2"
    "regs ra2 = regs ra1 \<union> P" "\<forall>x\<in>P. \<not> ri_live (snd x) \<and> lo_of x = ?F \<and> hi_of x = ?F + ?f"
    unfolding ra2' by (rule core_add_pad [OF ra1(1) d1])
  define ra3 where "ra3 = ra2\<lparr>ra_next_region_id := ra_next_region_id ra2 + 1,
      ra_regions := om_emplace (k + front) live (ra_regions ra2)\<rparr>"
  have lb: "bytes_of (k + front, live) = {?F + ?f ..< ?F + ?f + ?a}" by (simp add: bytes_of_def live_def off)
  have ra3: "core_inv (B - {?F ..< ?F + ?S} \<union> {?F ..< ?F + ?f} \<union> {?F + ?f ..< ?F + ?f + ?a}) ra3"
    "regs ra3 = insert (k + front, live) (regs ra2)"
    by (rule core_add_live [OF ra2(1), of live "k + front" ra3, unfolded lb];
        use nz sum in \<open>auto simp: ra3_def live_def\<close>)+
  have e: "?F + ?f + ?a + unat tail = ?F + ?S" using sum by simp
  have ra4': "ra4 = add_pad (k + front + aligned) tail p ra3" by (simp add: ra4_def ra3_def)
  have d3: "{?F + ?f + ?a ..< ?F + ?S} \<inter> (B - {?F ..< ?F + ?S} \<union> {?F ..< ?F + ?f} \<union> {?F + ?f ..< ?F + ?f + ?a}) = {}"
    by auto
  obtain Q where ra4: "core_inv (B - {?F ..< ?F + ?S} \<union> {?F ..< ?F + ?f} \<union> {?F + ?f ..< ?F + ?f + ?a} \<union> {?F + ?f + ?a ..< ?F + ?S}) ra4"
    "regs ra4 = regs ra3 \<union> Q" "\<forall>x\<in>Q. \<not> ri_live (snd x) \<and> lo_of x = ?F + ?f + ?a \<and> hi_of x = ?F + ?S"
    unfolding ra4' using core_add_pad [OF ra3(1), of "k + front + aligned" tail p, unfolded toff e, OF d3] .
  have "B - {?F ..< ?F + ?S} \<union> {?F ..< ?F + ?f} \<union> {?F + ?f ..< ?F + ?f + ?a} \<union> {?F + ?f + ?a ..< ?F + ?S} = B"
    using sub sum by auto
  moreover have "split_ok (regs ra) (k, r) (k + front, live) (regs ra4)"
    unfolding split_ok_def
    by (intro conjI exI [of _ "P \<union> Q"])
       (use r ra1(2) ra2(2,3) ra3(2) ra4(2,3) sum off in \<open>auto simp: free_entries_def live_def\<close>)
  ultimately show ?thesis using ra4(1) by simp
qed

lemma allocate_at_effect:
  assumes inv: "arena_inv ra" and it: "it \<in> set (ra_free_slots ra)" and al: "is_pow2 al"
    and fit: "slot_fits aligned al it" and nz: "aligned \<noteq> 0"
    and front: "front = ra_align_up (fs_offset it) al - fs_offset it"
  obtains ra' frec rid where
    "allocate_at req aligned it front ra = (ra', Ok (live_region req rid (fs_offset it + front) aligned))"
    "core_inv {..<unat (ra_capacity ra)} ra'"
    "split_ok (regs ra) (fs_offset it, frec)
       (fs_offset it + front, live_region req rid (fs_offset it + front) aligned) (regs ra')"
    "unat (fs_offset it + front) = round_up (unat (fs_offset it)) (unat al)"
    "ra_capacity ra' = ra_capacity ra" "ra_live_bytes ra' = ra_live_bytes ra + aligned"
    "ra_live_count ra' = ra_live_count ra + 1"
    "ra_alloc_offset ra' = om_assign (ar_alloc_id req) (fs_offset it + front) (ra_alloc_offset ra)"
    "ra_summary_dirty ra'"
proof -
  from inv it obtain r where r: "(fs_offset it, r) \<in> regs ra" "\<not> ri_live r" "ri_size r = fs_size it"
    and bound: "unat (fs_offset it) + unat (fs_size it) \<le> unat (ra_capacity ra)" by (rule slot_entry)
  let ?k = "fs_offset it"
  define tail where "tail = fs_size it - front - aligned"
  have pos: "0 < unat al" using al by (elim is_pow2_cases) simp
  have ff: "unat ?k + unat front = round_up (unat ?k) (unat al)"
    using front_fits(2) [OF al bound fit] front round_up_ge [OF pos, of "unat ?k"] by simp
  have fS: "unat front + unat aligned \<le> unat (fs_size it)" using fit ff by (simp add: slot_fits_def)
  have c64: "unat (ra_capacity ra) < 2 ^ 64" using unat_lt64 [of "ra_capacity ra"] by simp
  have off: "unat (?k + front) = unat ?k + unat front" using fS bound c64 by (intro unat_add_lt) simp
  have toff: "unat (?k + front + aligned) = unat ?k + unat front + unat aligned"
    using off fS bound c64 by (subst unat_add_lt) simp_all
  have sum: "unat front + unat aligned + unat tail = unat (ri_size r)"
    unfolding tail_def r(3) using fS by (subst unat_sub_le; subst unat_sub_le) auto
  have slot: "FreeSlot (ri_size r) ?k = it" using r(3) by (cases it) simp
  note chain = core_split_chain [OF arena_core [OF inv] r(1,2) nz sum off toff,
      of "ri_provenance r" req, unfolded slot]
  define ra2 where "ra2 = add_pad ?k front (ri_provenance r) (ra\<lparr>ra_regions := om_erase ?k (ra_regions ra),
      ra_free_slots := os_erase it (ra_free_slots ra)\<rparr>)"
  define live where "live = live_region req (ra_next_region_id ra2) (?k + front) aligned"
  define ra4 where "ra4 = add_pad (?k + front + aligned) tail (ri_provenance r)
      (ra2\<lparr>ra_next_region_id := ra_next_region_id ra2 + 1, ra_regions := om_emplace (?k + front) live (ra_regions ra2)\<rparr>)"
  define ra' where "ra' = ra4\<lparr>ra_live_bytes := ra_live_bytes ra4 + aligned, ra_live_count := ra_live_count ra4 + 1,
      ra_alloc_offset := om_assign (ar_alloc_id req) (?k + front) (ra_alloc_offset ra4), ra_summary_dirty := True\<rparr>"
  have step: "core_inv {..<unat (ra_capacity ra)} ra4" "split_ok (regs ra) (?k, r) (?k + front, live) (regs ra4)"
    using chain by (simp_all add: ra4_def ra2_def live_def)
  show thesis
  proof (rule that [of ra' "ra_next_region_id ra2" r])
    show "allocate_at req aligned it front ra =
        (ra', Ok (live_region req (ra_next_region_id ra2) (?k + front) aligned))"
      using core_find [OF arena_core [OF inv], of ?k r] r(1)
      by (simp only: allocate_at_def Let_def ra'_def ra4_def ra2_def live_def tail_def add_pad_def
          option.case simp_thms)
    show "core_inv {..<unat (ra_capacity ra)} ra'"
      using step(1) by (subst core_inv_cong [of _ ra4]) (simp_all add: ra'_def)
  qed (use ff off step(2) in \<open>simp_all add: ra'_def ra4_def ra2_def live_def regs_def\<close>)
qed

lemma size_pos: "layout_ok B R \<Longrightarrow> x \<in> R \<Longrightarrow> 0 < unat (ri_size (snd x))"
  by (simp add: layout_ok_def unat_pos_iff)

lemma split_live:
  assumes "layout_ok B R" "layout_ok B R'" "split_ok R fx x R'"
  shows "live_entries R' = insert x (live_entries R)" "x \<notin> live_entries R"
proof -
  from assms(3) obtain pads where pads: "R' = (R - {fx}) \<union> pads \<union> {x}" "\<forall>p\<in>pads. \<not> ri_live (snd p)"
    and fx: "fx \<in> R" "\<not> ri_live (snd fx)" "ri_live (snd x)" "lo_of fx \<le> lo_of x" "hi_of x \<le> hi_of fx"
    by (auto simp: split_ok_def free_entries_def)
  then show "live_entries R' = insert x (live_entries R)" by (auto simp: live_entries_def)
  show "x \<notin> live_entries R"
  proof
    assume "x \<in> live_entries R"
    then have x: "x \<in> R" by (simp add: live_entries_def)
    moreover have "x \<noteq> fx" using fx by auto
    ultimately show False using layout_sep [OF assms(1) x fx(1)] size_pos [OF assms(1) x] fx by auto
  qed
qed

lemma split_no_adjacent:
  assumes R: "layout_ok B R" and R': "layout_ok B R'" and sp: "split_ok R fx x R'"
    and "no_adjacent_free R"
  shows "no_adjacent_free R'"
  unfolding no_adjacent_free_def
proof (intro ballI notI)
  fix a b assume ab: "a \<in> free_entries R'" "b \<in> free_entries R'" "hi_of a = lo_of b"
  from sp have fx: "fx \<in> R" "fx \<in> free_entries R" and x: "x \<in> R'" "lo_of fx \<le> lo_of x" "hi_of x \<le> hi_of fx"
    by (auto simp: split_ok_def free_entries_def)
  have cases: "(y \<in> free_entries R \<and> (hi_of y \<le> lo_of fx \<or> hi_of fx \<le> lo_of y)) \<or>
      (lo_of y = lo_of fx \<and> hi_of y = lo_of x) \<or> (lo_of y = hi_of x \<and> hi_of y = hi_of fx)"
    if "y \<in> free_entries R'" for y
    using that sp layout_sep [OF R _ fx(1)] unfolding split_ok_def free_entries_def by blast
  have na: "\<And>y z. y \<in> free_entries R \<Longrightarrow> z \<in> free_entries R \<Longrightarrow> hi_of y \<noteq> lo_of z"
    using assms(4) by (auto simp: no_adjacent_free_def)
  have "0 < unat (ri_size (snd a))" "0 < unat (ri_size (snd b))" "0 < unat (ri_size (snd x))"
    using ab x(1) size_pos [OF R'] by (auto simp: free_entries_def)
  then show False using cases [OF ab(1)] cases [OF ab(2)] na [of a b] na [of a fx] na [of fx b] ab(3) fx(2) x
    by linarith
qed

text \<open>The abstract state of the arena: the live region of an allocation id.\<close>

definition arena_live :: "RegionAllocator \<Rightarrow> AllocationId \<Rightarrow> RegionInfo option" where
  "arena_live ra aid = (case om_find (ra_alloc_offset ra) aid of None \<Rightarrow> None
     | Some off \<Rightarrow> om_find (ra_regions ra) off)"

lemma arena_live_iff:
  assumes "arena_inv ra"
  shows "arena_live ra aid = Some r \<longleftrightarrow>
     (ri_offset r, r) \<in> regs ra \<and> ri_live r \<and> ri_alloc_id r = aid"
proof
  assume "arena_live ra aid = Some r"
  then obtain off where off: "om_find (ra_alloc_offset ra) aid = Some off" "om_find (ra_regions ra) off = Some r"
    by (auto simp: arena_live_def split: option.splits)
  then have r: "(off, r) \<in> regs ra" by (simp add: core_find [OF arena_core [OF assms]])
  from off(1) obtain r' where "(off, r') \<in> regs ra" "ri_live r'" "ri_alloc_id r' = aid"
    using assms by (auto simp: arena_inv_def links_ok_def live_entries_def)
  moreover have "r' = r" using layout_key_inject [OF arena_layout [OF assms]] r calculation(1) by fastforce
  ultimately show "(ri_offset r, r) \<in> regs ra \<and> ri_live r \<and> ri_alloc_id r = aid"
    using layout_offset [OF arena_layout [OF assms] r] by simp
next
  assume r: "(ri_offset r, r) \<in> regs ra \<and> ri_live r \<and> ri_alloc_id r = aid"
  then have "om_find (ra_alloc_offset ra) aid = Some (ri_offset r)"
    using assms by (auto simp: arena_inv_def links_ok_def live_entries_def)
  with r show "arena_live ra aid = Some r"
    by (simp add: arena_live_def core_find [OF arena_core [OF assms]])
qed

lemma arena_live_offset:
  "arena_inv ra \<Longrightarrow> om_find (ra_alloc_offset ra) aid = map_option ri_offset (arena_live ra aid)"
proof -
  assume inv: "arena_inv ra"
  show ?thesis
  proof (cases "arena_live ra aid")
    case None
    have "om_find (ra_alloc_offset ra) aid = None"
    proof (rule ccontr)
      assume "om_find (ra_alloc_offset ra) aid \<noteq> None"
      then obtain off where off: "om_find (ra_alloc_offset ra) aid = Some off" by auto
      then obtain r where "(off, r) \<in> regs ra" using inv by (auto simp: arena_inv_def links_ok_def live_entries_def)
      with off None show False by (simp add: arena_live_def core_find [OF arena_core [OF inv], symmetric])
    qed
    with None show ?thesis by simp
  next
    case (Some r)
    then have "(ri_offset r, r) \<in> regs ra \<and> ri_live r \<and> ri_alloc_id r = aid" by (simp add: arena_live_iff inv)
    with inv Some show ?thesis by (auto simp: arena_inv_def links_ok_def live_entries_def)
  qed
qed

lemma arena_live_cases:
  assumes "arena_inv ra"
  obtains (none) "arena_live ra aid = None" "om_find (ra_alloc_offset ra) aid = None"
  | (some) r where "arena_live ra aid = Some r" "om_find (ra_alloc_offset ra) aid = Some (ri_offset r)"
      "om_find (ra_regions ra) (ri_offset r) = Some r" "(ri_offset r, r) \<in> regs ra" "ri_live r"
      "ri_alloc_id r = aid"
proof (cases "arena_live ra aid")
  case None
  then show thesis using none arena_live_offset [OF assms, of aid] by simp
next
  case (Some r)
  then show thesis
    using some [of r] arena_live_offset [OF assms, of aid] arena_live_iff [OF assms, of aid r]
      core_find [OF arena_core [OF assms]] by simp
qed

lemma links_insert:
  assumes "links_ok L m" "om_find m (ri_alloc_id r) = None"
  shows "links_ok (insert (off, r) L) (om_assign (ri_alloc_id r) off m)"
  using assms unfolding links_ok_def
  by (auto simp: om_ok_assign om_find_assign split: if_splits; metis option.distinct(1))

lemma links_remove:
  assumes "links_ok L m" "(off, r) \<in> L" "\<And>r'. (off, r') \<in> L \<Longrightarrow> r' = r"
  shows "links_ok (L - {(off, r)}) (om_erase (ri_alloc_id r) m)"
proof -
  have l: "om_find m aid = Some k \<longleftrightarrow> (\<exists>r. (k, r) \<in> L \<and> ri_alloc_id r = aid)" for aid k
    using assms(1) by (simp add: links_ok_def)
  have "(k, r') = (off, r)" if "(k, r') \<in> L" "ri_alloc_id r' = ri_alloc_id r" for k r'
  proof -
    have "om_find m (ri_alloc_id r) = Some k" "om_find m (ri_alloc_id r) = Some off"
      using l that assms(2) by blast+
    then have "k = off" by simp
    with that(1) assms(3) show ?thesis by simp
  qed
  then have "om_find (om_erase (ri_alloc_id r) m) aid = Some k \<longleftrightarrow>
      (\<exists>r'. (k, r') \<in> L - {(off, r)} \<and> ri_alloc_id r' = aid)" for aid k
    using l [of aid k] by (cases "aid = ri_alloc_id r") (auto simp: om_find_erase)
  then show ?thesis using assms(1) by (simp add: links_ok_def om_ok_erase)
qed

text \<open>Rebuilding the invariant after an operation that leaves the layout well formed.\<close>

lemma live_sum_bound: "layout_ok {..<unat (c :: u64)} R \<Longrightarrow> finite R \<Longrightarrow> live_sum R \<le> unat c"
  using live_sum_free_sum [of "{..<unat c}" R] by simp

lemma arena_inv_split:
  assumes inv: "arena_inv ra" and core: "core_inv {..<unat (ra_capacity ra)} ra'"
    and sp: "split_ok (regs ra) fx (off, live) (regs ra')"
    and al: "is_pow2 (ri_alignment live)" "off mod ri_alignment live = 0"
    and fresh: "arena_live ra (ri_alloc_id live) = None"
    and eqs: "ra_capacity ra' = ra_capacity ra" "ra_live_bytes ra' = ra_live_bytes ra + ri_size live"
      "ra_live_count ra' = ra_live_count ra + 1"
      "ra_alloc_offset ra' = om_assign (ri_alloc_id live) off (ra_alloc_offset ra)" "ra_summary_dirty ra'"
  shows "arena_inv ra'"
proof -
  let ?B = "{..<unat (ra_capacity ra)}"
  have R: "layout_ok ?B (regs ra)" and R': "layout_ok ?B (regs ra')"
    using arena_layout [OF inv] core_layout [OF core] .
  note live = split_live [OF R R' sp]
  have fin: "finite (live_entries (regs ra))" by (simp add: live_entries_def)
  have sum: "live_sum (regs ra') = live_sum (regs ra) + unat (ri_size live)"
    using live fin by (simp add: live_sum_def)
  have card: "card (live_entries (regs ra')) = card (live_entries (regs ra)) + 1"
    using live fin by simp
  have bnd: "live_sum (regs ra') \<le> unat (ra_capacity ra)" by (rule live_sum_bound [OF R' finite_regs])
  have lb: "unat (ra_live_bytes ra') = live_sum (regs ra')"
    using inv bnd sum unfolding eqs by (subst unat_add_le [of _ _ "ra_capacity ra"]) (auto simp: arena_inv_def)
  have cnt: "unat (ra_live_count ra') = card (live_entries (regs ra'))"
    using inv card bnd card_live_le [OF R' finite_regs] unfolding eqs
    by (subst unat_add_le [of _ _ "ra_capacity ra"]) (auto simp: arena_inv_def)
  have "aligned_ok (regs ra')"
    using inv al by (auto simp: aligned_ok_def live(1) arena_inv_def)
  moreover have "links_ok (live_entries (regs ra')) (ra_alloc_offset ra')"
    unfolding live(1) eqs using inv fresh arena_live_offset [OF inv, of "ri_alloc_id live"]
    by (intro links_insert) (simp_all add: arena_inv_def)
  ultimately show ?thesis
    using inv core eqs lb cnt split_no_adjacent [OF R R' sp] by (simp add: arena_inv_def summary_ok_def)
qed

lemma arena_live_view:
  assumes "arena_inv ra"
  shows "arena_live ra aid = Some r \<longleftrightarrow> (ri_offset r, r) \<in> live_entries (regs ra) \<and> ri_alloc_id r = aid"
  by (auto simp: arena_live_iff [OF assms] live_entries_def)

lemma arena_live_eqI:
  assumes "arena_inv ra"
    "\<And>aid r. f aid = Some r \<longleftrightarrow> (ri_offset r, r) \<in> live_entries (regs ra) \<and> ri_alloc_id r = aid"
  shows "arena_live ra = f"
proof
  fix aid
  have "arena_live ra aid = Some r \<longleftrightarrow> f aid = Some r" for r
    using assms(2) arena_live_view [OF assms(1)] by simp
  then show "arena_live ra aid = f aid" by (metis option.exhaust)
qed

lemma arena_live_insert:
  assumes "arena_inv ra" "arena_inv ra'" "arena_live ra (ri_alloc_id r) = None"
    "live_entries (regs ra') = insert (ri_offset r, r) (live_entries (regs ra))"
  shows "arena_live ra' = (arena_live ra)(ri_alloc_id r \<mapsto> r)"
proof (rule arena_live_eqI [OF assms(2)])
  fix aid' r'
  show "((arena_live ra)(ri_alloc_id r \<mapsto> r)) aid' = Some r' \<longleftrightarrow>
      (ri_offset r', r') \<in> live_entries (regs ra') \<and> ri_alloc_id r' = aid'"
    using assms(3,4) arena_live_view [OF assms(1), of aid' r']
    by (cases "aid' = ri_alloc_id r") auto
qed

lemma arena_live_remove:
  assumes "arena_inv ra" "arena_inv ra'" "arena_live ra aid = Some r"
    "live_entries (regs ra') = live_entries (regs ra) - {(ri_offset r, r)}"
  shows "arena_live ra' = (arena_live ra)(aid := None)"
proof (rule arena_live_eqI [OF assms(2)])
  fix aid' r'
  show "((arena_live ra)(aid := None)) aid' = Some r' \<longleftrightarrow>
      (ri_offset r', r') \<in> live_entries (regs ra') \<and> ri_alloc_id r' = aid'"
    using assms(3,4) arena_live_view [OF assms(1), of aid r] arena_live_view [OF assms(1), of aid' r']
    by (cases "aid' = aid") auto
qed

lemma word_mod_eq_0_iff: "(k :: u64) mod a = 0 \<longleftrightarrow> unat a dvd unat k"
  by (simp add: u64_eq_iff unat_mod_distrib dvd_eq_mod_eq_0)

text \<open>The size \<open>allocate\<close> gives a request, and whether some free region can take it.\<close>

definition alloc_size :: "AllocRequest \<Rightarrow> nat" where
  "alloc_size req = round_up (unat (ar_bytes req)) (unat (ar_alignment req))"

definition can_fit :: "RegionAllocator \<Rightarrow> AllocRequest \<Rightarrow> bool" where
  "can_fit ra req \<longleftrightarrow> (\<exists>kv\<in>free_entries (regs ra).
     round_up (lo_of kv) (unat (ar_alignment req)) + alloc_size req \<le> hi_of kv)"

lemma alloc_size_word:
  assumes "is_pow2 (ar_alignment req)" "ar_bytes req \<noteq> 0"
  shows "(let a = ra_align_up (ar_bytes req) (ar_alignment req) in a = 0 \<or> a < ar_bytes req) \<longleftrightarrow> 2 ^ 64 \<le> alloc_size req"
    and "alloc_size req < 2 ^ 64 \<Longrightarrow> unat (ra_align_up (ar_bytes req) (ar_alignment req)) = alloc_size req"
proof -
  let ?b = "unat (ar_bytes req)" and ?al = "unat (ar_alignment req)"
  have pos: "0 < ?al" "0 < ?b" using assms by (auto elim: is_pow2_cases simp: unat_pos_iff)
  have spec: "unat (ra_align_up (ar_bytes req) (ar_alignment req)) =
      (if ?b + (?al - 1) < 2 ^ 64 then alloc_size req else 0)"
    using assms by (simp add: ra_align_up_eq detail_align_up_spec alloc_size_def)
  have ge: "?b \<le> alloc_size req" using round_up_ge [OF pos(1)] by (simp add: alloc_size_def)
  have ov: "\<not> ?b + (?al - 1) < 2 ^ 64 \<Longrightarrow> 2 ^ 64 \<le> alloc_size req"
    using round_up_overflow [OF assms(1)] by (simp add: alloc_size_def)
  have nov: "?b + (?al - 1) < 2 ^ 64 \<Longrightarrow> alloc_size req < 2 ^ 64"
    using spec unat_lt64 [of "ra_align_up (ar_bytes req) (ar_alignment req)"] by simp
  show "(let a = ra_align_up (ar_bytes req) (ar_alignment req) in a = 0 \<or> a < ar_bytes req) \<longleftrightarrow> 2 ^ 64 \<le> alloc_size req"
    using spec ge ov nov pos by (auto simp: Let_def u64_eq_iff gms_word split: if_splits)
  show "alloc_size req < 2 ^ 64 \<Longrightarrow> unat (ra_align_up (ar_bytes req) (ar_alignment req)) = alloc_size req"
    using spec ov by (auto split: if_splits)
qed

text \<open>The decision procedure of \<open>allocate\<close>, in terms of the layout.\<close>

definition alloc_reject :: "RegionAllocator \<Rightarrow> AllocRequest \<Rightarrow> RejectReason option" where
  "alloc_reject ra req =
    (if ar_bytes req = 0 then Some RejectReason.ZERO_BYTES
     else if ar_alignment req = 0 then Some RejectReason.IMPOSSIBLE_ALIGNMENT
     else if \<not> is_pow2 (ar_alignment req) then Some RejectReason.NON_POWER_OF_TWO_ALIGNMENT
     else if ar_bytes req > ra_capacity ra then Some RejectReason.INSUFFICIENT_TOTAL_CAPACITY
     else if 2 ^ 64 \<le> alloc_size req then Some RejectReason.SIZE_OVERFLOW
     else if unat (ra_capacity ra) < alloc_size req then Some RejectReason.INSUFFICIENT_TOTAL_CAPACITY
     else if can_fit ra req then None
     else if unat (free_bytes ra) < alloc_size req then Some RejectReason.INSUFFICIENT_TOTAL_CAPACITY
     else Some RejectReason.INSUFFICIENT_CONTIGUOUS_CAPACITY)"

lemma slot_search:
  assumes inv: "arena_inv ra" and al: "is_pow2 (ar_alignment req)" and a: "unat a = alloc_size req"
    and nz: "a \<noteq> 0"
  defines "found \<equiv> find_slot a (ar_alignment req) (os_lower_bound (FreeSlot a 0) (ra_free_slots ra))"
  shows "found = None \<longleftrightarrow> \<not> can_fit ra req"
    and "found = Some (it, front) \<Longrightarrow> it \<in> set (ra_free_slots ra) \<and> slot_fits a (ar_alignment req) it \<and>
       front = ra_align_up (fs_offset it) (ar_alignment req) - fs_offset it \<and>
       (\<forall>s\<in>set (ra_free_slots ra). slot_fits a (ar_alignment req) s \<longrightarrow> it \<le> s)"
proof -
  let ?al = "ar_alignment req"
  let ?xs = "os_lower_bound (FreeSlot a 0) (ra_free_slots ra)"
  have ok: "os_ok (ra_free_slots ra)" using inv by (simp add: arena_inv_def core_inv_def)
  have xs: "set ?xs = {s \<in> set (ra_free_slots ra). FreeSlot a 0 \<le> s}" by (rule set_os_lower_bound [OF ok])
  have bnd: "\<forall>s\<in>set ?xs. unat (fs_offset s) + unat (fs_size s) \<le> unat (ra_capacity ra)"
    using xs by (intro slots_bounded [OF inv]) auto
  have pos: "0 < unat ?al" using al by (elim is_pow2_cases) simp
  have big: "FreeSlot a 0 \<le> s" if "slot_fits a ?al s" for s
    using that round_up_ge [OF pos, of "unat (fs_offset s)"]
    by (cases s) (auto simp: slot_fits_def less_eq_FreeSlot_def less_FreeSlot_def gms_word u64_eq_iff)
  have fit: "can_fit ra req \<longleftrightarrow> (\<exists>s\<in>set ?xs. slot_fits a ?al s)"
  proof -
    have "can_fit ra req \<longleftrightarrow> (\<exists>s\<in>set (ra_free_slots ra). slot_fits a ?al s)"
      using inv a by (auto simp: can_fit_def slot_fits_def arena_inv_def core_inv_def slot_of_def)
    then show ?thesis using xs big by blast
  qed
  show "found = None \<longleftrightarrow> \<not> can_fit ra req"
  proof
    assume "found = None"
    then show "\<not> can_fit ra req" using find_slot_None [OF _ al bnd] fit by (auto simp: found_def)
  next
    assume n: "\<not> can_fit ra req"
    show "found = None"
    proof (rule ccontr)
      assume "found \<noteq> None"
      then obtain it front where "found = Some (it, front)" by auto
      then show False using find_slot_Some [OF _ al bnd, of a it front] n fit by (auto simp: found_def)
    qed
  qed
  assume "found = Some (it, front)"
  then obtain ys zs where s: "?xs = ys @ it # zs" "slot_fits a ?al it" "\<forall>y\<in>set ys. \<not> slot_fits a ?al y"
    "front = ra_align_up (fs_offset it) ?al - fs_offset it"
    using find_slot_Some [OF _ al bnd, of a it front] by (auto simp: found_def)
  have "it \<le> s" if "s \<in> set (ra_free_slots ra)" "slot_fits a ?al s" for s
  proof -
    have "s \<in> set ?xs" using that xs big by auto
    with s that have "s \<in> set (it # zs)" by auto
    moreover have "os_ok (ys @ it # zs)" using os_ok_lower_bound [OF ok] s(1) by metis
    ultimately show ?thesis by (auto simp: sorted_wrt_append)
  qed
  with s xs show "it \<in> set (ra_free_slots ra) \<and> slot_fits a ?al it \<and>
       front = ra_align_up (fs_offset it) ?al - fs_offset it \<and>
       (\<forall>s\<in>set (ra_free_slots ra). slot_fits a ?al s \<longrightarrow> it \<le> s)" by auto
qed

end
