(* ===== verification/Gms_Region_Alloc.thy ===== *)
theory Gms_Region_Alloc
  imports Gms_Region_Inv
begin

text \<open>
  \<open>allocate\<close> and \<open>free\<close> of the region allocator.  \<open>allocate_success\<close> and \<open>allocate_reject\<close> settle every
  call of \<open>allocate\<close> by the decision \<open>alloc_reject\<close>; \<open>canonicalize_effect\<close> says what
  \<open>canonicalize_free\<close> does to the layout (the interval joined with its free neighbours), from which
  \<open>free_success\<close> and \<open>free_reject\<close> follow.
\<close>

section \<open>allocate\<close>

lemma arena_capacity_bound: "unat (ra_capacity ra) < 2 ^ 64"
  using unat_lt64 [of "ra_capacity ra"] by simp

lemma slot_size_mono: "a \<le> b \<Longrightarrow> fs_size a \<le> fs_size b" for a b :: FreeSlot
  by (auto simp: less_eq_FreeSlot_def less_FreeSlot_def split: if_splits)

text \<open>The counters of an arena with one live region more.\<close>

lemma live_counters:
  assumes "arena_inv ra" "arena_inv ra'" "live_entries (regs ra') = insert x (live_entries (regs ra))" "x \<notin> live_entries (regs ra)"
  shows "unat (ra_live_bytes ra') = unat (ra_live_bytes ra) + unat (ri_size (snd x))" "unat (ra_live_count ra') = unat (ra_live_count ra) + 1"
proof -
  have fin: "finite (live_entries (regs ra))" by (simp add: live_entries_def)
  show "unat (ra_live_bytes ra') = unat (ra_live_bytes ra) + unat (ri_size (snd x))" "unat (ra_live_count ra') = unat (ra_live_count ra) + 1"
    using assms fin by (simp_all add: arena_inv_def live_sum_def)
qed

text \<open>The slot that the scan finds is no larger than any other that would do.\<close>

lemma found_slot_least:
  assumes inv: "arena_inv ra" and it: "it \<in> set (ra_free_slots ra)" and fr: "(fs_offset it, frec) \<in> regs ra"
    and least: "\<forall>x\<in>set (ra_free_slots ra). slot_fits a al x \<longrightarrow> it \<le> x"
    and kv: "kv \<in> free_entries (regs ra)" and fits: "slot_fits a al (slot_of kv)"
  shows "ri_size frec \<le> ri_size (snd kv)"
proof -
  obtain r where r: "(fs_offset it, r) \<in> regs ra" "ri_size r = fs_size it" using slot_entry [OF inv it] by blast
  have "ri_size frec = fs_size it" using layout_key_inject [OF arena_layout [OF inv] fr r(1)] r(2) by simp
  moreover have "slot_of kv \<in> set (ra_free_slots ra)" using inv kv by (simp add: arena_inv_def core_inv_def)
  ultimately show ?thesis using least fits slot_size_mono [of it "slot_of kv"] by (simp add: slot_of_def)
qed

text \<open>
  A request that fits, whether or not its identity is in use: a free region is cut, and the live regions and counters grow by the
  new one.
\<close>

lemma allocate_effect:
  assumes inv: "arena_inv ra" and none: "alloc_reject ra req = None"
  obtains ra' fx rid off where
    "arena_allocate ra req = (ra', Ok (live_region req rid off (of_nat (alloc_size req))))"
    "core_inv {..<unat (ra_capacity ra)} ra'"
    "split_ok (regs ra) fx (off, live_region req rid off (of_nat (alloc_size req))) (regs ra')"
    "unat off = round_up (lo_of fx) (unat (ar_alignment req))"
    "\<forall>kv\<in>free_entries (regs ra). round_up (lo_of kv) (unat (ar_alignment req)) + alloc_size req \<le> hi_of kv
       \<longrightarrow> ri_size (snd fx) \<le> ri_size (snd kv)"
    "ra_capacity ra' = ra_capacity ra" "ra_live_bytes ra' = ra_live_bytes ra + of_nat (alloc_size req)" "ra_live_count ra' = ra_live_count ra + 1"
    "ra_alloc_offset ra' = om_assign (ar_alloc_id req) off (ra_alloc_offset ra)" "ra_summary_dirty ra'"
    "is_pow2 (ar_alignment req)" "alloc_size req < 2 ^ 64"
proof -
  let ?al = "ar_alignment req"
  let ?a = "ra_align_up (ar_bytes req) ?al"
  have chk: "ar_bytes req \<noteq> 0" "is_pow2 ?al" "\<not> ar_bytes req > ra_capacity ra" "alloc_size req < 2 ^ 64"
    "alloc_size req \<le> unat (ra_capacity ra)" "can_fit ra req" "?al \<noteq> 0"
    using none by (auto simp: alloc_reject_def split: if_splits)
  have a: "unat ?a = alloc_size req" and ok: "\<not> (?a = 0 \<or> ?a < ar_bytes req)"
    using alloc_size_word [OF chk(2,1)] chk(4) by (simp_all add: Let_def)
  have nz: "?a \<noteq> 0" using ok by simp
  have a': "of_nat (alloc_size req) = ?a" by (simp add: a [symmetric])
  note search = slot_search [OF inv chk(2) a nz]
  from search(1) chk(6) obtain it front where
    found: "find_slot ?a ?al (os_lower_bound (FreeSlot ?a 0) (ra_free_slots ra)) = Some (it, front)"
    by (metis not_None_eq surj_pair)
  note s = search(2) [OF found]
  from s obtain ra' frec rid where step:
    "allocate_at req ?a it front ra = (ra', Ok (live_region req rid (fs_offset it + front) ?a))"
    "core_inv {..<unat (ra_capacity ra)} ra'"
    "split_ok (regs ra) (fs_offset it, frec)
       (fs_offset it + front, live_region req rid (fs_offset it + front) ?a) (regs ra')"
    "unat (fs_offset it + front) = round_up (unat (fs_offset it)) (unat ?al)"
    "ra_capacity ra' = ra_capacity ra" "ra_live_bytes ra' = ra_live_bytes ra + ?a"
    "ra_live_count ra' = ra_live_count ra + 1"
    "ra_alloc_offset ra' = om_assign (ar_alloc_id req) (fs_offset it + front) (ra_alloc_offset ra)"
    "ra_summary_dirty ra'"
    using allocate_at_effect [OF inv _ chk(2) _ nz, of it front req] by metis
  show thesis
  proof (rule that [of ra' rid "fs_offset it + front" "(fs_offset it, frec)"])
    show "arena_allocate ra req = (ra', Ok (live_region req rid (fs_offset it + front) (of_nat (alloc_size req))))"
      using chk ok found step(1) a a' by (simp add: arena_allocate_def Let_def not_less gms_word)
    have fr: "(fs_offset it, frec) \<in> regs ra" using step(3) by (simp add: split_ok_def free_entries_def)
    show "\<forall>kv\<in>free_entries (regs ra). round_up (lo_of kv) (unat ?al) + alloc_size req \<le> hi_of kv
       \<longrightarrow> ri_size (snd (fs_offset it, frec)) \<le> ri_size (snd kv)"
    proof (intro ballI impI)
      fix kv assume kv: "kv \<in> free_entries (regs ra)" "round_up (lo_of kv) (unat ?al) + alloc_size req \<le> hi_of kv"
      then have "slot_fits ?a ?al (slot_of kv)" using a by (simp add: slot_fits_def slot_of_def)
      then show "ri_size (snd (fs_offset it, frec)) \<le> ri_size (snd kv)"
        using found_slot_least [OF inv _ fr _ kv(1), of ?a ?al] s by simp
    qed
  qed (use step a' chk(2,4) in simp_all)
qed

text \<open>With an identity that is not in use, the arena stays well formed.\<close>

lemma allocate_success:
  assumes inv: "arena_inv ra" and none: "alloc_reject ra req = None"
    and fresh: "arena_live ra (ar_alloc_id req) = None"
  obtains ra' fx rid off where
    "arena_allocate ra req = (ra', Ok (live_region req rid off (of_nat (alloc_size req))))"
    "arena_inv ra'"
    "split_ok (regs ra) fx (off, live_region req rid off (of_nat (alloc_size req))) (regs ra')"
    "unat off = round_up (lo_of fx) (unat (ar_alignment req))"
    "\<forall>kv\<in>free_entries (regs ra). round_up (lo_of kv) (unat (ar_alignment req)) + alloc_size req \<le> hi_of kv
       \<longrightarrow> ri_size (snd fx) \<le> ri_size (snd kv)"
    "ra_capacity ra' = ra_capacity ra" "unat (ra_live_bytes ra') = unat (ra_live_bytes ra) + alloc_size req"
    "unat (ra_live_count ra') = unat (ra_live_count ra) + 1"
proof -
  from inv none obtain ra' fx rid off where step:
    "arena_allocate ra req = (ra', Ok (live_region req rid off (of_nat (alloc_size req))))"
    "core_inv {..<unat (ra_capacity ra)} ra'"
    "split_ok (regs ra) fx (off, live_region req rid off (of_nat (alloc_size req))) (regs ra')"
    "unat off = round_up (lo_of fx) (unat (ar_alignment req))"
    "\<forall>kv\<in>free_entries (regs ra). round_up (lo_of kv) (unat (ar_alignment req)) + alloc_size req \<le> hi_of kv
       \<longrightarrow> ri_size (snd fx) \<le> ri_size (snd kv)"
    "ra_capacity ra' = ra_capacity ra" "ra_live_bytes ra' = ra_live_bytes ra + of_nat (alloc_size req)" "ra_live_count ra' = ra_live_count ra + 1"
    "ra_alloc_offset ra' = om_assign (ar_alloc_id req) off (ra_alloc_offset ra)" "ra_summary_dirty ra'"
    "is_pow2 (ar_alignment req)" "alloc_size req < 2 ^ 64"
    by (rule allocate_effect)
  have inv': "arena_inv ra'"
    using inv step(2,3) by (rule arena_inv_split) (use step fresh in \<open>simp_all add: word_mod_eq_0_iff\<close>)
  have lv: "live_entries (regs ra') = insert (off, live_region req rid off (of_nat (alloc_size req))) (live_entries (regs ra))"
    "(off, live_region req rid off (of_nat (alloc_size req))) \<notin> live_entries (regs ra)"
    using split_live [OF arena_layout [OF inv] _ step(3)] arena_layout [OF inv'] step(6) by auto
  show thesis
    using that [OF step(1) inv' step(3-6)] live_counters [OF inv inv' lv] step(12) by (simp add: unat_of_nat)
qed

lemma allocate_reject:
  assumes inv: "arena_inv ra" and rej: "alloc_reject ra req = Some why"
  shows "\<exists>msg. arena_allocate ra req = (ra, Err (Failure why msg))"
proof (cases "ar_bytes req = 0 \<or> ar_alignment req = 0 \<or> \<not> is_pow2 (ar_alignment req) \<or> ra_capacity ra < ar_bytes req")
  case True
  with rej show ?thesis by (auto simp: alloc_reject_def arena_allocate_def split: if_splits)
next
  case False
  let ?a = "ra_align_up (ar_bytes req) (ar_alignment req)"
  from False have chk: "ar_bytes req \<noteq> 0" "is_pow2 (ar_alignment req)" by auto
  note w = alloc_size_word [OF chk(2,1)]
  show ?thesis
  proof (cases "2 ^ 64 \<le> alloc_size req \<or> unat (ra_capacity ra) < alloc_size req")
    case True
    then show ?thesis using False rej w arena_capacity_bound [of ra]
      by (auto simp: alloc_reject_def arena_allocate_def Let_def gms_word)
  next
    case small: False
    with w have a: "unat ?a = alloc_size req" "\<not> (?a = 0 \<or> ?a < ar_bytes req)" by (auto simp: Let_def)
    with rej False small have "\<not> can_fit ra req" by (auto simp: alloc_reject_def split: if_splits)
    then have "find_slot ?a (ar_alignment req) (os_lower_bound (FreeSlot ?a 0) (ra_free_slots ra)) = None"
      using slot_search(1) [OF inv chk(2) a(1)] a(2) by auto
    then show ?thesis using False small rej a \<open>\<not> can_fit ra req\<close>
      by (auto simp: alloc_reject_def arena_allocate_def Let_def gms_word)
  qed
qed

section \<open>free\<close>

text \<open>The two merges of \<open>canonicalize_free\<close>, with the neighbour before and after the interval.\<close>

definition merge_prev :: "u64 \<Rightarrow> RegionAllocator \<Rightarrow> RegionAllocator \<times> u64" where
  "merge_prev off ra =
     (if om_before off (ra_regions ra) \<noteq> [] then
        let (pk, pr) = last (om_before off (ra_regions ra)) in
        if \<not> ri_live pr \<and> pk + ri_size pr = off
        then ((unindex_free pk (ri_size pr) ra)\<lparr>ra_regions := om_erase pk (ra_regions ra)\<rparr>, pk)
        else (ra, off)
      else (ra, off))"

definition merge_next :: "u64 \<Rightarrow> u64 \<Rightarrow> RegionAllocator \<Rightarrow> RegionAllocator \<times> u64" where
  "merge_next off sz ra =
     (case om_lower_bound off (ra_regions ra) of
        [] \<Rightarrow> (ra, off + sz)
      | (nk, nr) # _ \<Rightarrow>
          if \<not> ri_live nr \<and> nk = off + sz
          then ((unindex_free nk (ri_size nr) ra)\<lparr>ra_regions := om_erase nk (ra_regions ra)\<rparr>,
                nk + ri_size nr)
          else (ra, off + sz))"

definition ending_at :: "nat \<Rightarrow> entry set \<Rightarrow> entry set" where
  "ending_at n R = {x \<in> free_entries R. hi_of x = n}"

definition starting_at :: "nat \<Rightarrow> entry set \<Rightarrow> entry set" where
  "starting_at n R = {x \<in> free_entries R. lo_of x = n}"

lemma core_om_ok: "core_inv B ra \<Longrightarrow> om_ok (ra_regions ra)"
  by (simp add: core_inv_def)

text \<open>The predecessor in the map is the region that ends at \<open>off\<close>, if there is one.\<close>

lemma last_before:
  assumes core: "core_inv B ra" and x: "x \<in> regs ra" "hi_of x = unat off"
  shows "om_before off (ra_regions ra) \<noteq> []" "last (om_before off (ra_regions ra)) = x"
proof -
  let ?b = "om_before off (ra_regions ra)"
  have xb: "x \<in> set ?b"
    using x size_pos [OF core_layout [OF core] x(1)] core_om_ok [OF core]
    by (simp add: set_om_before regs_def gms_word)
  then show ne: "?b \<noteq> []" by auto
  then have "last ?b \<in> set ?b" by simp
  then have y: "last ?b \<in> regs ra" "lo_of (last ?b) < unat off"
    using core_om_ok [OF core] by (auto simp: set_om_before regs_def gms_word)
  have "lo_of x \<le> lo_of (last ?b)"
    using om_last_greatest [OF om_ok_before [OF core_om_ok [OF core]] xb] by (simp add: gms_word)
  then show "last ?b = x"
    using layout_sep [OF core_layout [OF core] x(1) y(1)] y(2) x(2) size_pos [OF core_layout [OF core] y(1)]
    by fastforce
qed

lemma hd_lower_bound:
  assumes core: "core_inv B ra" and x: "x \<in> regs ra" "lo_of x = unat off + unat sz"
    and gap: "{unat off ..< unat off + unat sz} \<inter> B = {}"
  obtains m where "om_lower_bound off (ra_regions ra) = x # m"
proof -
  let ?b = "om_lower_bound off (ra_regions ra)"
  have ok: "om_ok (ra_regions ra)" by (rule core_om_ok [OF core])
  have xb: "x \<in> set ?b"
    using x ok by (simp add: set_om_lower_bound regs_def gms_word)
  then obtain y m where ym: "?b = y # m" by (cases ?b) auto
  then have y: "y \<in> regs ra" "unat off \<le> lo_of y"
    using ok set_om_lower_bound [OF ok, of off] by (auto simp: regs_def gms_word)
  have "lo_of y \<in> B"
    using layout_bytes [OF core_layout [OF core] y(1)] size_pos [OF core_layout [OF core] y(1)]
    by (auto simp: bytes_of_def)
  with gap y(2) have "unat off + unat sz \<le> lo_of y" by (auto simp: disjoint_iff)
  moreover have "lo_of y \<le> lo_of x"
    using om_hd_least [OF om_ok_lower_bound [OF ok] xb] ym by (simp add: gms_word)
  ultimately have "fst y = fst x" using x(2) by (simp add: u64_eq_iff)
  then have "y = x" using layout_key_inject [OF core_layout [OF core] y(1) x(1)] by simp
  with ym that show thesis by simp
qed

definition same_frame :: "RegionAllocator \<Rightarrow> RegionAllocator \<Rightarrow> bool" where
  "same_frame a b \<longleftrightarrow> ra_capacity a = ra_capacity b \<and> ra_live_bytes a = ra_live_bytes b \<and>
     ra_live_count a = ra_live_count b \<and> ra_alloc_offset a = ra_alloc_offset b"

lemma same_frame_refl [simp]: "same_frame ra ra"
  by (simp add: same_frame_def)

lemma layout_end:
  assumes "layout_ok B R" "B \<subseteq> {..<unat (c :: u64)}" "x \<in> R"
  shows "hi_of x \<le> unat c" "unat (fst x + ri_size (snd x)) = hi_of x"
proof -
  have "hi_of x - 1 \<in> bytes_of x" using size_pos [OF assms(1,3)] by (auto simp: bytes_of_def)
  with layout_bytes [OF assms(1,3)] assms(2) size_pos [OF assms(1,3)] show "hi_of x \<le> unat c" by auto
  then show "unat (fst x + ri_size (snd x)) = hi_of x" by (rule unat_add_le)
qed

lemma set_single: "a \<in> S \<Longrightarrow> (\<And>y. y \<in> S \<Longrightarrow> y = b) \<Longrightarrow> S = {a}"
  by blast

lemma merge_prev_effect:
  assumes core: "core_inv B ra" and B: "B \<subseteq> {..<unat (c :: u64)}"
  obtains ra1 lo where "merge_prev off ra = (ra1, lo)" "core_inv (B - {unat lo ..< unat off}) ra1"
    "regs ra1 = regs ra - ending_at (unat off) (regs ra)" "{unat lo ..< unat off} \<subseteq> B"
    "unat lo \<le> unat off" "\<forall>x\<in>ending_at (unat off) (regs ra). fst x = lo"
    "ending_at (unat off) (regs ra) = {} \<longrightarrow> lo = off" "same_frame ra1 ra"
proof (cases "ending_at (unat off) (regs ra) = {}")
  case True
  have "merge_prev off ra = (ra, off)"
  proof (cases "om_before off (ra_regions ra) \<noteq> [] \<and> \<not> ri_live (snd (last (om_before off (ra_regions ra))))")
    case ne: True
    let ?y = "last (om_before off (ra_regions ra))"
    have "?y \<in> set (om_before off (ra_regions ra))" using ne by simp
    then have y: "?y \<in> regs ra" using set_om_before [OF core_om_ok [OF core], of off] by (auto simp: regs_def)
    have "hi_of ?y \<noteq> unat off"
    proof
      assume "hi_of ?y = unat off"
      with y ne have "?y \<in> ending_at (unat off) (regs ra)" by (simp add: ending_at_def free_entries_def)
      with True show False by simp
    qed
    then have "fst ?y + ri_size (snd ?y) \<noteq> off" using layout_end(2) [OF core_layout [OF core] B y] by metis
    then show ?thesis by (auto simp: merge_prev_def split: prod.splits)
  qed (auto simp: merge_prev_def split: prod.splits)
  with True core show thesis by (intro that [of ra off]) auto
next
  case False
  then obtain k r where x: "(k, r) \<in> regs ra" "\<not> ri_live r" "unat k + unat (ri_size r) = unat off"
    by (auto simp: ending_at_def free_entries_def)
  have e: "k + ri_size r = off"
    using layout_end(2) [OF core_layout [OF core] B x(1)] x(3) by (simp add: u64_eq_iff)
  have u: "y = last (om_before off (ra_regions ra))" if "y \<in> ending_at (unat off) (regs ra)" for y
    using that last_before(2) [OF core, of y off] by (simp add: ending_at_def free_entries_def)
  have one: "ending_at (unat off) (regs ra) = {(k, r)}"
    by (rule set_single [OF _ u]) (use x in \<open>simp_all add: ending_at_def free_entries_def\<close>)
  let ?ra1 = "(unindex_free k (ri_size r) ra)\<lparr>ra_regions := om_erase k (ra_regions ra)\<rparr>"
  have m: "merge_prev off ra = (?ra1, k)"
    using last_before [OF core x(1), of off] x e by (simp add: merge_prev_def)
  have "bytes_of (k, r) = {unat k ..< unat off}" using x(3) by (simp add: bytes_of_def)
  with core_erase_free [OF core x(1,2), of ?ra1] m one x layout_bytes [OF core_layout [OF core] x(1)]
  show thesis by (intro that [of ?ra1 k]) (simp_all add: unindex_free_def same_frame_def)
qed

lemma merge_next_effect:
  assumes core: "core_inv B ra" and B: "B \<subseteq> {..<unat (c :: u64)}"
    and gap: "{unat off ..< unat off + unat sz} \<inter> B = {}" and e: "unat (off + sz) = unat off + unat sz"
  obtains ra1 hi where "merge_next off sz ra = (ra1, hi)" "core_inv (B - {unat off + unat sz ..< unat hi}) ra1"
    "regs ra1 = regs ra - starting_at (unat off + unat sz) (regs ra)"
    "{unat off + unat sz ..< unat hi} \<subseteq> B" "unat off + unat sz \<le> unat hi"
    "\<forall>x\<in>starting_at (unat off + unat sz) (regs ra). hi_of x = unat hi"
    "starting_at (unat off + unat sz) (regs ra) = {} \<longrightarrow> hi = off + sz" "same_frame ra1 ra"
proof (cases "starting_at (unat off + unat sz) (regs ra) = {}")
  case True
  have "merge_next off sz ra = (ra, off + sz)"
  proof (cases "om_lower_bound off (ra_regions ra)")
    case (Cons y m)
    obtain nk nr where y: "y = (nk, nr)" by (cases y)
    have "y \<in> set (om_lower_bound off (ra_regions ra))" using Cons by simp
    then have yr: "(nk, nr) \<in> regs ra" using y core_om_ok [OF core] by (simp add: set_om_lower_bound regs_def)
    have "\<not> (\<not> ri_live nr \<and> nk = off + sz)"
    proof
      assume "\<not> ri_live nr \<and> nk = off + sz"
      with yr e have "(nk, nr) \<in> starting_at (unat off + unat sz) (regs ra)"
        by (simp add: starting_at_def free_entries_def)
      with True show False by simp
    qed
    then show ?thesis using Cons y by (auto simp: merge_next_def)
  qed (simp add: merge_next_def)
  with True core e show thesis by (intro that [of ra "off + sz"]) auto
next
  case False
  then obtain k r where x: "(k, r) \<in> regs ra" "\<not> ri_live r" "unat k = unat off + unat sz"
    by (auto simp: starting_at_def free_entries_def)
  have k: "k = off + sz" using x(3) e by (simp add: u64_eq_iff)
  have one: "starting_at (unat off + unat sz) (regs ra) = {(k, r)}"
  proof (rule set_single)
    show "(k, r) \<in> starting_at (unat off + unat sz) (regs ra)" using x by (simp add: starting_at_def free_entries_def)
    show "y = (k, r)" if "y \<in> starting_at (unat off + unat sz) (regs ra)" for y
      using that x layout_key_inject [OF core_layout [OF core] _ x(1), of y]
      by (simp add: starting_at_def free_entries_def u64_eq_iff)
  qed
  let ?ra1 = "(unindex_free k (ri_size r) ra)\<lparr>ra_regions := om_erase k (ra_regions ra)\<rparr>"
  obtain m where "om_lower_bound off (ra_regions ra) = (k, r) # m"
    by (rule hd_lower_bound [OF core x(1) _ gap]) (use x(3) in simp)
  then have m: "merge_next off sz ra = (?ra1, k + ri_size r)" using x k by (simp add: merge_next_def)
  have hi: "unat (k + ri_size r) = unat k + unat (ri_size r)"
    using layout_end(2) [OF core_layout [OF core] B x(1)] by simp
  have b: "bytes_of (k, r) = {unat off + unat sz ..< unat (k + ri_size r)}" using x(3) hi by (simp add: bytes_of_def)
  show thesis
    using core_erase_free [OF core x(1,2), of ?ra1] m one x b hi layout_bytes [OF core_layout [OF core] x(1)]
    by (intro that [of ?ra1 "k + ri_size r"]) (simp_all add: unindex_free_def same_frame_def)
qed

text \<open>The interval joined with its free neighbours.\<close>

definition join_ok :: "entry set \<Rightarrow> nat \<Rightarrow> nat \<Rightarrow> entry \<Rightarrow> entry set \<Rightarrow> bool" where
  "join_ok R lo hi x R' \<longleftrightarrow> \<not> ri_live (snd x) \<and> R' = insert x (R - (ending_at lo R \<union> starting_at hi R)) \<and>
     lo_of x \<le> lo \<and> hi \<le> hi_of x \<and>
     (\<forall>y\<in>ending_at lo R. lo_of y = lo_of x) \<and> (ending_at lo R = {} \<longrightarrow> lo_of x = lo) \<and>
     (\<forall>y\<in>starting_at hi R. hi_of y = hi_of x) \<and> (starting_at hi R = {} \<longrightarrow> hi_of x = hi)"

lemma canonicalize_free_merges:
  "sz \<noteq> 0 \<Longrightarrow> unat off + unat sz \<le> unat (ra_capacity ra) \<Longrightarrow>
   canonicalize_free off sz ra =
     (let (ra1, lo) = merge_prev off ra; (ra2, hi) = merge_next off sz ra1;
          f = snd (pad_entry lo (hi - lo) Provenance.DERIVED (ra_next_region_id ra2));
          ra3 = ra2\<lparr>ra_next_region_id := ra_next_region_id ra2 + 1, ra_regions := om_emplace lo f (ra_regions ra2)\<rparr>
      in ((index_free lo (hi - lo) ra3)\<lparr>ra_summary_dirty := True\<rparr>, Ok f))"
proof -
  assume nz: "sz \<noteq> 0" and cap: "unat off + unat sz \<le> unat (ra_capacity ra)"
  then have "unat (ra_capacity ra - off) = unat (ra_capacity ra) - unat off" by (simp add: unat_sub_le)
  with cap have "(off > ra_capacity ra \<or> sz > ra_capacity ra - off) = False" by (auto simp: gms_word)
  with nz show ?thesis
    by (simp only: canonicalize_free_def merge_prev_def merge_next_def pad_entry_def snd_conv if_False)
qed

lemma interval_join:
  fixes a b c d :: nat
  assumes "{a..<b} \<subseteq> B" "{c..<d} \<subseteq> B" "a \<le> b" "b \<le> c" "c \<le> d"
  shows "B - {a..<b} - {c..<d} \<union> {a..<d} = B \<union> {b..<c}"
proof -
  have "{a..<d} = {a..<b} \<union> {b..<c} \<union> {c..<d}" using assms(3-5) by auto
  with assms(1,2) show ?thesis by blast
qed

lemma canonicalize_effect:
  assumes core: "core_inv B ra" and B: "B \<subseteq> {..<unat (ra_capacity ra)}"
    and gap: "{unat off ..< unat off + unat sz} \<inter> B = {}" and nz: "sz \<noteq> 0"
    and cap: "unat off + unat sz \<le> unat (ra_capacity ra)"
  obtains ra' lo f where "canonicalize_free off sz ra = (ra', Ok f)"
    "core_inv (B \<union> {unat off ..< unat off + unat sz}) ra'"
    "join_ok (regs ra) (unat off) (unat off + unat sz) (lo, f) (regs ra')"
    "same_frame ra' ra" "ra_summary_dirty ra'"
proof -
  have e: "unat (off + sz) = unat off + unat sz" by (rule unat_add_le [OF cap])
  let ?E = "ending_at (unat off) (regs ra)" and ?S = "starting_at (unat off + unat sz) (regs ra)"
  obtain ra1 lo where p: "merge_prev off ra = (ra1, lo)" "core_inv (B - {unat lo ..< unat off}) ra1"
    "regs ra1 = regs ra - ?E" "{unat lo ..< unat off} \<subseteq> B" "unat lo \<le> unat off" "\<forall>x\<in>?E. fst x = lo"
    "?E = {} \<longrightarrow> lo = off" "same_frame ra1 ra" by (rule merge_prev_effect [OF core B])
  have S1: "starting_at (unat off + unat sz) (regs ra1) = ?S"
  proof -
    have "x \<notin> ?E" if "lo_of x = unat off + unat sz" for x
      using that p(5,6) nz by (metis add_le_same_cancel1 le_zero_eq unat_eq_zero)
    then show ?thesis unfolding p(3) by (auto simp: starting_at_def free_entries_def)
  qed
  have B1: "B - {unat lo ..< unat off} \<subseteq> {..<unat (ra_capacity ra)}"
    and gap1: "{unat off ..< unat off + unat sz} \<inter> (B - {unat lo ..< unat off}) = {}" using B gap by auto
  obtain ra2 hi where n: "merge_next off sz ra1 = (ra2, hi)"
    "core_inv (B - {unat lo ..< unat off} - {unat off + unat sz ..< unat hi}) ra2" "regs ra2 = regs ra1 - ?S"
    "{unat off + unat sz ..< unat hi} \<subseteq> B - {unat lo ..< unat off}" "unat off + unat sz \<le> unat hi"
    "\<forall>x\<in>?S. hi_of x = unat hi" "?S = {} \<longrightarrow> hi = off + sz" "same_frame ra2 ra1"
    by (rule merge_next_effect [OF p(2) B1 gap1 e, unfolded S1])
  let ?x = "pad_entry lo (hi - lo) Provenance.DERIVED (ra_next_region_id ra2)"
  let ?ra' = "(index_free lo (hi - lo) (ra2\<lparr>ra_next_region_id := ra_next_region_id ra2 + 1,
      ra_regions := om_emplace lo (snd ?x) (ra_regions ra2)\<rparr>))\<lparr>ra_summary_dirty := True\<rparr>"
  have d: "unat (hi - lo) = unat hi - unat lo" using p(5) n(5) by (simp add: unat_sub_le)
  have b: "bytes_of (lo, snd ?x) = {unat lo ..< unat hi}" using d p(5) n(5) by (simp add: bytes_of_def)
  have res: "canonicalize_free off sz ra = (?ra', Ok (snd ?x))"
    using p(1) n(1) by (simp add: canonicalize_free_merges [OF nz cap] Let_def)
  have nz': "hi - lo \<noteq> 0" using d p(5) n(5) nz by (simp add: u64_eq_iff)
  have gap': "{unat lo ..< unat hi} \<inter> (B - {unat lo ..< unat off} - {unat off + unat sz ..< unat hi}) = {}"
    using gap by (auto simp: disjoint_iff; meson not_le)
  have c: "core_inv (B - {unat lo ..< unat off} - {unat off + unat sz ..< unat hi} \<union> {unat lo ..< unat hi}) ?ra'"
    "regs ?ra' = insert (lo, snd ?x) (regs ra2)"
    by (rule core_add_free [OF n(2), of "snd ?x" lo ?ra', unfolded b];
        use nz' gap' in \<open>simp add: index_free_def\<close>)+
  have "B - {unat lo ..< unat off} - {unat off + unat sz ..< unat hi} \<union> {unat lo ..< unat hi} =
      B \<union> {unat off ..< unat off + unat sz}" using p(4,5) n(4,5) by (intro interval_join) auto
  moreover have "join_ok (regs ra) (unat off) (unat off + unat sz) (lo, snd ?x) (regs ?ra')"
    unfolding join_ok_def c(2) n(3) p(3) using p(5-7) n(5-7) d e by auto
  ultimately show thesis using c(1) res p(8) n(8)
    by (intro that [of ?ra' "snd ?x" lo]) (simp_all add: same_frame_def index_free_def)
qed

text \<open>Joining keeps the live regions, and leaves no adjacent free regions.\<close>

lemma join_live: "join_ok R lo hi x R' \<Longrightarrow> live_entries R' = live_entries R"
  by (auto simp: join_ok_def live_entries_def ending_at_def starting_at_def free_entries_def)

lemma join_no_adjacent:
  assumes R: "layout_ok B R" and j: "join_ok R lo hi x R'" and na: "no_adjacent_free R" and lt: "lo < hi"
  shows "no_adjacent_free R'"
  unfolding no_adjacent_free_def
proof (intro ballI notI)
  fix a b assume ab: "a \<in> free_entries R'" "b \<in> free_entries R'" "hi_of a = lo_of b"
  have old: "y \<in> free_entries R \<and> hi_of y \<noteq> lo \<and> lo_of y \<noteq> hi" if "y \<in> free_entries R'" "y \<noteq> x" for y
    using that j by (auto simp: join_ok_def free_entries_def ending_at_def starting_at_def)
  have no: "hi_of y \<noteq> lo_of z" if "y \<in> free_entries R" "z \<in> free_entries R" for y z
    using na that by (simp add: no_adjacent_free_def)
  have xl: "lo_of x = lo \<or> (\<exists>y\<in>free_entries R. lo_of y = lo_of x)"
    and xh: "hi_of x = hi \<or> (\<exists>y\<in>free_entries R. hi_of y = hi_of x)"
    and x: "lo_of x \<le> lo" "hi \<le> hi_of x"
    using j unfolding join_ok_def ending_at_def starting_at_def by blast+
  consider "a = x" "b = x" | "a = x" "b \<noteq> x" | "a \<noteq> x" "b = x" | "a \<noteq> x" "b \<noteq> x" by blast
  then show False
  proof cases
    case 1 then show False using ab(3) x lt by simp
  next
    case 2 then show False using old [OF ab(2)] xh no [of _ b] ab(3) by fastforce
  next
    case 3 then show False using old [OF ab(1)] xl no [of a] ab(3) by fastforce
  next
    case 4 then show False using old [OF ab(1)] old [OF ab(2)] no ab(3) by blast
  qed
qed

text \<open>\<open>free\<close> on the region of a current handle.\<close>

lemma arena_entry:
  assumes "arena_inv ra" "arena_live ra aid = Some r"
  shows "(ri_offset r, r) \<in> regs ra" "ri_live r" "ri_alloc_id r = aid" "ri_size r \<noteq> 0"
    "unat (ri_offset r) + unat (ri_size r) \<le> unat (ra_capacity ra)"
    "om_find (ra_alloc_offset ra) aid = Some (ri_offset r)" "om_find (ra_regions ra) (ri_offset r) = Some r"
proof -
  show e: "(ri_offset r, r) \<in> regs ra" and "ri_live r" "ri_alloc_id r = aid"
    using assms arena_live_iff by blast+
  show "ri_size r \<noteq> 0" using layout_size [OF arena_layout [OF assms(1)] e] .
  show "unat (ri_offset r) + unat (ri_size r) \<le> unat (ra_capacity ra)"
    using layout_hi_le [OF arena_layout [OF assms(1)] e] by simp
  show "om_find (ra_alloc_offset ra) aid = Some (ri_offset r)" using assms by (simp add: arena_live_offset)
  show "om_find (ra_regions ra) (ri_offset r) = Some r" using e core_find [OF arena_core [OF assms(1)]] by simp
qed

lemma links_remove_arena:
  assumes "arena_inv ra" "arena_live ra aid = Some r"
  shows "links_ok (live_entries (regs ra) - {(ri_offset r, r)}) (om_erase aid (ra_alloc_offset ra))"
proof -
  note e = arena_entry [OF assms]
  have "links_ok (live_entries (regs ra) - {(ri_offset r, r)}) (om_erase (ri_alloc_id r) (ra_alloc_offset ra))"
  proof (rule links_remove)
    show "links_ok (live_entries (regs ra)) (ra_alloc_offset ra)" using assms(1) by (simp add: arena_inv_def)
    show "(ri_offset r, r) \<in> live_entries (regs ra)" using e by (simp add: live_entries_def)
    show "r' = r" if "(ri_offset r, r') \<in> live_entries (regs ra)" for r'
      using that layout_key_inject [OF arena_layout [OF assms(1)] _ e(1), of "(ri_offset r, r')"]
      by (simp add: live_entries_def)
  qed
  with e(3) show ?thesis by simp
qed

lemma live_entries_remove: "live_entries (R - {x}) = live_entries R - {x}"
  by (auto simp: live_entries_def)

lemma no_adjacent_subset: "no_adjacent_free R \<Longrightarrow> S \<subseteq> R \<Longrightarrow> no_adjacent_free S"
  unfolding no_adjacent_free_def free_entries_def by blast

lemma free_success:
  assumes inv: "arena_inv ra" and live: "arena_live ra aid = Some r" and gen: "ri_alloc_generation r = gen"
  obtains ra' f where "arena_free ra aid gen = (ra', Ok f)" "arena_inv ra'" "\<not> ri_live f"
    "arena_live ra' = (arena_live ra)(aid := None)" "ra_capacity ra' = ra_capacity ra"
    "unat (ra_live_bytes ra') + unat (ri_size r) = unat (ra_live_bytes ra)"
    "ri_offset f \<le> ri_offset r" "unat (ri_offset r) + unat (ri_size r) \<le> unat (ri_offset f) + unat (ri_size f)"
proof -
  note e = arena_entry [OF inv live]
  let ?c = "unat (ra_capacity ra)" and ?o = "unat (ri_offset r)" and ?s = "unat (ri_size r)"
  define ra1 where "ra1 = ra\<lparr>ra_regions := om_erase (ri_offset r) (ra_regions ra),
      ra_alloc_offset := om_erase aid (ra_alloc_offset ra), ra_live_bytes := ra_live_bytes ra - ri_size r,
      ra_live_count := ra_live_count ra - 1\<rparr>"
  have step: "arena_free ra aid gen = canonicalize_free (ri_offset r) (ri_size r) ra1"
    using e gen by (simp add: arena_free_def ra1_def)
  have b: "bytes_of (ri_offset r, r) = {?o ..< ?o + ?s}" by (simp add: bytes_of_def)
  have c1: "core_inv ({..<?c} - {?o ..< ?o + ?s}) ra1" and r1: "regs ra1 = regs ra - {(ri_offset r, r)}"
    using core_erase_live [OF arena_core [OF inv] e(1,2), of ra1] b by (simp_all add: ra1_def)
  have B: "{..<?c} - {?o ..< ?o + ?s} \<subseteq> {..<unat (ra_capacity ra1)}" by (auto simp: ra1_def)
  have gap: "{?o ..< ?o + ?s} \<inter> ({..<?c} - {?o ..< ?o + ?s}) = {}" by auto
  have cap: "?o + ?s \<le> unat (ra_capacity ra1)" using e by (simp add: ra1_def)
  obtain ra' lo f where f: "canonicalize_free (ri_offset r) (ri_size r) ra1 = (ra', Ok f)"
    "core_inv ({..<?c} - {?o ..< ?o + ?s} \<union> {?o ..< ?o + ?s}) ra'"
    "join_ok (regs ra1) ?o (?o + ?s) (lo, f) (regs ra')" "same_frame ra' ra1" "ra_summary_dirty ra'"
    by (rule canonicalize_effect [OF c1 B gap e(4) cap])
  have core': "core_inv {..<?c} ra'" using f(2) e(5) by (simp add: Un_absorb2 subset_iff)
  have lv: "live_entries (regs ra') = live_entries (regs ra) - {(ri_offset r, r)}"
    using join_live [OF f(3)] r1 by (simp add: live_entries_remove)
  have lo: "ri_offset f = lo" using layout_offset [OF core_layout [OF core'], of lo f] f(3) by (simp add: join_ok_def)
  have sum: "live_sum (regs ra') + ?s = live_sum (regs ra)"
    using live_sum_remove [OF finite_regs e(1)] e(2) lv unfolding live_sum_def by (simp add: live_entries_remove)
  have cnt: "card (live_entries (regs ra')) + 1 = card (live_entries (regs ra))"
    using card_live_remove [OF finite_regs e(1)] e(2) lv by (simp add: live_entries_remove)
  have na: "no_adjacent_free (regs ra')"
    using core_layout [OF c1] f(3) by (rule join_no_adjacent)
      (use inv r1 e(4) in \<open>auto simp: arena_inv_def unat_pos_iff intro: no_adjacent_subset\<close>)
  have lb: "unat (ra_live_bytes ra - ri_size r) = live_sum (regs ra')"
    using inv sum by (subst unat_sub_le) (auto simp: arena_inv_def)
  have lc: "unat (ra_live_count ra - 1) = card (live_entries (regs ra'))"
    using inv cnt by (subst unat_sub_le) (auto simp: arena_inv_def)
  have inv': "arena_inv ra'"
    using inv core' na lb lc f(4,5) links_remove_arena [OF inv live] lv
    by (simp add: arena_inv_def same_frame_def ra1_def summary_ok_def aligned_ok_def)
  show thesis
  proof (rule that [of ra' f])
    show "unat (ra_live_bytes ra') + ?s = unat (ra_live_bytes ra)"
      using sum inv inv' by (simp add: arena_inv_def)
  qed (use step f inv' lo arena_live_remove [OF inv inv' live lv] in
        \<open>simp_all add: join_ok_def same_frame_def ra1_def gms_word\<close>)
qed

lemma free_reject:
  assumes inv: "arena_inv ra" and stale: "\<not> (\<exists>r. arena_live ra aid = Some r \<and> ri_alloc_generation r = gen)"
  shows "\<exists>msg. arena_free ra aid gen = (ra, Err (Failure RejectReason.STALE_GENERATION msg))"
  using inv by (cases rule: arena_live_cases [of ra aid]) (use stale in \<open>auto simp: arena_free_def\<close>)

end
