(* ===== verification/Gms_Region_Move.thy ===== *)
theory Gms_Region_Move
  imports Gms_Region_Alloc
begin

text \<open>
  \<open>relocate\<close> of the region allocator.  A target that no live region overlaps lies inside one free
  region (\<open>target_in_free\<close>), so the carving loop splits that region and copies every other one
  (\<open>carve_effect\<close>); joining the old region and entering the moved one restores the invariant
  (\<open>relocate_success\<close>).  \<open>relocate_decide\<close> settles every other call: the state is unchanged.
\<close>

section \<open>The target of a relocation\<close>

definition overlaps :: "nat \<Rightarrow> nat \<Rightarrow> entry \<Rightarrow> bool" where
  "overlaps lo hi x \<longleftrightarrow> lo_of x < hi \<and> lo < hi_of x"

lemma live_before_hi_iff:
  "om_ok m \<Longrightarrow> live_before_hi hi m \<longleftrightarrow> (\<exists>x\<in>set m. ri_live (snd x) \<and> fst x < hi)"
  by (induction hi m rule: live_before_hi.induct) force+

lemma layout_le_eq:
  assumes "layout_ok B R" "x \<in> R" "y \<in> R" "lo_of x \<le> lo_of y" "lo_of y < hi_of x" shows "y = x"
  using layout_sep [OF assms(1-3)] size_pos [OF assms(1,3)] assms(4,5) by (cases "x = y") auto

lemma overlaps_live_iff:
  assumes core: "core_inv B ra" and B: "B \<subseteq> {..<unat (c :: u64)}" and lt: "unat lo < unat hi"
  shows "overlaps_live lo hi (ra_regions ra) \<longleftrightarrow> (\<exists>x\<in>live_entries (regs ra). overlaps (unat lo) (unat hi) x)"
proof -
  let ?m = "ra_regions ra"
  let ?y = "last (om_before lo ?m)"
  have ok: "om_ok ?m" by (rule core_om_ok [OF core])
  have tail: "live_before_hi hi (om_lower_bound lo ?m) \<longleftrightarrow>
      (\<exists>x\<in>live_entries (regs ra). unat lo \<le> lo_of x \<and> lo_of x < unat hi)"
    unfolding live_before_hi_iff [OF om_ok_lower_bound [OF ok]] set_om_lower_bound [OF ok]
    by (auto simp: live_entries_def regs_def gms_word)
  have before: "x \<in> set (om_before lo ?m) \<longleftrightarrow> x \<in> regs ra \<and> lo_of x < unat lo" for x
    using set_om_before [OF ok, of lo] by (auto simp: regs_def gms_word)
  have yr: "om_before lo ?m \<noteq> [] \<Longrightarrow> ?y \<in> regs ra \<and> lo_of ?y < unat lo" using before last_in_set by blast
  have head: "om_before lo ?m \<noteq> [] \<and> ri_live (snd ?y) \<and> fst ?y + ri_size (snd ?y) > lo \<longleftrightarrow>
      (\<exists>x\<in>live_entries (regs ra). lo_of x < unat lo \<and> unat lo < hi_of x)"
  proof
    assume h: "om_before lo ?m \<noteq> [] \<and> ri_live (snd ?y) \<and> fst ?y + ri_size (snd ?y) > lo"
    with yr layout_end(2) [OF core_layout [OF core] B, of ?y]
    have "?y \<in> live_entries (regs ra)" "lo_of ?y < unat lo" "unat lo < hi_of ?y"
      by (auto simp: live_entries_def gms_word)
    then show "\<exists>x\<in>live_entries (regs ra). lo_of x < unat lo \<and> unat lo < hi_of x" by blast
  next
    assume "\<exists>x\<in>live_entries (regs ra). lo_of x < unat lo \<and> unat lo < hi_of x"
    then obtain x where x: "x \<in> regs ra" "ri_live (snd x)" "lo_of x < unat lo" "unat lo < hi_of x"
      by (auto simp: live_entries_def)
    then have xb: "x \<in> set (om_before lo ?m)" using before by blast
    then have ne: "om_before lo ?m \<noteq> []" by auto
    have "lo_of x \<le> lo_of ?y" using om_last_greatest [OF om_ok_before [OF ok] xb] by (simp add: gms_word)
    then have "?y = x"
      using layout_le_eq [OF core_layout [OF core] x(1), of ?y] yr [OF ne] x by simp
    with ne x layout_end(2) [OF core_layout [OF core] B x(1)]
    show "om_before lo ?m \<noteq> [] \<and> ri_live (snd ?y) \<and> fst ?y + ri_size (snd ?y) > lo" by (simp add: gms_word)
  qed
  have "overlaps_live lo hi ?m \<longleftrightarrow>
      (om_before lo ?m \<noteq> [] \<and> ri_live (snd ?y) \<and> fst ?y + ri_size (snd ?y) > lo) \<or>
      live_before_hi hi (om_lower_bound lo ?m)"
    by (simp add: overlaps_live_def case_prod_unfold Let_def)
  moreover have "overlaps (unat lo) (unat hi) x \<longleftrightarrow>
      lo_of x < unat lo \<and> unat lo < hi_of x \<or> unat lo \<le> lo_of x \<and> lo_of x < unat hi"
    if "x \<in> live_entries (regs ra)" for x
    using that size_pos [OF core_layout [OF core], of x] lt by (auto simp: live_entries_def overlaps_def)
  ultimately show ?thesis unfolding head tail by blast
qed

text \<open>A target free of live regions lies inside one free region, because free regions are merged.\<close>

lemma target_in_free:
  assumes R: "layout_ok {..<c} R" and na: "no_adjacent_free R" and lt: "lo < hi" "hi \<le> c"
    and free: "\<And>x. x \<in> live_entries R \<Longrightarrow> \<not> overlaps lo hi x"
  obtains x where "x \<in> free_entries R" "lo_of x \<le> lo" "hi \<le> hi_of x"
proof -
  obtain x where x: "x \<in> R" "lo \<in> bytes_of x" using layout_cover [OF R, of lo] lt by auto
  then have xb: "lo_of x \<le> lo" "lo < hi_of x" by (auto simp: bytes_of_def)
  have xf: "x \<in> free_entries R"
    using x(1) xb lt free [of x] by (auto simp: free_entries_def live_entries_def overlaps_def)
  have "hi \<le> hi_of x"
  proof (rule ccontr)
    assume h: "\<not> hi \<le> hi_of x"
    then obtain y where y: "y \<in> R" "hi_of x \<in> bytes_of y" using layout_cover [OF R, of "hi_of x"] lt by auto
    then have yb: "lo_of y \<le> hi_of x" "hi_of x < hi_of y" by (auto simp: bytes_of_def)
    have "x \<noteq> y" using y(2) by (auto simp: bytes_of_def)
    then have "hi_of x = lo_of y" using layout_sep [OF R x(1) y(1)] yb size_pos [OF R x(1)] by linarith
    moreover have "y \<in> free_entries R"
      using y(1) yb xb h free [of y] by (auto simp: free_entries_def live_entries_def overlaps_def)
    ultimately show False using na xf by (auto simp: no_adjacent_free_def)
  qed
  with xf xb show thesis by (intro that)
qed

section \<open>The carving loop\<close>

lemma om_assign_last: "\<forall>x\<in>set m. fst x < k \<Longrightarrow> om_assign k v m = m @ [(k, v)]"
  by (induction m) auto

definition untouched :: "u64 \<Rightarrow> u64 \<Rightarrow> entry \<Rightarrow> bool" where
  "untouched lo hi x \<longleftrightarrow> ri_live (snd x) \<or> max (fst x) lo \<ge> min (fst x + ri_size (snd x)) hi"

lemma carve_copy:
  "\<forall>x\<in>set m. untouched lo hi x \<Longrightarrow> om_ok (nx @ m) \<Longrightarrow> carve lo hi (m @ rest) nx ra = carve lo hi rest (nx @ m) ra"
proof (induction m arbitrary: nx)
  case (Cons x m)
  obtain s r where x: "x = (s, r)" by (cases x)
  have "om_assign s r nx = nx @ [(s, r)]"
    using Cons.prems(2) x by (intro om_assign_last) (auto simp: sorted_wrt_append)
  moreover have "carve lo hi (m @ rest) (nx @ [x]) ra = carve lo hi rest ((nx @ [x]) @ m) ra"
    using Cons.prems by (intro Cons.IH) simp_all
  ultimately show ?case using Cons.prems(1) x by (auto simp: untouched_def Let_def)
qed simp

text \<open>The pieces that stay free on either side of the target.\<close>

definition piece_before :: "u64 \<Rightarrow> entry \<Rightarrow> entry list" where
  "piece_before lo x =
     (if fst x < lo then [(fst x, (snd x)\<lparr>ri_offset := fst x, ri_size := lo - fst x\<rparr>)] else [])"

definition piece_after :: "u64 \<Rightarrow> entry \<Rightarrow> entry list" where
  "piece_after hi x = (let e = fst x + ri_size (snd x) in
     if hi < e then [(hi, (snd x)\<lparr>ri_offset := hi, ri_size := e - hi\<rparr>)] else [])"

definition index_all :: "entry list \<Rightarrow> RegionAllocator \<Rightarrow> RegionAllocator" where
  "index_all xs ra = fold (\<lambda>x. index_free (fst x) (ri_size (snd x))) xs ra"

lemma carve_hit:
  assumes "fst x \<le> lo" "lo < hi" "hi \<le> fst x + ri_size (snd x)" "\<not> ri_live (snd x)"
    "\<forall>y\<in>set nx. fst y < fst x"
  shows "carve lo hi (x # rest) nx ra =
    carve lo hi rest (nx @ piece_before lo x @ piece_after hi x)
      (index_all (piece_before lo x @ piece_after hi x) (unindex_free (fst x) (ri_size (snd x)) ra))"
proof -
  obtain s r where x: "x = (s, r)" by (cases x)
  have m: "max s lo = lo" "min (s + ri_size r) hi = hi" using assms(1,3) x by (auto simp: max_def min_def)
  have a: "om_assign s v nx = nx @ [(s, v)]" for v using assms(5) x by (intro om_assign_last) simp
  have b: "om_assign hi w (nx @ [(s, v)]) = nx @ [(s, v), (hi, w)]" "om_assign hi w nx = nx @ [(hi, w)]" for v w
    using assms(1,2,5) x by (subst om_assign_last; fastforce)+
  have "\<not> hi \<le> lo" using assms(2) by simp
  with assms(4) show ?thesis unfolding x
    by (simp add: m Let_def a b piece_before_def piece_after_def index_all_def)
qed

text \<open>Adding several free regions at once.\<close>

definition add_entry :: "entry \<Rightarrow> RegionAllocator \<Rightarrow> RegionAllocator" where
  "add_entry x ra = (index_free (fst x) (ri_size (snd x)) ra)\<lparr>ra_regions := om_emplace (fst x) (snd x) (ra_regions ra)\<rparr>"

lemma core_add_entries:
  "core_inv B ra \<Longrightarrow> \<forall>x\<in>set xs. \<not> ri_live (snd x) \<and> ri_size (snd x) \<noteq> 0 \<and> ri_offset (snd x) = fst x \<and> bytes_of x \<inter> B = {} \<Longrightarrow>
   sorted_wrt (\<lambda>a b. bytes_of b \<inter> bytes_of a = {}) xs \<Longrightarrow>
   core_inv (B \<union> \<Union> (bytes_of ` set xs)) (fold add_entry xs ra) \<and> regs (fold add_entry xs ra) = regs ra \<union> set xs"
proof (induction xs arbitrary: B ra)
  case (Cons x xs)
  have step: "core_inv (B \<union> bytes_of (fst x, snd x)) (add_entry x ra)" "regs (add_entry x ra) = insert (fst x, snd x) (regs ra)"
    by (rule core_add_free [OF Cons.prems(1)]; use Cons.prems(2) in \<open>simp add: add_entry_def index_free_def\<close>)+
  have "core_inv (B \<union> bytes_of x \<union> \<Union> (bytes_of ` set xs)) (fold add_entry xs (add_entry x ra)) \<and>
      regs (fold add_entry xs (add_entry x ra)) = regs (add_entry x ra) \<union> set xs"
    using Cons.prems(2,3) step(1) by (intro Cons.IH) (auto simp: Int_Un_distrib)
  then show ?case using step(2) by (simp add: Un_assoc)
qed simp

lemma fold_add_entry_slots: "ra_free_slots a = ra_free_slots b \<Longrightarrow>
   ra_free_slots (fold add_entry xs a) = ra_free_slots (index_all xs b)"
  unfolding index_all_def
  by (induction xs arbitrary: a b) (simp_all add: add_entry_def index_free_def)

lemma index_all_frame: "same_frame (index_all xs ra) ra" "ra_regions (index_all xs ra) = ra_regions ra"
  unfolding index_all_def by (induction xs arbitrary: ra) (simp_all add: index_free_def same_frame_def)

lemma core_inv_set_cong:
  assumes "core_inv B a" "set (ra_regions b) = regs a" "om_ok (ra_regions b)" "ra_free_slots b = ra_free_slots a"
  shows "core_inv B b"
  using assms by (simp add: core_inv_def regs_def)

text \<open>The pieces and the target partition the carved region.\<close>

definition pieces :: "u64 \<Rightarrow> u64 \<Rightarrow> entry \<Rightarrow> entry list" where
  "pieces lo hi x = piece_before lo x @ piece_after hi x"

lemma pieces_ok:
  assumes x: "fst x \<le> lo" "lo < hi" "unat hi \<le> hi_of x" "unat (fst x + ri_size (snd x)) = hi_of x"
  shows "\<forall>p\<in>set (pieces lo hi x). ri_live (snd p) = ri_live (snd x) \<and> ri_size (snd p) \<noteq> 0 \<and> ri_offset (snd p) = fst p \<and>
      (lo_of p = lo_of x \<and> hi_of p = unat lo \<or> lo_of p = unat hi \<and> hi_of p = hi_of x)"
    and "sorted_wrt (\<lambda>a b. bytes_of b \<inter> bytes_of a = {}) (pieces lo hi x)"
    and "\<Union> (bytes_of ` set (pieces lo hi x)) = bytes_of x - {unat lo ..< unat hi}"
    and "om_ok (pieces lo hi x)"
proof -
  define e where "e = fst x + ri_size (snd x)"
  have e: "unat e = hi_of x" using x(4) by (simp add: e_def)
  define p1 where "p1 = (fst x, (snd x)\<lparr>ri_offset := fst x, ri_size := lo - fst x\<rparr>)"
  define p2 where "p2 = (hi, (snd x)\<lparr>ri_offset := hi, ri_size := e - hi\<rparr>)"
  have ps: "pieces lo hi x = (if fst x < lo then [p1] else []) @ (if hi < e then [p2] else [])"
    by (simp only: pieces_def piece_before_def piece_after_def p1_def p2_def Let_def e_def)
  have n: "lo_of x \<le> unat lo" "unat lo < unat hi" using x(1,2) by (auto simp: gms_word)
  have f: "ri_live (snd p1) = ri_live (snd x)" "ri_offset (snd p1) = fst p1" "fst p1 = fst x" "ri_size (snd p1) = lo - fst x"
    "ri_live (snd p2) = ri_live (snd x)" "ri_offset (snd p2) = fst p2" "fst p2 = hi" "ri_size (snd p2) = e - hi"
    by (simp_all add: p1_def p2_def)
  have w: "fst x < lo \<Longrightarrow> unat (lo - fst x) = unat lo - lo_of x \<and> lo_of x < unat lo"
    "hi < e \<Longrightarrow> unat (e - hi) = hi_of x - unat hi \<and> unat hi < hi_of x"
    using e by (simp_all add: unat_sub_le gms_word)
  have r: "fst x < lo \<longleftrightarrow> lo_of x < unat lo" "hi < e \<longleftrightarrow> unat hi < hi_of x" using e by (simp_all add: gms_word)
  show "\<forall>p\<in>set (pieces lo hi x). ri_live (snd p) = ri_live (snd x) \<and> ri_size (snd p) \<noteq> 0 \<and> ri_offset (snd p) = fst p \<and>
      (lo_of p = lo_of x \<and> hi_of p = unat lo \<or> lo_of p = unat hi \<and> hi_of p = hi_of x)"
  proof
    fix p assume "p \<in> set (pieces lo hi x)"
    then have "fst x < lo \<and> p = p1 \<or> hi < e \<and> p = p2" unfolding ps by (cases "fst x < lo"; cases "hi < e"; simp; (blast)?)
    then show "ri_live (snd p) = ri_live (snd x) \<and> ri_size (snd p) \<noteq> 0 \<and> ri_offset (snd p) = fst p \<and>
      (lo_of p = lo_of x \<and> hi_of p = unat lo \<or> lo_of p = unat hi \<and> hi_of p = hi_of x)"
    proof (elim disjE conjE)
      assume p: "fst x < lo" "p = p1"
      then have "ri_size (snd p) \<noteq> 0" using w(1) f(4) by force
      with p f(1-4) w(1) n(1) show ?thesis by simp
    next
      assume p: "hi < e" "p = p2"
      then have "ri_size (snd p) \<noteq> 0" using w(2) f(8) by force
      with p f(5-8) w(2) show ?thesis by simp
    qed
  qed
  show "sorted_wrt (\<lambda>a b. bytes_of b \<inter> bytes_of a = {}) (pieces lo hi x)" "om_ok (pieces lo hi x)"
    using f w n unfolding ps by (cases "fst x < lo"; cases "hi < e"; auto simp: gms_word bytes_of_def)+
  show "\<Union> (bytes_of ` set (pieces lo hi x)) = bytes_of x - {unat lo ..< unat hi}"
    using f w n x(3) r unfolding ps by (cases "fst x < lo"; cases "hi < e"; auto simp: bytes_of_def)
qed

lemma untouched_other:
  assumes R: "layout_ok B R" "B \<subseteq> {..<unat (c :: u64)}" and x: "x \<in> R" and y: "y \<in> R" "y \<noteq> x"
    and t: "lo_of x \<le> unat lo" "unat hi \<le> hi_of x"
  shows "untouched lo hi y"
  using layout_sep [OF R(1) x y(1)] y(2) t layout_end(2) [OF R y(1)]
  by (auto simp: untouched_def gms_word max_def min_def)

lemma carve_list:
  assumes core: "core_inv B ra" and B: "B \<subseteq> {..<unat (c :: u64)}" and m: "ra_regions ra = pre @ x # post"
    and x: "\<not> ri_live (snd x)" "lo_of x \<le> unat lo" "lo < hi" "unat hi \<le> hi_of x"
  shows "carve lo hi (ra_regions ra) [] ra =
     (pre @ pieces lo hi x @ post, index_all (pieces lo hi x) (unindex_free (fst x) (ri_size (snd x)) ra))"
    "om_ok (pre @ pieces lo hi x @ post)" "x \<notin> set pre" "x \<notin> set post"
proof -
  have R: "layout_ok B (set pre \<union> {x} \<union> set post)" using core_layout [OF core] m by (simp add: regs_def insert_commute)
  have ok: "om_ok (pre @ x # post)" using core_om_ok [OF core] m by simp
  then show nx: "x \<notin> set pre" "x \<notin> set post" by (auto simp: sorted_wrt_append)
  have e: "unat (fst x + ri_size (snd x)) = hi_of x" using layout_end(2) [OF R B] by simp
  have u: "untouched lo hi y" if "y \<in> set pre \<union> set post" for y
    using that nx x(2,4) by (intro untouched_other [OF R B, of x]) auto
  note p = pieces_ok [of x lo hi, OF _ x(3,4) e]
  have after: "hi_of x \<le> lo_of y" if "y \<in> set post" for y
    using layout_sep [OF R, of x y] that nx ok size_pos [OF R, of y] by (fastforce simp: sorted_wrt_append gms_word)
  have key: "fst x \<le> fst q \<and> lo_of q < hi_of x" if "q \<in> set (pieces lo hi x)" for q
  proof -
    have le: "fst x \<le> lo" using x(2) by (simp add: gms_word)
    from bspec [OF p(1) [OF le] that] have "0 < unat (ri_size (snd q))"
      "lo_of q = lo_of x \<and> hi_of q = unat lo \<or> lo_of q = unat hi \<and> hi_of q = hi_of x"
      by (simp_all add: unat_pos_iff)
    with x show ?thesis by (auto simp: gms_word)
  qed
  show ok': "om_ok (pre @ pieces lo hi x @ post)"
  proof -
    have "fst y < fst q" if "y \<in> set pre" "q \<in> set (pieces lo hi x)" for y q
      using ok that key [OF that(2)] by (force simp: sorted_wrt_append)
    moreover have "fst q < fst y" if "y \<in> set post" "q \<in> set (pieces lo hi x)" for y q
      using key [OF that(2)] after [OF that(1)] by (simp add: gms_word)
    moreover have "om_ok (pieces lo hi x)" using p(4) x(2) by (simp add: gms_word)
    ultimately show ?thesis using ok by (auto simp: sorted_wrt_append)
  qed
  have ok1: "om_ok ([] @ pre)" using ok by (simp add: sorted_wrt_append)
  have "carve lo hi (ra_regions ra) [] ra = carve lo hi (x # post) pre ra"
    using carve_copy [OF _ ok1, of lo hi "x # post" ra] u m by simp
  also have "\<dots> = carve lo hi (post @ []) (pre @ pieces lo hi x) (index_all (pieces lo hi x) (unindex_free (fst x) (ri_size (snd x)) ra))"
    using x e ok unfolding pieces_def append_Nil2 append_assoc
    by (intro carve_hit) (auto simp: gms_word sorted_wrt_append)
  also have "\<dots> = (pre @ pieces lo hi x @ post, index_all (pieces lo hi x) (unindex_free (fst x) (ri_size (snd x)) ra))"
    by (subst carve_copy) (use u ok' in simp_all)
  finally show "carve lo hi (ra_regions ra) [] ra =
     (pre @ pieces lo hi x @ post, index_all (pieces lo hi x) (unindex_free (fst x) (ri_size (snd x)) ra))" .
qed

lemma carve_effect:
  assumes core: "core_inv B ra" and B: "B \<subseteq> {..<unat (c :: u64)}" and xf: "x \<in> free_entries (regs ra)"
    and t: "lo_of x \<le> unat lo" "lo < hi" "unat hi \<le> hi_of x"
  obtains nx ra' where "carve lo hi (ra_regions ra) [] ra = (nx, ra')"
    "core_inv (B - {unat lo ..< unat hi}) (ra'\<lparr>ra_regions := nx\<rparr>)"
    "set nx = (regs ra - {x}) \<union> set (pieces lo hi x)" "same_frame ra' ra"
proof -
  have x: "x \<in> regs ra" "\<not> ri_live (snd x)" using xf by (auto simp: free_entries_def)
  then obtain pre post where m: "ra_regions ra = pre @ x # post" by (auto simp: regs_def dest: split_list)
  note cl = carve_list [OF core B m x(2) t]
  let ?ps = "pieces lo hi x" and ?u = "unindex_free (fst x) (ri_size (snd x)) ra"
  have e: "unat (fst x + ri_size (snd x)) = hi_of x" by (rule layout_end(2) [OF core_layout [OF core] B x(1)])
  note p = pieces_ok [of x lo hi, OF _ t(2,3) e]
  have le: "fst x \<le> lo" using t(1) by (simp add: gms_word)
  let ?a = "?u\<lparr>ra_regions := om_erase (fst x) (ra_regions ra)\<rparr>"
  have a: "core_inv (B - bytes_of x) ?a" "regs ?a = regs ra - {x}"
    using core_erase_free [OF core, of "fst x" "snd x" ?a] x by (simp_all add: unindex_free_def)
  have sub: "bytes_of x \<subseteq> B" by (rule layout_bytes [OF core_layout [OF core] x(1)])
  have un: "\<Union> (bytes_of ` set ?ps) = bytes_of x - {unat lo ..< unat hi}" using p(3) le by simp
  have tb: "{unat lo ..< unat hi} \<subseteq> bytes_of x" using t by (auto simp: bytes_of_def)
  have add: "core_inv (B - bytes_of x \<union> \<Union> (bytes_of ` set ?ps)) (fold add_entry ?ps ?a) \<and>
      regs (fold add_entry ?ps ?a) = regs ?a \<union> set ?ps"
    using a(1)
  proof (rule core_add_entries)
    show "\<forall>q\<in>set ?ps. \<not> ri_live (snd q) \<and> ri_size (snd q) \<noteq> 0 \<and> ri_offset (snd q) = fst q \<and> bytes_of q \<inter> (B - bytes_of x) = {}"
      using p(1) [OF le] x(2) un by blast
    show "sorted_wrt (\<lambda>a b. bytes_of b \<inter> bytes_of a = {}) ?ps" by (rule p(2) [OF le])
  qed
  have "B - bytes_of x \<union> (bytes_of x - {unat lo ..< unat hi}) = B - {unat lo ..< unat hi}" using sub tb by blast
  with add un have core': "core_inv (B - {unat lo ..< unat hi}) (fold add_entry ?ps ?a)" by simp
  have st: "set (pre @ ?ps @ post) = (regs ra - {x}) \<union> set ?ps" using m cl(3,4) by (auto simp: regs_def)
  show thesis
  proof (rule that [of "pre @ ?ps @ post" "index_all ?ps ?u"])
    show "core_inv (B - {unat lo ..< unat hi}) ((index_all ?ps ?u)\<lparr>ra_regions := pre @ ?ps @ post\<rparr>)"
      using core' by (rule core_inv_set_cong)
        (use add a(2) st cl(2) fold_add_entry_slots [of ?a ?u ?ps] in simp_all)
    show "same_frame (index_all ?ps ?u) ra"
      using index_all_frame(1) [of ?ps ?u] by (simp add: same_frame_def unindex_free_def)
  qed (use cl(1) st in simp_all)
qed

section \<open>relocate\<close>

text \<open>The decision of \<open>relocate\<close>, in terms of the layout.\<close>

definition relocate_reject ::
  "RegionAllocator \<Rightarrow> AllocationId \<Rightarrow> AllocationGeneration \<Rightarrow> u64 \<Rightarrow> u64 \<Rightarrow> u64 \<Rightarrow> RejectReason option" where
  "relocate_reject ra aid gen n s al =
    (case arena_live ra aid of None \<Rightarrow> Some RejectReason.STALE_GENERATION
     | Some r \<Rightarrow>
        if ri_alloc_generation r \<noteq> gen then Some RejectReason.STALE_GENERATION
        else if \<not> is_pow2 al then Some RejectReason.IMPOSSIBLE_ALIGNMENT
        else if s = 0 \<or> \<not> unat al dvd unat n then Some RejectReason.INVALID_REQUEST
        else if unat (ra_capacity ra) < unat n + unat s then Some RejectReason.SIZE_OVERFLOW
        else if \<exists>x\<in>live_entries (regs ra). overlaps (unat n) (unat n + unat s) x
        then Some RejectReason.INVALID_REQUEST else None)"

lemma bounds_check:
  "(n > c \<or> s > c - n) \<longleftrightarrow> unat (c :: u64) < unat n + unat s"
  by (cases "unat n \<le> unat c") (auto simp: gms_word unat_sub_le)

lemma relocate_decide:
  assumes inv: "arena_inv ra"
  shows "case relocate_reject ra aid gen n s al of
     Some why \<Rightarrow> \<exists>msg. arena_relocate ra aid gen n s al = (ra, Err (Failure why msg))
   | None \<Rightarrow> \<exists>r. arena_live ra aid = Some r \<and> ri_alloc_generation r = gen \<and>
       arena_relocate ra aid gen n s al = relocate_commit aid gen (ri_offset r) r n s al ra"
  using inv
proof (cases rule: arena_live_cases [of ra aid])
  case none
  then show ?thesis by (simp add: relocate_reject_def arena_relocate_def)
next
  case (some r)
  show ?thesis
  proof (cases "ri_alloc_generation r \<noteq> gen \<or> \<not> is_pow2 al \<or> s = 0 \<or> \<not> unat al dvd unat n \<or> unat (ra_capacity ra) < unat n + unat s")
    case True
    with some show ?thesis
      by (auto simp: relocate_reject_def arena_relocate_def word_mod_eq_0_iff bounds_check is_pow2_def)
  next
    case False
    then have chk: "ri_alloc_generation r = gen" "is_pow2 al" "s \<noteq> 0" "unat al dvd unat n" "unat n + unat s \<le> unat (ra_capacity ra)"
      by auto
    have e: "unat (n + s) = unat n + unat s" by (rule unat_add_le [OF chk(5)])
    have "ri_offset r + ri_size r > n \<and> ri_offset r < n + s \<longleftrightarrow> overlaps (unat n) (unat n + unat s) (ri_offset r, r)"
      using layout_end(2) [OF arena_layout [OF inv] order_refl some(4)] e by (auto simp: overlaps_def gms_word)
    moreover have "overlaps_live n (n + s) (ra_regions ra) \<longleftrightarrow> (\<exists>x\<in>live_entries (regs ra). overlaps (unat n) (unat n + unat s) x)"
      using overlaps_live_iff [OF arena_core [OF inv] order_refl, of n "n + s"] e chk(3) by (simp add: unat_pos_iff)
    moreover have "(ri_offset r, r) \<in> live_entries (regs ra)" using some by (simp add: live_entries_def)
    moreover have "\<not> (n > ra_capacity ra \<or> s > ra_capacity ra - n)" using chk(5) by (simp add: bounds_check)
    moreover have "al \<noteq> 0" "n mod al = 0" using chk(2,4) by (auto simp: is_pow2_def word_mod_eq_0_iff)
    ultimately show ?thesis using some(1-3,5) chk
      by (cases "\<exists>x\<in>live_entries (regs ra). overlaps (unat n) (unat n + unat s) x")
        (auto simp: relocate_reject_def arena_relocate_def)
  qed
qed

lemma moved_region_simps [simp]:
  "ri_live (moved_region old gen n s al) = ri_live old" "ri_size (moved_region old gen n s al) = s"
  "ri_offset (moved_region old gen n s al) = n" "ri_alignment (moved_region old gen n s al) = al"
  "ri_alloc_id (moved_region old gen n s al) = ri_alloc_id old"
  "ri_alloc_generation (moved_region old gen n s al) = gen_next gen"
  "ri_movability (moved_region old gen n s al) = ri_movability old"
  "ri_pin_count (moved_region old gen n s al) = ri_pin_count old"
  by (simp_all add: moved_region_def)

text \<open>First step of the move: the old region and the target are out of the map.\<close>

lemma relocate_carve:
  assumes inv: "arena_inv ra" and e: "(ri_offset r, r) \<in> regs ra" "ri_live r"
    and t: "s \<noteq> 0" "unat n + unat s \<le> unat (ra_capacity ra)"
    and no: "\<And>x. x \<in> live_entries (regs ra) \<Longrightarrow> \<not> overlaps (unat n) (unat n + unat s) x"
    and ra1: "ra1 = ra\<lparr>ra_regions := om_erase (ri_offset r) (ra_regions ra), ra_alloc_offset := om_erase aid (ra_alloc_offset ra)\<rparr>"
  obtains nx ra2 where "carve n (n + s) (ra_regions ra1) [] ra1 = (nx, ra2)"
    "core_inv ({..<unat (ra_capacity ra)} - bytes_of (ri_offset r, r) - {unat n ..< unat n + unat s}) (ra2\<lparr>ra_regions := nx\<rparr>)"
    "live_entries (set nx) = live_entries (regs ra) - {(ri_offset r, r)}" "no_adjacent_free (set nx)" "same_frame ra2 ra1"
proof -
  let ?B = "{..<unat (ra_capacity ra)} - bytes_of (ri_offset r, r)" and ?T = "{unat n ..< unat n + unat s}"
  have lt: "unat n < unat n + unat s" using t(1) by (simp add: unat_pos_iff)
  have h: "unat (n + s) = unat n + unat s" by (rule unat_add_le [OF t(2)])
  have na: "no_adjacent_free (regs ra)" using inv by (simp add: arena_inv_def)
  obtain x where x: "x \<in> free_entries (regs ra)" "lo_of x \<le> unat n" "unat n + unat s \<le> hi_of x"
    by (rule target_in_free [OF arena_layout [OF inv] na lt t(2) no])
  have c1: "core_inv ?B ra1" "regs ra1 = regs ra - {(ri_offset r, r)}"
    using core_erase_live [OF arena_core [OF inv] e, of ra1] ra1 by simp_all
  have "x \<noteq> (ri_offset r, r)" using x(1) e(2) by (auto simp: free_entries_def)
  then have x1: "x \<in> free_entries (regs ra1)" using x(1) unfolding c1(2) by (simp add: free_entries_def)
  have "?B \<subseteq> {..<unat (ra_capacity ra)}" "n < n + s" "unat (n + s) \<le> hi_of x" using lt h x(3) by (auto simp: gms_word)
  then obtain nx ra2 where cv: "carve n (n + s) (ra_regions ra1) [] ra1 = (nx, ra2)" "core_inv (?B - {unat n ..< unat (n + s)}) (ra2\<lparr>ra_regions := nx\<rparr>)"
    "set nx = (regs ra1 - {x}) \<union> set (pieces n (n + s) x)" "same_frame ra2 ra1"
    using carve_effect [OF c1(1) _ x1 x(2)] by metis
  have px: "fst x \<le> n" "n < n + s" "unat (n + s) \<le> hi_of x" "unat (fst x + ri_size (snd x)) = hi_of x"
    using x h lt layout_end(2) [OF arena_layout [OF inv] order_refl, of x] by (auto simp: gms_word free_entries_def)
  have pc: "\<not> ri_live (snd p) \<and> (lo_of p = lo_of x \<and> hi_of p = unat n \<or> lo_of p = unat n + unat s \<and> hi_of p = hi_of x)"
    if "p \<in> set (pieces n (n + s) x)" for p
    using bspec [OF pieces_ok(1) [OF px] that] x(1) h by (simp add: free_entries_def)
  have lv: "live_entries (set nx) = live_entries (regs ra) - {(ri_offset r, r)}"
    unfolding cv(3) c1(2) using pc x(1) by (auto simp: live_entries_def free_entries_def)
  let ?m = "(n, r\<lparr>ri_offset := n, ri_size := s\<rparr>)"
  have "layout_ok (?B - ?T \<union> bytes_of ?m) (insert ?m (set nx))"
    using core_layout [OF cv(2)] t(1) h by (intro layout_insert) (auto simp: regs_def bytes_of_def)
  moreover have "?T \<subseteq> ?B"
    using layout_bytes [OF core_layout [OF c1(1)], of x] x x1 by (auto simp: bytes_of_def free_entries_def subset_iff)
  then have "?B - ?T \<union> bytes_of ?m = ?B" by (auto simp: bytes_of_def)
  moreover have "split_ok (regs ra1) x ?m (insert ?m (set nx))"
    unfolding split_ok_def cv(3) using x1 x(2,3) e(2) pc by (intro conjI exI [of _ "set (pieces n (n + s) x)"]) auto
  ultimately have "no_adjacent_free (insert ?m (set nx))"
    using split_no_adjacent [OF core_layout [OF c1(1)], of "insert ?m (set nx)" x ?m]
      no_adjacent_subset [OF na, of "regs ra1"] c1(2) by simp
  then have "no_adjacent_free (set nx)" by (rule no_adjacent_subset) auto
  with cv lv h show thesis by (intro that [of nx ra2]) simp_all
qed

text \<open>Second step: the old region joins the free space and the moved region enters the map.\<close>

lemma relocate_layout:
  assumes inv: "arena_inv ra" and live: "arena_live ra aid = Some r"
    and none: "relocate_reject ra aid gen n s al = None"
  obtains ra' where "relocate_commit aid gen (ri_offset r) r n s al ra = (ra', Ok (moved_region r gen n s al))"
    "core_inv {..<unat (ra_capacity ra)} ra'" "no_adjacent_free (regs ra')"
    "live_entries (regs ra') = insert (n, moved_region r gen n s al) (live_entries (regs ra) - {(ri_offset r, r)})"
    "(n, moved_region r gen n s al) \<notin> live_entries (regs ra) - {(ri_offset r, r)}"
    "ra_capacity ra' = ra_capacity ra" "ra_live_count ra' = ra_live_count ra"
    "ra_alloc_offset ra' = om_assign aid n (om_erase aid (ra_alloc_offset ra))"
    "ra_live_bytes ra' = ra_live_bytes ra + s - ri_size r" "ra_summary_dirty ra'"
proof -
  note e = arena_entry [OF inv live]
  let ?c = "unat (ra_capacity ra)" and ?O = "bytes_of (ri_offset r, r)" and ?T = "{unat n ..< unat n + unat s}"
  let ?mv = "moved_region r gen n s al"
  have chk: "s \<noteq> 0" "unat n + unat s \<le> ?c" and no: "\<And>x. x \<in> live_entries (regs ra) \<Longrightarrow> \<not> overlaps (unat n) (unat n + unat s) x"
    using none live by (auto simp: relocate_reject_def split: if_splits)
  define ra1 where "ra1 = ra\<lparr>ra_regions := om_erase (ri_offset r) (ra_regions ra), ra_alloc_offset := om_erase aid (ra_alloc_offset ra)\<rparr>"
  obtain nx ra2 where cv: "carve n (n + s) (ra_regions ra1) [] ra1 = (nx, ra2)" "core_inv ({..<?c} - ?O - ?T) (ra2\<lparr>ra_regions := nx\<rparr>)"
    "live_entries (set nx) = live_entries (regs ra) - {(ri_offset r, r)}" "no_adjacent_free (set nx)" "same_frame ra2 ra1"
    by (rule relocate_carve [OF inv e(1,2) chk no ra1_def])
  define ra3 where "ra3 = ra2\<lparr>ra_regions := nx\<rparr>"
  have fr3: "same_frame ra3 ra1" "ra_capacity ra3 = ra_capacity ra" using cv(5) by (simp_all add: ra3_def same_frame_def ra1_def)
  have O: "?O = {unat (ri_offset r) ..< unat (ri_offset r) + unat (ri_size r)}" by (simp add: bytes_of_def)
  have OT: "?O \<inter> ?T = {}" "?O \<subseteq> {..<?c}" "?T \<subseteq> {..<?c}"
    using no [of "(ri_offset r, r)"] e(1,2,5) chk(2) by (auto simp: live_entries_def overlaps_def O)
  obtain ra4 lo f where cf: "canonicalize_free (ri_offset r) (ri_size r) ra3 = (ra4, Ok f)"
    "core_inv ({..<?c} - ?O - ?T \<union> ?O) ra4" "join_ok (regs ra3) (unat (ri_offset r)) (unat (ri_offset r) + unat (ri_size r)) (lo, f) (regs ra4)"
    "same_frame ra4 ra3" "ra_summary_dirty ra4"
    unfolding O by (rule canonicalize_effect [of _ ra3 "ri_offset r" "ri_size r"]) (use cv(2) fr3 e(4,5) in \<open>auto simp: ra3_def O\<close>)
  have B4: "{..<?c} - ?O - ?T \<union> ?O = {..<?c} - ?T" "{..<?c} - ?T \<union> ?T = {..<?c}" using OT by blast+
  have R3: "regs ra3 = set nx" by (simp add: ra3_def regs_def)
  have na4: "no_adjacent_free (regs ra4)"
    using join_no_adjacent [OF _ cf(3)] cv(4) core_layout [OF cv(2)] e(4) R3 by (simp add: ra3_def unat_pos_iff)
  define ra' where "ra' = ra4\<lparr>ra_regions := om_emplace n ?mv (ra_regions ra4), ra_alloc_offset := om_assign aid n (ra_alloc_offset ra4),
      ra_live_bytes := (if s \<ge> ri_size r then ra_live_bytes ra4 + (s - ri_size r) else ra_live_bytes ra4 - (ri_size r - s)), ra_summary_dirty := True\<rparr>"
  have T: "bytes_of (n, ?mv) = ?T" by (simp add: bytes_of_def)
  have c': "core_inv ({..<?c} - ?T \<union> bytes_of (n, ?mv)) ra'" "regs ra' = insert (n, ?mv) (regs ra4)"
    by (rule core_add_live [OF cf(2) [unfolded B4(1)]]; use e(2) chk(1) in \<open>auto simp: ra'_def T\<close>)+
  have core': "core_inv {..<?c} ra'" using c'(1) unfolding T B4(2) .
  have lv4: "live_entries (regs ra4) = live_entries (regs ra) - {(ri_offset r, r)}" using join_live [OF cf(3)] cv(3) R3 by simp
  have lv: "live_entries (regs ra') = insert (n, ?mv) (live_entries (regs ra) - {(ri_offset r, r)})"
    unfolding c'(2) lv4 [symmetric] using e(2) by (auto simp: live_entries_def)
  have nin: "(n, ?mv) \<notin> live_entries (regs ra)" using no [of "(n, ?mv)"] chk(1) by (auto simp: overlaps_def unat_pos_iff)
  have na: "no_adjacent_free (regs ra')"
    using na4 e(2) unfolding c'(2) no_adjacent_free_def free_entries_def by auto
  have frame: "ra_capacity ra' = ra_capacity ra" "ra_live_count ra' = ra_live_count ra"
    "ra_alloc_offset ra' = om_assign aid n (om_erase aid (ra_alloc_offset ra))"
    "ra_live_bytes ra' = ra_live_bytes ra + s - ri_size r" "ra_summary_dirty ra'"
    using cf(4) fr3 by (simp_all add: ra'_def same_frame_def ra1_def algebra_simps)
  have "relocate_commit aid gen (ri_offset r) r n s al ra = (ra', Ok ?mv)"
    using cv(1) cf(1) by (simp add: relocate_commit_def Let_def ra1_def [symmetric] ra3_def [symmetric] ra'_def)
  with core' na lv nin frame show thesis by (intro that [of ra']) simp_all
qed

lemma swap_sum:
  fixes f :: "'a \<Rightarrow> nat"
  assumes "finite L" "x \<in> L" "y \<notin> L - {x}" shows "sum f (insert y (L - {x})) + f x = sum f L + f y"
  using sum.remove [OF assms(1,2), of f] sum.insert [OF finite_Diff [OF assms(1)] assms(3), of f] by linarith

lemma arena_live_replace:
  assumes inv: "arena_inv ra" "arena_inv ra'" and r: "arena_live ra aid = Some r" "ri_alloc_id r2 = aid"
    and L: "live_entries (regs ra') = insert (ri_offset r2, r2) (live_entries (regs ra) - {(ri_offset r, r)})"
  shows "arena_live ra' = (arena_live ra)(aid \<mapsto> r2)"
proof (rule arena_live_eqI [OF inv(2)])
  fix aid' r'
  have view: "arena_live ra i = Some q \<longleftrightarrow> (ri_offset q, q) \<in> live_entries (regs ra) \<and> ri_alloc_id q = i" for i q
    by (rule arena_live_view [OF inv(1)])
  have rid: "ri_alloc_id r = aid" using r(1) view by blast
  show "((arena_live ra)(aid \<mapsto> r2)) aid' = Some r' \<longleftrightarrow> (ri_offset r', r') \<in> live_entries (regs ra') \<and> ri_alloc_id r' = aid'"
  proof (cases "aid' = aid")
    case True
    have "(ri_offset r', r') \<in> live_entries (regs ra) \<Longrightarrow> ri_alloc_id r' = aid \<Longrightarrow> r' = r" using view [of aid r'] r(1) by simp
    with True r(2) show ?thesis unfolding L by auto
  next
    case False
    with r(2) rid view [of aid' r'] show ?thesis unfolding L by auto
  qed
qed

lemma relocate_success:
  assumes inv: "arena_inv ra" and none: "relocate_reject ra aid gen n s al = None"
  obtains ra' r where "arena_live ra aid = Some r" "ri_alloc_generation r = gen"
    "arena_relocate ra aid gen n s al = (ra', Ok (moved_region r gen n s al))" "arena_inv ra'"
    "arena_live ra' = (arena_live ra)(aid \<mapsto> moved_region r gen n s al)" "ra_capacity ra' = ra_capacity ra"
    "unat (ra_live_bytes ra') + unat (ri_size r) = unat (ra_live_bytes ra) + unat s"
proof -
  obtain r where r: "arena_live ra aid = Some r" "ri_alloc_generation r = gen"
    "arena_relocate ra aid gen n s al = relocate_commit aid gen (ri_offset r) r n s al ra"
    using relocate_decide [OF inv, of aid gen n s al] none by auto
  note e = arena_entry [OF inv r(1)]
  let ?mv = "moved_region r gen n s al" and ?x = "(ri_offset r, r)"
  obtain ra' where m: "relocate_commit aid gen (ri_offset r) r n s al ra = (ra', Ok ?mv)"
    "core_inv {..<unat (ra_capacity ra)} ra'" "no_adjacent_free (regs ra')"
    "live_entries (regs ra') = insert (n, ?mv) (live_entries (regs ra) - {?x})"
    "(n, ?mv) \<notin> live_entries (regs ra) - {?x}"
    "ra_capacity ra' = ra_capacity ra" "ra_live_count ra' = ra_live_count ra"
    "ra_alloc_offset ra' = om_assign aid n (om_erase aid (ra_alloc_offset ra))"
    "ra_live_bytes ra' = ra_live_bytes ra + s - ri_size r" "ra_summary_dirty ra'"
    by (rule relocate_layout [OF inv r(1) none])
  have al: "is_pow2 al" "unat al dvd unat n" using none r(1) by (auto simp: relocate_reject_def split: if_splits)
  have fin: "finite (live_entries (regs ra))" by (simp add: live_entries_def)
  have xin: "?x \<in> live_entries (regs ra)" using e by (simp add: live_entries_def)
  have sum: "live_sum (regs ra') + unat (ri_size r) = live_sum (regs ra) + unat s"
    using swap_sum [OF fin xin m(5), of "\<lambda>kv. unat (ri_size (snd kv))"] unfolding live_sum_def m(4)
    by (simp only: snd_conv moved_region_simps)
  have card: "card (live_entries (regs ra')) = card (live_entries (regs ra))"
    using swap_sum [OF fin xin m(5), of "\<lambda>_. 1"] unfolding m(4) by (simp only: card_eq_sum add_right_cancel)
  have R': "layout_ok {..<unat (ra_capacity ra)} (regs ra')" using core_layout [OF m(2)] .
  have bnd: "live_sum (regs ra') \<le> unat (ra_capacity ra)" by (rule live_sum_bound [OF R' finite_regs])
  have old: "unat (ra_live_bytes ra) = live_sum (regs ra)" "unat (ra_live_count ra) = card (live_entries (regs ra))"
    using inv by (simp_all add: arena_inv_def)
  have le: "unat (ri_size r) \<le> live_sum (regs ra)" using live_sum_remove [OF finite_regs e(1)] e(2) by simp
  have lb: "unat (ra_live_bytes ra') = live_sum (regs ra')"
  proof -
    have "ra_live_bytes ra' = (ra_live_bytes ra - ri_size r) + s" using m(9) by simp
    moreover have "unat (ra_live_bytes ra - ri_size r) = live_sum (regs ra) - unat (ri_size r)"
      using le old by (subst unat_sub_le) simp_all
    ultimately show ?thesis using sum bnd le by (simp, subst unat_add_le [of _ _ "ra_capacity ra"]) simp_all
  qed
  have links: "links_ok (live_entries (regs ra')) (ra_alloc_offset ra')"
    unfolding m(4,8) using links_insert [OF links_remove_arena [OF inv r(1)], of ?mv n] e(3) by (simp add: om_find_erase)
  have algn: "aligned_ok (regs ra')"
    using inv al unfolding aligned_ok_def m(4) by (auto simp: arena_inv_def aligned_ok_def word_mod_eq_0_iff)
  have inv': "arena_inv ra'"
    using inv m(2,3,6,7,10) lb links algn card old by (simp add: arena_inv_def summary_ok_def)
  have "arena_live ra' = (arena_live ra)(aid \<mapsto> ?mv)"
    by (rule arena_live_replace [OF inv inv' r(1)]) (use e(3) m(4) in simp_all)
  then show thesis using that [of r ra'] r m(1,6) inv' sum lb old by simp
qed

end
