(* ===== verification/Gms_Region_Query.thy ===== *)
theory Gms_Region_Query
  imports Gms_Region_Move
begin

text \<open>
  The remaining operations of the region allocator: construction, \<open>pin\<close>, \<open>unpin\<close> and \<open>get\<close> (a region
  changed in place), the self-check \<open>verify\<close> (it reports nothing on a well-formed arena) and the
  cached summary (\<open>ensure_summary\<close> yields the number and the largest size of the free regions).
\<close>

section \<open>Construction\<close>

lemma arena_inv_new:
  assumes "c \<noteq> 0"
  shows "arena_inv (RegionAllocator_new c)" "arena_live (RegionAllocator_new c) = Map.empty"
    "ra_capacity (RegionAllocator_new c) = c"
proof -
  define f where "f = RegionInfo_default\<lparr>ri_live := False, ri_offset := 0, ri_size := c, ri_region_id := TypedId 1,
    ri_region_generation := TypedGeneration 1, ri_provenance := Provenance.DERIVED\<rparr>"
  have f: "\<not> ri_live f" "ri_offset f = 0" "ri_size f = c" by (simp_all add: f_def)
  let ?ra = "RegionAllocator_new c"
  have ra: "ra_regions ?ra = [(0, f)]" "ra_free_slots ?ra = [FreeSlot c 0]" "ra_live_bytes ?ra = 0" "ra_live_count ?ra = 0"
    "ra_alloc_offset ?ra = []" "ra_summary_dirty ?ra" "ra_capacity ?ra = c"
    using assms by (simp_all add: RegionAllocator_new_def Let_def index_free_def u64_pos_iff f_def)
  have R: "regs ?ra = {(0, f)}" by (simp add: regs_def ra)
  have "live_entries {(0, f)} = {}" "free_entries {(0, f)} = {(0, f)}" using f by (auto simp: live_entries_def free_entries_def)
  moreover have "layout_ok {..<unat c} {(0, f)}" using f assms by (auto simp: layout_ok_def bytes_of_def)
  ultimately show "arena_inv ?ra"
    using assms f unfolding arena_inv_def core_inv_def R
    by (simp add: ra slot_of_def no_adjacent_free_def aligned_ok_def live_sum_def links_ok_def summary_ok_def unat_eq_zero)
  show "arena_live ?ra = Map.empty" by (simp add: arena_live_def ra fun_eq_iff)
  show "ra_capacity ?ra = c" by (rule ra)
qed

section \<open>Changing a region in place\<close>

lemma alignedD: "aligned_ok R \<Longrightarrow> (k, r) \<in> live_entries R \<Longrightarrow> is_pow2 (ri_alignment r) \<and> k mod ri_alignment r = 0"
  unfolding aligned_ok_def by (drule (1) bspec) simp

lemma no_adjacentD: "no_adjacent_free R \<Longrightarrow> a \<in> R \<Longrightarrow> b \<in> R \<Longrightarrow> hi_of a = lo_of b \<Longrightarrow> ri_live (snd a) \<or> ri_live (snd b)"
  unfolding no_adjacent_free_def free_entries_def by blast

lemma set_region_keeps:
  assumes inv: "arena_inv ra" and live: "arena_live ra aid = Some r"
    and same: "ri_offset r' = ri_offset r" "ri_size r' = ri_size r" "ri_alignment r' = ri_alignment r"
      "ri_live r'" "ri_alloc_id r' = ri_alloc_id r"
  shows "arena_inv (set_region (ri_offset r) r' ra)"
    "arena_live (set_region (ri_offset r) r' ra) = (arena_live ra)(aid \<mapsto> r')"
proof -
  note e = arena_entry [OF inv live]
  let ?ra = "set_region (ri_offset r) r' ra" and ?x = "(ri_offset r, r)" and ?y = "(ri_offset r, r')"
  let ?B = "{..<unat (ra_capacity ra)}"
  have R: "regs ?ra = insert ?y (regs ra - {?x})"
    using erase_key [OF arena_layout [OF inv] e(1)] core_om_ok [OF arena_core [OF inv]]
    by (simp add: set_region_def regs_def set_om_assign)
  have b: "bytes_of ?y = bytes_of ?x" using same by (simp add: bytes_of_def)
  have "layout_ok (?B - bytes_of ?x \<union> bytes_of ?y) (regs ?ra)"
    unfolding R using layout_erase [OF arena_layout [OF inv] e(1)] e(4) same
    by (intro layout_insert) (auto simp: b)
  then have lay: "layout_ok ?B (regs ?ra)"
    using layout_bytes [OF arena_layout [OF inv] e(1)] by (simp add: b Un_absorb2 Diff_partition Un_commute)
  have fe: "free_entries (regs ?ra) = free_entries (regs ra)"
    unfolding R using e(2) same by (auto simp: free_entries_def)
  have le: "live_entries (regs ?ra) = insert ?y (live_entries (regs ra) - {?x})"
    unfolding R using e(2) same by (auto simp: live_entries_def)
  have fin: "finite (live_entries (regs ra))" by (simp add: live_entries_def)
  have xin: "?x \<in> live_entries (regs ra)" using e by (simp add: live_entries_def)
  have nin: "?y \<notin> live_entries (regs ra) - {?x}"
    using layout_key_inject [OF arena_layout [OF inv] e(1), of ?y] by (auto simp: live_entries_def)
  have sums: "live_sum (regs ?ra) = live_sum (regs ra)" "card (live_entries (regs ?ra)) = card (live_entries (regs ra))"
    using swap_sum [OF fin xin nin, of "\<lambda>kv. unat (ri_size (snd kv))"] swap_sum [OF fin xin nin, of "\<lambda>_. 1"] same
    unfolding live_sum_def le card_eq_sum by simp_all
  have links: "links_ok (live_entries (regs ?ra)) (ra_alloc_offset ra)"
  proof -
    have "(\<exists>q. (off, q) \<in> live_entries (regs ?ra) \<and> ri_alloc_id q = i) \<longleftrightarrow>
        (\<exists>q. (off, q) \<in> live_entries (regs ra) \<and> ri_alloc_id q = i)" for off i
      unfolding le using xin same(5) by auto
    then show ?thesis using inv by (simp add: arena_inv_def links_ok_def)
  qed
  have al: "aligned_ok (regs ?ra)"
    using inv alignedD [OF _ xin] same unfolding aligned_ok_def le arena_inv_def by auto
  show inv': "arena_inv ?ra"
    using inv lay fe sums links al om_ok_assign [OF core_om_ok [OF arena_core [OF inv]]]
    by (simp add: arena_inv_def core_inv_def no_adjacent_free_def set_region_def summary_ok_def)
  show "arena_live ?ra = (arena_live ra)(aid \<mapsto> r')"
    using inv inv' live by (rule arena_live_replace) (use e(3) same le in simp_all)
qed

section \<open>pin and unpin\<close>

definition pinned_region :: "RegionInfo \<Rightarrow> RegionInfo" where
  "pinned_region r = r\<lparr>ri_movability := Movability.PINNED, ri_pin_count := ri_pin_count r + 1\<rparr>"

definition unpinned_region :: "RegionInfo \<Rightarrow> RegionInfo" where
  "unpinned_region r = r\<lparr>ri_pin_count := ri_pin_count r - 1,
     ri_movability := (if ri_pin_count r - 1 = 0 then Movability.MOVABLE else ri_movability r)\<rparr>"

lemma pin_effect:
  assumes inv: "arena_inv ra"
  shows "case arena_live ra aid of
      Some r \<Rightarrow> if ri_alloc_generation r = gen
        then \<exists>ra'. arena_pin ra aid gen = (ra', Ok (pinned_region r)) \<and> arena_inv ra' \<and>
             arena_live ra' = (arena_live ra)(aid \<mapsto> pinned_region r) \<and> same_frame ra' ra
        else \<exists>msg. arena_pin ra aid gen = (ra, Err (Failure RejectReason.STALE_GENERATION msg))
    | None \<Rightarrow> \<exists>msg. arena_pin ra aid gen = (ra, Err (Failure RejectReason.STALE_GENERATION msg))"
  using inv
proof (cases rule: arena_live_cases [of ra aid])
  case none
  then show ?thesis by (simp add: arena_pin_def)
next
  case (some r)
  have "arena_inv (set_region (ri_offset r) (pinned_region r) ra)"
    "arena_live (set_region (ri_offset r) (pinned_region r) ra) = (arena_live ra)(aid \<mapsto> pinned_region r)"
    by (rule set_region_keeps [OF inv some(1)]; use some(5) in \<open>simp add: pinned_region_def\<close>)+
  moreover have "same_frame (set_region (ri_offset r) (pinned_region r) ra) ra" by (simp add: set_region_def same_frame_def)
  ultimately show ?thesis using some by (simp add: arena_pin_def pinned_region_def Let_def)
qed

lemma unpin_effect:
  assumes inv: "arena_inv ra"
  shows "case arena_live ra aid of
      Some r \<Rightarrow> if ri_alloc_generation r \<noteq> gen
        then \<exists>msg. arena_unpin ra aid gen = (ra, Err (Failure RejectReason.STALE_GENERATION msg))
        else if ri_pin_count r = 0 then \<exists>msg. arena_unpin ra aid gen = (ra, Err (Failure RejectReason.INVALID_REQUEST msg))
        else \<exists>ra'. arena_unpin ra aid gen = (ra', Ok (unpinned_region r)) \<and> arena_inv ra' \<and>
             arena_live ra' = (arena_live ra)(aid \<mapsto> unpinned_region r) \<and> same_frame ra' ra
    | None \<Rightarrow> \<exists>msg. arena_unpin ra aid gen = (ra, Err (Failure RejectReason.STALE_GENERATION msg))"
  using inv
proof (cases rule: arena_live_cases [of ra aid])
  case none
  then show ?thesis by (simp add: arena_unpin_def)
next
  case (some r)
  have "arena_inv (set_region (ri_offset r) (unpinned_region r) ra)"
    "arena_live (set_region (ri_offset r) (unpinned_region r) ra) = (arena_live ra)(aid \<mapsto> unpinned_region r)"
    by (rule set_region_keeps [OF inv some(1)]; use some(5) in \<open>simp add: unpinned_region_def\<close>)+
  moreover have "same_frame (set_region (ri_offset r) (unpinned_region r) ra) ra" by (simp add: set_region_def same_frame_def)
  ultimately show ?thesis using some by (simp add: arena_unpin_def unpinned_region_def Let_def)
qed

lemma get_effect:
  assumes inv: "arena_inv ra"
  shows "arena_get ra aid gen = Ok r \<longleftrightarrow> arena_live ra aid = Some r \<and> ri_alloc_generation r = gen"
    and "(\<exists>r. arena_get ra aid gen = Ok r) \<or> (\<exists>msg. arena_get ra aid gen = Err (Failure RejectReason.STALE_GENERATION msg))"
  using inv by (cases rule: arena_live_cases [of ra aid]; auto simp: arena_get_def)+

section \<open>verify\<close>

text \<open>The regions in address order, each starting where the one before it ends.\<close>

fun tiles :: "nat \<Rightarrow> (u64, RegionInfo) omap \<Rightarrow> nat \<Rightarrow> bool" where
  "tiles lo [] hi \<longleftrightarrow> lo = hi"
| "tiles lo (x # m) hi \<longleftrightarrow> lo_of x = lo \<and> ri_size (snd x) \<noteq> 0 \<and> tiles (hi_of x) m hi"

lemma tiles_le: "tiles lo m hi \<Longrightarrow> lo \<le> hi"
  by (induction lo m hi rule: tiles.induct) auto

lemma layout_tiles:
  "om_ok m \<Longrightarrow> layout_ok {lo..<hi} (set m) \<Longrightarrow> lo \<le> hi \<Longrightarrow> tiles lo m hi"
proof (induction m arbitrary: lo)
  case Nil
  then show ?case by (auto simp: layout_ok_def)
next
  case (Cons x m)
  have lay: "layout_ok {lo..<hi} (insert x (set m))" using Cons.prems(2) by simp
  have sz: "0 < unat (ri_size (snd x))" using size_pos [OF lay, of x] by simp
  have sub: "bytes_of x \<subseteq> {lo..<hi}" using layout_bytes [OF lay, of x] by simp
  have "lo_of x \<in> bytes_of x" "hi_of x - 1 \<in> bytes_of x" using sz by (auto simp: bytes_of_def)
  with sub have "lo_of x \<in> {lo..<hi}" "hi_of x - 1 \<in> {lo..<hi}" by blast+
  with sz have xin: "lo \<le> lo_of x" "lo_of x < hi" "hi_of x \<le> hi" by auto
  then have "lo \<in> {lo..<hi}" by simp
  from layout_cover [OF lay this] obtain y where y: "y \<in> insert x (set m)" "lo \<in> bytes_of y" ..
  have "lo_of x \<le> lo_of y" using y(1) Cons.prems(1) by (auto simp: gms_word less_imp_le)
  with y(2) xin have lo: "lo_of x = lo" by (auto simp: bytes_of_def)
  have "x \<notin> set m" using Cons.prems(1) by auto
  then have "layout_ok ({lo..<hi} - bytes_of x) (set m)" using layout_erase [OF lay, of x] by simp
  moreover have "{lo..<hi} - bytes_of x = {hi_of x..<hi}" using lo by (auto simp: bytes_of_def)
  ultimately have "tiles (hi_of x) m hi" using Cons.prems(1) xin(3) by (intro Cons.IH) simp_all
  with lo sz show ?case by (simp add: unat_pos_iff)
qed

definition free_pair :: "(u64 \<times> bool) option \<Rightarrow> (u64, RegionInfo) omap \<Rightarrow> bool" where
  "free_pair prev m \<longleftrightarrow> (case (prev, m) of (Some (_, True), x # _) \<Rightarrow> \<not> ri_live (snd x) | _ \<Rightarrow> False)"

lemma verify_loop_ok:
  assumes "tiles (unat e) m (unat (c :: u64))" "no_adjacent_free (set m)" "aligned_ok (set m)"
    "prev = None \<or> (\<exists>f. prev = Some (e, f))" "\<not> free_pair prev m"
  shows "verify_loop m e ls prev fc = Inr (c, ls + sum_list (map ri_size (filter ri_live (map snd m))),
     fc + of_nat (length (filter (\<lambda>r. \<not> ri_live r) (map snd m))))"
  using assms
proof (induction m arbitrary: e ls prev fc)
  case Nil
  then show ?case by (simp add: u64_eq_iff)
next
  case (Cons x m)
  obtain k r where x: "x = (k, r)" by (cases x)
  have k: "k = e" and t: "tiles (unat k + unat (ri_size r)) m (unat c)" using Cons.prems(1) x by (auto simp: u64_eq_iff)
  have en: "unat (k + ri_size r) = unat k + unat (ri_size r)" using tiles_le [OF t] by (rule unat_add_le)
  have al: "ri_live r \<Longrightarrow> is_pow2 (ri_alignment r) \<and> k mod ri_alignment r = 0"
    using alignedD [OF Cons.prems(3), of k r] x by (simp add: live_entries_def)
  have na: "no_adjacent_free (set m)" using Cons.prems(2) by (rule no_adjacent_subset) auto
  have alm: "aligned_ok (set m)" using Cons.prems(3) by (auto simp: aligned_ok_def live_entries_def)
  note prems2 = Cons.prems(2)
  have fp: "\<not> free_pair (Some (k + ri_size r, \<not> ri_live r)) m"
  proof (cases m)
    case (Cons y m')
    have "ri_live r \<or> ri_live (snd y)"
      using no_adjacentD [OF prems2, of x y] t Cons x by simp
    with Cons show ?thesis by (auto simp: free_pair_def split: bool.splits)
  qed (simp add: free_pair_def split: bool.splits)
  note IH = Cons.IH [of "k + ri_size r" "Some (k + ri_size r, \<not> ri_live r)", unfolded en, OF t na alm _ fp]
  have "\<not> (case prev of Some (pe, _) \<Rightarrow> pe > k | None \<Rightarrow> False)" using Cons.prems(4) k by auto
  moreover have "\<not> (case prev of Some (pe, pf) \<Rightarrow> pf \<and> \<not> ri_live r \<and> pe = k | None \<Rightarrow> False)"
    using Cons.prems(4,5) k x by (auto simp: free_pair_def split: bool.splits)
  ultimately show ?case using x al IH unfolding k by (simp add: is_pow2_def algebra_simps)
qed

lemma arena_tiles: "arena_inv ra \<Longrightarrow> tiles 0 (ra_regions ra) (unat (ra_capacity ra))"
  using layout_tiles [OF core_om_ok [OF arena_core], of ra 0 "unat (ra_capacity ra)"] arena_layout [of ra]
  by (simp add: lessThan_atLeast0 regs_def)

lemma om_distinct_sum:
  fixes f :: "entry \<Rightarrow> nat"
  shows "om_ok m \<Longrightarrow> (\<Sum>x\<leftarrow>filter P m. f x) = (\<Sum>x\<in>{x \<in> set m. P x}. f x)"
  using distinct_map [of fst m] om_ok_distinct [of m] sum_list_distinct_conv_sum_set [of "filter P m" f] by simp

lemma word_sum_of_nat: "sum_list (map ri_size rs) = of_nat (\<Sum>r\<leftarrow>rs. unat (ri_size r))"
  by (induction rs) simp_all

lemma live_bytes_sum:
  assumes inv: "arena_inv ra"
  shows "sum_list (map ri_size (filter ri_live (map snd (ra_regions ra)))) = ra_live_bytes ra"
proof -
  have "(\<Sum>r\<leftarrow>filter ri_live (map snd (ra_regions ra)). unat (ri_size r)) =
      (\<Sum>x\<leftarrow>filter (\<lambda>x. ri_live (snd x)) (ra_regions ra). unat (ri_size (snd x)))"
    by (simp add: filter_map comp_def)
  also have "\<dots> = live_sum (regs ra)"
    using om_distinct_sum [OF core_om_ok [OF arena_core [OF inv]]] by (simp add: live_sum_def live_entries_def regs_def)
  also have "\<dots> = unat (ra_live_bytes ra)" using inv by (simp add: arena_inv_def)
  finally show ?thesis unfolding word_sum_of_nat by simp
qed

lemma free_slots_length:
  assumes inv: "arena_inv ra"
  shows "length (filter (\<lambda>r. \<not> ri_live r) (map snd (ra_regions ra))) = length (ra_free_slots ra)"
    "length (ra_free_slots ra) = card (free_entries (regs ra))"
proof -
  have core: "core_inv {..<unat (ra_capacity ra)} ra" by (rule arena_core [OF inv])
  have "length (ra_free_slots ra) = card (slot_of ` free_entries (regs ra))"
    using core os_card [of "ra_free_slots ra"] by (simp add: core_inv_def)
  also have "\<dots> = card (free_entries (regs ra))"
    using slot_of_inject [OF core_layout [OF core]] by (intro card_image) (auto simp: inj_on_def free_entries_def)
  finally show n: "length (ra_free_slots ra) = card (free_entries (regs ra))" .
  have "distinct (ra_regions ra)" using om_ok_distinct [OF core_om_ok [OF core]] distinct_map by blast
  then have "card (free_entries (regs ra)) = length (filter (\<lambda>x. \<not> ri_live (snd x)) (ra_regions ra))"
    using distinct_card [of "filter (\<lambda>x. \<not> ri_live (snd x)) (ra_regions ra)"] by (simp add: free_entries_def regs_def)
  then show "length (filter (\<lambda>r. \<not> ri_live r) (map snd (ra_regions ra))) = length (ra_free_slots ra)"
    using n by (simp add: filter_map comp_def)
qed

lemma verify_ok:
  assumes inv: "arena_inv ra" shows "arena_verify ra = ''''"
proof -
  have "verify_loop (ra_regions ra) 0 0 None 0 = Inr (ra_capacity ra,
      0 + sum_list (map ri_size (filter ri_live (map snd (ra_regions ra)))),
      0 + of_nat (length (filter (\<lambda>r. \<not> ri_live r) (map snd (ra_regions ra)))))"
    using arena_tiles [OF inv] inv by (intro verify_loop_ok) (simp_all add: arena_inv_def regs_def free_pair_def)
  then show ?thesis unfolding live_bytes_sum [OF inv] free_slots_length(1) [OF inv] by (simp add: arena_verify_def)
qed

section \<open>The summary cache\<close>

lemma free_count_le:
  assumes "arena_inv ra" shows "card (free_entries (regs ra)) \<le> unat (ra_capacity ra)"
proof -
  have "card (free_entries (regs ra)) = (\<Sum>kv\<in>free_entries (regs ra). 1)" by simp
  also have "\<dots> \<le> (\<Sum>kv\<in>free_entries (regs ra). unat (ri_size (snd kv)))"
    using size_pos [OF arena_layout [OF assms]] by (intro sum_mono) (auto simp: free_entries_def Suc_le_eq)
  finally show ?thesis using arena_sum [OF assms] by simp
qed

lemma summary_effect:
  assumes inv: "arena_inv ra" and ra': "ra' = ensure_summary ra"
  shows "arena_inv ra'" "arena_live ra' = arena_live ra" "regs ra' = regs ra" "same_frame ra' ra"
    "unat (ra_free_count ra') = card (free_entries (regs ra))"
    "unat (ra_largest_free ra') = Max (insert 0 ((\<lambda>kv. unat (ri_size (snd kv))) ` free_entries (regs ra)))"
proof -
  have core: "core_inv {..<unat (ra_capacity ra)} ra" by (rule arena_core [OF inv])
  have same: "ra_regions ra' = ra_regions ra" "ra_free_slots ra' = ra_free_slots ra" "ra_capacity ra' = ra_capacity ra"
    "ra_live_bytes ra' = ra_live_bytes ra" "ra_live_count ra' = ra_live_count ra" "ra_alloc_offset ra' = ra_alloc_offset ra"
    by (simp_all add: ra' ensure_summary_def)
  have vals: "ra_free_count ra' = of_nat (length (ra_free_slots ra))"
    "ra_largest_free ra' = (if ra_free_slots ra = [] then 0 else fs_size (last (ra_free_slots ra)))"
    using inv by (auto simp: ra' ensure_summary_def arena_inv_def summary_ok_def)
  show regs': "regs ra' = regs ra" and "same_frame ra' ra" "arena_live ra' = arena_live ra"
    by (simp_all add: regs_def same same_frame_def arena_live_def [abs_def] cong: option.case_cong)
  show "arena_inv ra'"
    using inv core_inv_cong [of ra' ra] same vals regs' by (simp add: arena_inv_def summary_ok_def)
  have "card (free_entries (regs ra)) < 2 ^ 64" using free_count_le [OF inv] arena_capacity_bound [of ra] by simp
  then show "unat (ra_free_count ra') = card (free_entries (regs ra))"
    unfolding vals free_slots_length(2) [OF inv] by (simp add: unat_of_nat)
  have ok: "os_ok (ra_free_slots ra)" and st: "set (ra_free_slots ra) = slot_of ` free_entries (regs ra)"
    using core by (simp_all add: core_inv_def)
  let ?S = "(\<lambda>kv. unat (ri_size (snd kv))) ` free_entries (regs ra)"
  have S: "?S = (\<lambda>s. unat (fs_size s)) ` set (ra_free_slots ra)" unfolding st by (simp add: image_image slot_of_def)
  show "unat (ra_largest_free ra') = Max (insert 0 ?S)"
  proof (rule Max_eqI [symmetric])
    show "finite (insert 0 ?S)" unfolding S by simp
    have "unat (fs_size s) \<le> unat (fs_size (last (ra_free_slots ra)))" if "s \<in> set (ra_free_slots ra)" for s
      using slot_size_mono [OF os_last_Max [OF ok _ that]] that by (cases "ra_free_slots ra = []") (simp_all add: gms_word)
    then show "y \<le> unat (ra_largest_free ra')" if "y \<in> insert 0 ?S" for y
      using that unfolding S vals by auto
    show "unat (ra_largest_free ra') \<in> insert 0 ?S" unfolding S vals by simp
  qed
qed

end
