(* ===== verification/Gms_Region_Props.thy ===== *)
theory Gms_Region_Props
  imports Gms_Region_Query
begin

text \<open>
  The contracts of the region allocator.  \<open>handle_op\<close> and \<open>consuming_op\<close> are the interface the governor
  relies on for every operation that takes a handle, interpreted on \<open>free\<close>, \<open>relocate\<close>, \<open>pin\<close> and \<open>unpin\<close>.
  \<open>arena_reach\<close> is the set of arenas that calls can produce; the theorems C1 to C11 are the
  properties of the component.
\<close>

lemma has_value_simps [simp]: "has_value (Ok x)" "\<not> has_value (Err e)" "\<not> has_value Fault"
  by (simp_all add: has_value_def)

section \<open>Handle contracts\<close>

text \<open>
  An operation that takes a handle \<open>(id, generation)\<close>: a handle that is not current is refused
  and nothing changes; the invariant and the other allocations are kept in every case.
\<close>

locale handle_op =
  fixes inv :: "'s \<Rightarrow> bool" and live :: "'s \<Rightarrow> AllocationId \<Rightarrow> 'r option"
    and gen_of :: "'r \<Rightarrow> AllocationGeneration"
    and opn :: "'s \<Rightarrow> AllocationId \<Rightarrow> AllocationGeneration \<Rightarrow> 's \<times> 'a result"
  assumes stale: "inv s \<Longrightarrow> \<not> (\<exists>r. live s aid = Some r \<and> gen_of r = g) \<Longrightarrow>
      \<exists>msg. opn s aid g = (s, Err (Failure RejectReason.STALE_GENERATION msg))"
    and keeps: "inv s \<Longrightarrow> inv (fst (opn s aid g))"
    and frame: "inv s \<Longrightarrow> other \<noteq> aid \<Longrightarrow> live (fst (opn s aid g)) other = live s other"
begin

text \<open>A client that only holds stale handles cannot change anything, however many calls it makes.\<close>

lemma stale_calls:
  assumes "inv s" "\<forall>(aid, g)\<in>set hs. \<not> (\<exists>r. live s aid = Some r \<and> gen_of r = g)"
  shows "foldl (\<lambda>s (aid, g). fst (opn s aid g)) s hs = s"
  using assms
proof (induction hs)
  case (Cons h hs)
  obtain aid g where h: "h = (aid, g)" by (cases h)
  with Cons.prems have "\<not> (\<exists>r. live s aid = Some r \<and> gen_of r = g)" by simp
  with stale [OF Cons.prems(1), of aid g] have "fst (opn s aid g) = s" by auto
  with Cons h show ?case by simp
qed simp

lemma calls_keep: "inv s \<Longrightarrow> inv (foldl (\<lambda>s (aid, g). fst (opn s aid g)) s hs)"
  by (induction hs arbitrary: s) (auto simp: keeps)

end

text \<open>An operation that also uses up the handle: a second call with it is refused.\<close>

locale consuming_op = handle_op +
  assumes fenced: "inv s \<Longrightarrow> opn s aid g = (s', Ok a) \<Longrightarrow> \<not> (\<exists>r. live s' aid = Some r \<and> gen_of r = g)"
begin

lemma once:
  assumes "inv s" "opn s aid g = (s', Ok a)"
  shows "\<exists>msg. opn s' aid g = (s', Err (Failure RejectReason.STALE_GENERATION msg))"
proof -
  have "inv s'" using keeps [OF assms(1), of aid g] assms(2) by simp
  then show ?thesis using fenced [OF assms] by (rule stale)
qed

end

lemma free_cases:
  assumes inv: "arena_inv ra"
  obtains (ok) ra' f r where "arena_live ra aid = Some r" "ri_alloc_generation r = gen" "arena_free ra aid gen = (ra', Ok f)"
      "arena_inv ra'" "arena_live ra' = (arena_live ra)(aid := None)"
  | (stale) msg where "\<not> (\<exists>r. arena_live ra aid = Some r \<and> ri_alloc_generation r = gen)"
      "arena_free ra aid gen = (ra, Err (Failure RejectReason.STALE_GENERATION msg))"
proof (cases "\<exists>r. arena_live ra aid = Some r \<and> ri_alloc_generation r = gen")
  case True
  then obtain r where r: "arena_live ra aid = Some r" "ri_alloc_generation r = gen" by blast
  then show thesis using ok free_success [OF inv r] by metis
next
  case False
  then show thesis using stale free_reject [OF inv False] by blast
qed

lemma relocate_cases:
  assumes inv: "arena_inv ra"
  obtains (ok) ra' r where "arena_live ra aid = Some r" "ri_alloc_generation r = gen"
      "arena_relocate ra aid gen n s al = (ra', Ok (moved_region r gen n s al))" "arena_inv ra'"
      "arena_live ra' = (arena_live ra)(aid \<mapsto> moved_region r gen n s al)"
  | (rejected) why msg where "relocate_reject ra aid gen n s al = Some why"
      "arena_relocate ra aid gen n s al = (ra, Err (Failure why msg))"
proof (cases "relocate_reject ra aid gen n s al")
  case None
  then show thesis using ok relocate_success [OF inv None] by metis
next
  case (Some why)
  then show thesis using rejected relocate_decide [OF inv, of aid gen n s al] by auto
qed

interpretation hfree: consuming_op arena_inv arena_live ri_alloc_generation arena_free
proof
  fix s aid g assume inv: "arena_inv s"
  from inv show "arena_inv (fst (arena_free s aid g))" by (cases rule: free_cases [of s aid g]) (simp_all add: inv)
  from inv show "other \<noteq> aid \<Longrightarrow> arena_live (fst (arena_free s aid g)) other = arena_live s other" for other
    by (cases rule: free_cases [of s aid g]) simp_all
  from inv show "arena_free s aid g = (s', Ok a) \<Longrightarrow> \<not> (\<exists>r. arena_live s' aid = Some r \<and> ri_alloc_generation r = g)" for s' a
    by (cases rule: free_cases [of s aid g]) auto
qed (rule free_reject)

lemma relocate_stale:
  assumes "arena_inv ra" "\<not> (\<exists>r. arena_live ra aid = Some r \<and> ri_alloc_generation r = gen)"
  shows "\<exists>msg. arena_relocate ra aid gen n s al = (ra, Err (Failure RejectReason.STALE_GENERATION msg))"
proof -
  have "relocate_reject ra aid gen n s al = Some RejectReason.STALE_GENERATION"
    using assms(2) by (auto simp: relocate_reject_def split: option.splits)
  with relocate_decide [OF assms(1), of aid gen n s al] show ?thesis by simp
qed

interpretation hmove: consuming_op arena_inv arena_live ri_alloc_generation "\<lambda>ra aid g. arena_relocate ra aid g n sz al"
  for n sz al
proof
  fix s aid g assume inv: "arena_inv s"
  from inv show "arena_inv (fst (arena_relocate s aid g n sz al))"
    by (cases rule: relocate_cases [of s aid g n sz al]) (simp_all add: inv)
  from inv show "other \<noteq> aid \<Longrightarrow> arena_live (fst (arena_relocate s aid g n sz al)) other = arena_live s other" for other
    by (cases rule: relocate_cases [of s aid g n sz al]) simp_all
  from inv show "arena_relocate s aid g n sz al = (s', Ok a) \<Longrightarrow>
      \<not> (\<exists>r. arena_live s' aid = Some r \<and> ri_alloc_generation r = g)" for s' a
    by (cases rule: relocate_cases [of s aid g n sz al]) (auto simp: gen_next_neq)
qed (rule relocate_stale)

interpretation hpin: handle_op arena_inv arena_live ri_alloc_generation arena_pin
proof
  fix s aid g assume inv: "arena_inv s"
  note e = pin_effect [OF inv, of aid g]
  show "\<not> (\<exists>r. arena_live s aid = Some r \<and> ri_alloc_generation r = g) \<Longrightarrow>
      \<exists>msg. arena_pin s aid g = (s, Err (Failure RejectReason.STALE_GENERATION msg))"
    using e by (auto split: option.splits if_splits)
  show "arena_inv (fst (arena_pin s aid g))" using e inv by (auto split: option.splits if_splits)
  show "other \<noteq> aid \<Longrightarrow> arena_live (fst (arena_pin s aid g)) other = arena_live s other" for other
    using e by (auto split: option.splits if_splits)
qed

interpretation hunpin: handle_op arena_inv arena_live ri_alloc_generation arena_unpin
proof
  fix s aid g assume inv: "arena_inv s"
  note e = unpin_effect [OF inv, of aid g]
  show "\<not> (\<exists>r. arena_live s aid = Some r \<and> ri_alloc_generation r = g) \<Longrightarrow>
      \<exists>msg. arena_unpin s aid g = (s, Err (Failure RejectReason.STALE_GENERATION msg))"
    using e by (auto split: option.splits if_splits)
  show "arena_inv (fst (arena_unpin s aid g))" using e inv by (auto split: option.splits if_splits)
  show "other \<noteq> aid \<Longrightarrow> arena_live (fst (arena_unpin s aid g)) other = arena_live s other" for other
    using e by (auto split: option.splits if_splits)
qed

section \<open>Reachable arenas\<close>

text \<open>
  The histories of an arena: construction with a non-zero capacity, then any calls.  The caller of
  \<open>allocate\<close> passes an id that is not in use (the governor takes it from a counter).
\<close>

inductive arena_reach :: "u64 \<Rightarrow> RegionAllocator \<Rightarrow> bool" for c where
  init: "c \<noteq> 0 \<Longrightarrow> arena_reach c (RegionAllocator_new c)"
| allocate: "arena_reach c ra \<Longrightarrow> arena_live ra (ar_alloc_id req) = None \<Longrightarrow> arena_reach c (fst (arena_allocate ra req))"
| free: "arena_reach c ra \<Longrightarrow> arena_reach c (fst (arena_free ra aid gen))"
| relocate: "arena_reach c ra \<Longrightarrow> arena_reach c (fst (arena_relocate ra aid gen n sz al))"
| pin: "arena_reach c ra \<Longrightarrow> arena_reach c (fst (arena_pin ra aid gen))"
| unpin: "arena_reach c ra \<Longrightarrow> arena_reach c (fst (arena_unpin ra aid gen))"
| strategy: "arena_reach c ra \<Longrightarrow> arena_reach c (set_strategy st ra)"
| summary: "arena_reach c ra \<Longrightarrow> arena_reach c (ensure_summary ra)"

lemma allocate_keeps:
  assumes "arena_inv ra" "arena_live ra (ar_alloc_id req) = None"
  shows "arena_inv (fst (arena_allocate ra req))" "ra_capacity (fst (arena_allocate ra req)) = ra_capacity ra"
proof -
  have "arena_inv (fst (arena_allocate ra req)) \<and> ra_capacity (fst (arena_allocate ra req)) = ra_capacity ra"
  proof (cases "alloc_reject ra req")
    case None
    from assms(1) None assms(2) show ?thesis by (rule allocate_success) simp
  next
    case (Some why)
    from allocate_reject [OF assms(1) Some] assms(1) show ?thesis by auto
  qed
  then show "arena_inv (fst (arena_allocate ra req))" "ra_capacity (fst (arena_allocate ra req)) = ra_capacity ra" by simp_all
qed

lemma strategy_keeps: "arena_inv (set_strategy st ra) = arena_inv ra"
  using core_inv_cong [of "set_strategy st ra" ra]
  by (simp add: arena_inv_def set_strategy_def regs_def summary_ok_def)

lemma capacity_kept:
  assumes inv: "arena_inv ra"
  shows "ra_capacity (fst (arena_free ra aid gen)) = ra_capacity ra"
    "ra_capacity (fst (arena_relocate ra aid gen n sz al)) = ra_capacity ra"
    "ra_capacity (fst (arena_pin ra aid gen)) = ra_capacity ra"
    "ra_capacity (fst (arena_unpin ra aid gen)) = ra_capacity ra"
proof -
  show "ra_capacity (fst (arena_free ra aid gen)) = ra_capacity ra"
  proof (cases "\<exists>r. arena_live ra aid = Some r \<and> ri_alloc_generation r = gen")
    case True
    then obtain r where "arena_live ra aid = Some r" "ri_alloc_generation r = gen" by blast
    from free_success [OF inv this] show ?thesis by (metis fst_conv)
  next
    case False
    from free_reject [OF inv False] show ?thesis by auto
  qed
  show "ra_capacity (fst (arena_relocate ra aid gen n sz al)) = ra_capacity ra"
  proof (cases "relocate_reject ra aid gen n sz al")
    case None
    from relocate_success [OF inv None] show ?thesis by (metis fst_conv)
  next
    case (Some why)
    with relocate_decide [OF inv, of aid gen n sz al] show ?thesis by auto
  qed
  show "ra_capacity (fst (arena_pin ra aid gen)) = ra_capacity ra"
    using pin_effect [OF inv, of aid gen] by (auto simp: same_frame_def split: option.splits if_splits)
  show "ra_capacity (fst (arena_unpin ra aid gen)) = ra_capacity ra"
    using unpin_effect [OF inv, of aid gen] by (auto simp: same_frame_def split: option.splits if_splits)
qed

lemma reach_inv: "arena_reach c ra \<Longrightarrow> arena_inv ra \<and> ra_capacity ra = c"
proof (induction rule: arena_reach.induct)
  case init then show ?case by (simp add: arena_inv_new)
next
  case (allocate ra req) then show ?case by (simp add: allocate_keeps)
next
  case (summary ra) then show ?case using summary_effect [of ra] by (simp add: same_frame_def)
next
  case (strategy ra st) then show ?case by (simp add: strategy_keeps) (simp add: set_strategy_def)
qed (simp_all add: capacity_kept hfree.keeps hmove.keeps hpin.keeps hunpin.keeps)

section \<open>Properties\<close>

definition handle_current :: "RegionAllocator \<Rightarrow> AllocationId \<Rightarrow> AllocationGeneration \<Rightarrow> bool" where
  "handle_current ra aid gen \<longleftrightarrow> (case arena_live ra aid of None \<Rightarrow> False | Some r \<Rightarrow> ri_alloc_generation r = gen)"

lemma handle_current_iff: "handle_current ra aid gen \<longleftrightarrow> (\<exists>r. arena_live ra aid = Some r \<and> ri_alloc_generation r = gen)"
  by (auto simp: handle_current_def split: option.splits)

definition demo_request :: "u64 \<Rightarrow> u64 \<Rightarrow> u64 \<Rightarrow> AllocRequest" where
  "demo_request b al i = \<lparr>ar_bytes = b, ar_alignment = al, ar_movability = Movability.MOVABLE,
     ar_mem_class = MemoryClass.UNKNOWN, ar_reclaimability = Reclaimability.UNKNOWN,
     ar_alloc_id = TypedId i, ar_alloc_generation = TypedGeneration 1,
     ar_worker_boot = TypedGeneration 0, ar_provenance = Provenance.DERIVED\<rparr>"

text \<open>An arena of 1024 bytes with one 128-byte allocation, for the witnesses.\<close>

definition demo_arena :: RegionAllocator where
  "demo_arena = fst (arena_allocate (RegionAllocator_new 1024) (demo_request 100 64 7))"

lemma demo_inv: "arena_inv demo_arena" "arena_reach 1024 demo_arena"
proof -
  have "arena_reach 1024 (RegionAllocator_new 1024)" by (rule arena_reach.init) simp
  then show "arena_reach 1024 demo_arena"
    unfolding demo_arena_def by (rule arena_reach.allocate) (simp add: arena_inv_new)
  then show "arena_inv demo_arena" by (simp add: reach_inv)
qed

text \<open>
  C1.  Every arena that calls can produce from a new one with a capacity that is not 0, when \<open>allocate\<close> is never called with the
  identity of a live allocation, is well formed: its regions tile \<open>[0, capacity)\<close>, free regions are merged, live regions are
  aligned, and the index, the offset map and the counters agree with them.
\<close>

theorem arena_reachable_inv: "arena_reach c ra \<Longrightarrow> arena_inv ra"
  using reach_inv by blast

theorem arena_reachable_inv_witness:
  "arena_inv (fst (arena_free (fst (arena_relocate demo_arena (TypedId 7) (TypedGeneration 1) 512 256 256))
      (TypedId 7) (TypedGeneration 2)))"
  by (intro arena_reachable_inv [of 1024] arena_reach.free arena_reach.relocate demo_inv)

text \<open>The bytes counted after a request that fits, without wrap-around: the regions still tile the arena.\<close>

lemma allocate_bytes:
  assumes "arena_inv ra" "core_inv {..<unat (ra_capacity ra)} ra'" "split_ok (regs ra) fx x (regs ra')"
    "ra_live_bytes ra' = ra_live_bytes ra + ri_size (snd x)"
  shows "unat (ra_live_bytes ra') = unat (ra_live_bytes ra) + unat (ri_size (snd x))"
proof -
  note lay = arena_layout [OF assms(1)] core_layout [OF assms(2)]
  have fin: "finite (live_entries (regs ra))" by (simp add: live_entries_def)
  have "live_sum (regs ra') = live_sum (regs ra) + unat (ri_size (snd x))"
    using split_live [OF lay assms(3)] fin by (simp add: live_sum_def)
  moreover have "live_sum (regs ra') \<le> unat (ra_capacity ra)" by (rule live_sum_bound [OF lay(2) finite_regs])
  ultimately show ?thesis
    using assms(1) unfolding assms(4) by (subst unat_add_le [of _ _ "ra_capacity ra"]) (auto simp: arena_inv_def)
qed

text \<open>
  C2.  \<open>allocate\<close>, completely, on every request to a well-formed arena: the call is decided by \<open>alloc_reject\<close>.  A rejected
  call changes nothing.  An accepted one adds exactly one live region, at an aligned offset, with the request's size rounded up to
  the alignment; the regions still tile the arena, the bytes are counted, and the identity now leads to the new region.  The arena
  stays well formed, and its allocations are the old ones and the new one, when no live allocation has the identity; when one has it,
  the code accepts the request all the same and the arena is no longer well formed: the old region stays live under no identity.
\<close>

theorem arena_allocate_correct:
  assumes "arena_inv ra"
  shows "case alloc_reject ra req of
      Some why \<Rightarrow> \<exists>msg. arena_allocate ra req = (ra, Err (Failure why msg))
    | None \<Rightarrow> \<exists>ra' r. arena_allocate ra req = (ra', Ok r) \<and>
        live_entries (regs ra') = insert (ri_offset r, r) (live_entries (regs ra)) \<and> (ri_offset r, r) \<notin> live_entries (regs ra) \<and>
        ra_capacity ra' = ra_capacity ra \<and> layout_ok {..<unat (ra_capacity ra)} (regs ra') \<and>
        unat (ri_size r) = alloc_size req \<and> unat (ar_alignment req) dvd unat (ri_offset r) \<and>
        unat (ra_live_bytes ra') = unat (ra_live_bytes ra) + alloc_size req \<and>
        ri_alloc_id r = ar_alloc_id req \<and> ri_alloc_generation r = ar_alloc_generation req \<and>
        ri_movability r = ar_movability req \<and> ri_pin_count r = 0 \<and>
        om_find (ra_alloc_offset ra') = (om_find (ra_alloc_offset ra))(ar_alloc_id req \<mapsto> ri_offset r) \<and>
        (if arena_live ra (ar_alloc_id req) = None then arena_inv ra' \<and> arena_live ra' = (arena_live ra)(ar_alloc_id req \<mapsto> r)
         else \<not> arena_inv ra')"
proof (cases "alloc_reject ra req")
  case None
  from assms(1) None obtain ra' fx rid off where s:
    "arena_allocate ra req = (ra', Ok (live_region req rid off (of_nat (alloc_size req))))"
    "core_inv {..<unat (ra_capacity ra)} ra'"
    "split_ok (regs ra) fx (off, live_region req rid off (of_nat (alloc_size req))) (regs ra')"
    "unat off = round_up (lo_of fx) (unat (ar_alignment req))" "ra_capacity ra' = ra_capacity ra"
    "ra_live_bytes ra' = ra_live_bytes ra + of_nat (alloc_size req)"
    "ra_alloc_offset ra' = om_assign (ar_alloc_id req) off (ra_alloc_offset ra)" "alloc_size req < 2 ^ 64"
    by (rule allocate_effect)
  let ?r = "live_region req rid off (of_nat (alloc_size req))"
  note lay = arena_layout [OF assms(1)] core_layout [OF s(2)]
  have lv: "live_entries (regs ra') = insert (ri_offset ?r, ?r) (live_entries (regs ra))" "(ri_offset ?r, ?r) \<notin> live_entries (regs ra)"
    using split_live [OF lay s(3)] by simp_all
  have sz: "unat (ri_size ?r) = alloc_size req" using s(8) by (simp add: unat_of_nat)
  have bytes: "unat (ra_live_bytes ra') = unat (ra_live_bytes ra) + alloc_size req"
    using allocate_bytes [OF assms(1) s(2,3)] s(6) sz by simp
  have ids: "om_find (ra_alloc_offset ra') = (om_find (ra_alloc_offset ra))(ar_alloc_id req \<mapsto> ri_offset ?r)"
    using assms(1) unfolding s(7) by (subst om_find_assign) (simp_all add: arena_inv_def links_ok_def)
  have inv': "if arena_live ra (ar_alloc_id req) = None then arena_inv ra' \<and> arena_live ra' = (arena_live ra)(ar_alloc_id req \<mapsto> ?r)
      else \<not> arena_inv ra'"
  proof (cases "arena_live ra (ar_alloc_id req)")
    case fresh: None
    from allocate_success [OF assms(1) None fresh] have "arena_inv ra'" using s(1) by (metis prod.inject)
    then show ?thesis using fresh lv arena_live_insert [OF assms(1) _ _ lv(1)] by simp
  next
    case (Some q)
    have "\<not> arena_inv ra'"
    proof
      assume i: "arena_inv ra'"
      have q: "(ri_offset q, q) \<in> live_entries (regs ra)" "ri_alloc_id q = ar_alloc_id req"
        using arena_live_view [OF assms(1), of "ar_alloc_id req" q] Some by simp_all
      have "arena_live ra' (ar_alloc_id req) = Some q" "arena_live ra' (ar_alloc_id req) = Some ?r"
        unfolding arena_live_view [OF i] using q lv(1) by simp_all
      then show False using q(1) lv(2) by simp
    qed
    then show ?thesis using Some by simp
  qed
  have "unat (ar_alignment req) dvd unat (ri_offset ?r)" using s(4) by simp
  then show ?thesis using None s(1,5) lv lay(2) sz bytes ids inv' by simp
next
  case (Some why)
  with allocate_reject [OF assms(1) Some] show ?thesis by simp
qed

theorem arena_allocate_correct_witness:
  "(\<exists>ra' r. arena_allocate demo_arena (demo_request 200 256 8) = (ra', Ok r) \<and> arena_inv ra' \<and>
     arena_live ra' = (arena_live demo_arena)(TypedId 8 \<mapsto> r) \<and> unat (256 :: u64) dvd unat (ri_offset r)) \<and>
   (\<exists>ra' r. arena_allocate demo_arena (demo_request 200 256 7) = (ra', Ok r) \<and> \<not> arena_inv ra' \<and>
     unat (ra_live_bytes ra') = unat (ra_live_bytes demo_arena) + 256)"
proof -
  have free: "arena_live demo_arena (ar_alloc_id (demo_request 200 256 8)) = None"
    and used: "arena_live demo_arena (ar_alloc_id (demo_request 200 256 7)) \<noteq> None" by code_simp+
  have ok: "has_value (snd (arena_allocate demo_arena (demo_request 200 256 8)))"
    "has_value (snd (arena_allocate demo_arena (demo_request 200 256 7)))" by code_simp+
  have sz: "alloc_size (demo_request 200 256 7) = 256" by code_simp
  show ?thesis
    using arena_allocate_correct [OF demo_inv(1), of "demo_request 200 256 8"]
      arena_allocate_correct [OF demo_inv(1), of "demo_request 200 256 7"] ok free used sz
    by (auto simp: demo_request_def split: option.splits)
qed

text \<open>
  C3.  \<open>allocate\<close> is best fit and complete: it succeeds exactly when some free region can take the
  request, and it takes it out of a free region no larger than any other that could.
\<close>

theorem arena_allocate_best_fit:
  assumes "arena_inv ra" "arena_live ra (ar_alloc_id req) = None" "ar_bytes req \<noteq> 0" "is_pow2 (ar_alignment req)"
    "alloc_size req < 2 ^ 64"
  shows "((\<exists>ra' r. arena_allocate ra req = (ra', Ok r)) \<longleftrightarrow> can_fit ra req) \<and>
    (\<forall>ra' r. arena_allocate ra req = (ra', Ok r) \<longrightarrow> (\<exists>fx\<in>free_entries (regs ra).
      lo_of fx \<le> unat (ri_offset r) \<and> unat (ri_offset r) + unat (ri_size r) \<le> hi_of fx \<and>
      (\<forall>kv\<in>free_entries (regs ra). round_up (lo_of kv) (unat (ar_alignment req)) + alloc_size req \<le> hi_of kv \<longrightarrow>
         ri_size (snd fx) \<le> ri_size (snd kv))))"
proof -
  have fit: "alloc_size req \<le> unat (ra_capacity ra)" if "can_fit ra req"
    using that layout_hi_le [OF arena_layout [OF assms(1)]] by (fastforce simp: can_fit_def free_entries_def)
  have bytes: "unat (ar_bytes req) \<le> alloc_size req"
    using round_up_ge assms(4) by (auto simp: alloc_size_def elim: is_pow2_cases)
  have none: "can_fit ra req \<longleftrightarrow> alloc_reject ra req = None"
    using assms(3-5) fit bytes by (auto simp: alloc_reject_def gms_word is_pow2_def)
  note ok = allocate_success [OF assms(1) _ assms(2)] and rej = allocate_reject [OF assms(1)]
  have "(\<exists>ra' r. arena_allocate ra req = (ra', Ok r)) \<longleftrightarrow> can_fit ra req"
  proof (cases "alloc_reject ra req")
    case None
    then show ?thesis unfolding none using ok [OF None] by metis
  next
    case (Some why)
    then show ?thesis unfolding none using rej [OF Some] by auto
  qed
  moreover have "arena_allocate ra req = (ra', Ok r) \<longrightarrow> (\<exists>fx\<in>free_entries (regs ra).
      lo_of fx \<le> unat (ri_offset r) \<and> unat (ri_offset r) + unat (ri_size r) \<le> hi_of fx \<and>
      (\<forall>kv\<in>free_entries (regs ra). round_up (lo_of kv) (unat (ar_alignment req)) + alloc_size req \<le> hi_of kv \<longrightarrow>
         ri_size (snd fx) \<le> ri_size (snd kv)))" for ra' r
  proof (cases "alloc_reject ra req")
    case None
    show ?thesis by (rule ok [OF None]) (auto simp: split_ok_def intro!: bexI)
  next
    case (Some why)
    then show ?thesis using rej [OF Some] by auto
  qed
  ultimately show ?thesis by blast
qed

theorem arena_allocate_best_fit_witness:
  "can_fit demo_arena (demo_request 200 256 8)"
proof -
  have free: "arena_live demo_arena (ar_alloc_id (demo_request 200 256 8)) = None" by code_simp
  have ok: "has_value (snd (arena_allocate demo_arena (demo_request 200 256 8)))" by code_simp
  have p: "is_pow2 (ar_alignment (demo_request 200 256 8))" "ar_bytes (demo_request 200 256 8) \<noteq> 0" by code_simp+
  have s: "alloc_size (demo_request 200 256 8) < 2 ^ 64" by (simp add: alloc_size_def demo_request_def round_up_def)
  show ?thesis
    using arena_allocate_best_fit [OF demo_inv(1) free p(2,1) s] ok
    by (cases "arena_allocate demo_arena (demo_request 200 256 8)"; cases "snd (arena_allocate demo_arena (demo_request 200 256 8))") auto
qed

text \<open>
  C4.  \<open>free\<close>: a current handle frees its region, which joins the free space around it; the
  invariant is kept, only this allocation disappears and its bytes are returned.
\<close>

theorem arena_free_correct:
  assumes "arena_inv ra" "arena_live ra aid = Some r" "ri_alloc_generation r = gen"
  shows "\<exists>ra' f. arena_free ra aid gen = (ra', Ok f) \<and> arena_inv ra' \<and> arena_live ra' = (arena_live ra)(aid := None) \<and>
     unat (free_bytes ra') = unat (free_bytes ra) + unat (ri_size r) \<and> \<not> ri_live f \<and> ri_offset f \<le> ri_offset r \<and>
     unat (ri_offset r) + unat (ri_size r) \<le> unat (ri_offset f) + unat (ri_size f)"
proof -
  obtain ra' f where f: "arena_free ra aid gen = (ra', Ok f)" "arena_inv ra'" "\<not> ri_live f"
    "arena_live ra' = (arena_live ra)(aid := None)" "ra_capacity ra' = ra_capacity ra"
    "unat (ra_live_bytes ra') + unat (ri_size r) = unat (ra_live_bytes ra)"
    "ri_offset f \<le> ri_offset r" "unat (ri_offset r) + unat (ri_size r) \<le> unat (ri_offset f) + unat (ri_size f)"
    by (rule free_success [OF assms])
  moreover have "unat (free_bytes ra') = unat (free_bytes ra) + unat (ri_size r)"
    using f(5,6) live_bytes_le [OF assms(1)] live_bytes_le [OF f(2)] by (simp add: free_bytes_def unat_sub_le)
  ultimately show ?thesis by blast
qed

theorem arena_free_correct_witness:
  "\<exists>ra' f. arena_free demo_arena (TypedId 7) (TypedGeneration 1) = (ra', Ok f) \<and> arena_inv ra' \<and>
     arena_live ra' = (arena_live demo_arena)(TypedId 7 := None)"
proof -
  have live: "arena_live demo_arena (TypedId 7) = Some (the (arena_live demo_arena (TypedId 7)))" by code_simp
  have gen: "ri_alloc_generation (the (arena_live demo_arena (TypedId 7))) = TypedGeneration 1" by code_simp
  from arena_free_correct [OF demo_inv(1) live gen] show ?thesis by blast
qed

text \<open>
  C5.  \<open>relocate\<close>, completely: the call is decided by \<open>relocate_reject\<close> (stale handle, alignment, empty or
  misaligned target, out of bounds, overlap with any live region).  A rejected call changes nothing;
  an accepted one keeps the invariant and moves exactly this allocation, with the next generation.
\<close>

theorem arena_relocate_correct:
  assumes "arena_inv ra"
  shows "case relocate_reject ra aid gen n sz al of
      Some why \<Rightarrow> \<exists>msg. arena_relocate ra aid gen n sz al = (ra, Err (Failure why msg))
    | None \<Rightarrow> \<exists>ra' r. arena_live ra aid = Some r \<and>
        arena_relocate ra aid gen n sz al = (ra', Ok (moved_region r gen n sz al)) \<and> arena_inv ra' \<and>
        arena_live ra' = (arena_live ra)(aid \<mapsto> moved_region r gen n sz al) \<and>
        unat (ra_live_bytes ra') + unat (ri_size r) = unat (ra_live_bytes ra) + unat sz"
proof (cases "relocate_reject ra aid gen n sz al")
  case None
  from assms None show ?thesis by (rule relocate_success) (simp add: None)
next
  case (Some why)
  with relocate_decide [OF assms, of aid gen n sz al] show ?thesis by simp
qed

theorem arena_relocate_correct_witness:
  "\<exists>ra' r. arena_relocate demo_arena (TypedId 7) (TypedGeneration 1) 512 256 256 = (ra', Ok r) \<and>
     ri_alloc_generation r = TypedGeneration 2 \<and> arena_inv ra'"
proof -
  have "has_value (snd (arena_relocate demo_arena (TypedId 7) (TypedGeneration 1) 512 256 256))" by code_simp
  then show ?thesis
    using arena_relocate_correct [OF demo_inv(1), of "TypedId 7" "TypedGeneration 1" 512 256 256]
    by (auto simp: gen_next_def split: option.splits)
qed

text \<open>
  C6.  A stale or unknown handle is refused by every operation of the arena, with the same reason,
  and leaves the arena exactly as it was.
\<close>

theorem stale_handle_refused:
  assumes "arena_inv ra" "\<not> handle_current ra aid gen"
  shows "(\<exists>msg. arena_free ra aid gen = (ra, Err (Failure RejectReason.STALE_GENERATION msg))) \<and>
     (\<exists>msg. arena_relocate ra aid gen n sz al = (ra, Err (Failure RejectReason.STALE_GENERATION msg))) \<and>
     (\<exists>msg. arena_pin ra aid gen = (ra, Err (Failure RejectReason.STALE_GENERATION msg))) \<and>
     (\<exists>msg. arena_unpin ra aid gen = (ra, Err (Failure RejectReason.STALE_GENERATION msg))) \<and>
     (\<exists>msg. arena_get ra aid gen = Err (Failure RejectReason.STALE_GENERATION msg))"
proof -
  have st: "\<not> (\<exists>r. arena_live ra aid = Some r \<and> ri_alloc_generation r = gen)" using assms(2) by (simp add: handle_current_iff)
  have "\<exists>msg. arena_get ra aid gen = Err (Failure RejectReason.STALE_GENERATION msg)"
    using get_effect [OF assms(1), of aid gen] st by blast
  then show ?thesis
    using hfree.stale [OF assms(1) st] hmove.stale [OF assms(1) st] hpin.stale [OF assms(1) st] hunpin.stale [OF assms(1) st]
    by blast
qed

theorem stale_handle_refused_witness:
  "\<exists>msg. arena_free demo_arena (TypedId 7) (TypedGeneration 2) = (demo_arena, Err (Failure RejectReason.STALE_GENERATION msg))"
proof -
  have "\<not> handle_current demo_arena (TypedId 7) (TypedGeneration 2)" by code_simp
  from stale_handle_refused [OF demo_inv(1) this] show ?thesis by blast
qed

text \<open>
  Handles are used up: after a successful \<open>free\<close> or \<open>relocate\<close> no operation accepts the handle
  that was used (no double free, no use of the address before the move).
\<close>

lemma handle_used_once:
  assumes "arena_inv ra" "arena_free ra aid gen = (ra', Ok f) \<or> arena_relocate ra aid gen n sz al = (ra', Ok f)"
  shows "arena_inv ra' \<and> \<not> handle_current ra' aid gen"
  using assms hfree.keeps [of ra aid gen] hmove.keeps [of ra aid gen n sz al]
    hfree.fenced [of ra aid gen ra' f] hmove.fenced [of ra aid gen n sz al ra' f]
  by (auto simp: handle_current_iff)

text \<open>
  Memory safety of the live allocations of a reachable arena: each lies inside the capacity at an
  offset that is a multiple of its alignment, and two allocations never share a byte.
\<close>

lemma live_regions_safe:
  assumes "arena_reach c ra" "arena_live ra a = Some r"
  shows "unat (ri_offset r) + unat (ri_size r) \<le> unat c \<and> ri_offset r mod ri_alignment r = 0 \<and> 0 < unat (ri_size r) \<and>
    (\<forall>b q. b \<noteq> a \<longrightarrow> arena_live ra b = Some q \<longrightarrow>
       unat (ri_offset r) + unat (ri_size r) \<le> unat (ri_offset q) \<or> unat (ri_offset q) + unat (ri_size q) \<le> unat (ri_offset r))"
proof -
  have inv: "arena_inv ra" and c: "ra_capacity ra = c" using reach_inv [OF assms(1)] by simp_all
  note e = arena_entry [OF inv assms(2)]
  have "ri_offset r mod ri_alignment r = 0"
    using alignedD [of "regs ra" "ri_offset r" r] inv e by (simp add: arena_inv_def live_entries_def)
  moreover have "unat (ri_offset r) + unat (ri_size r) \<le> unat (ri_offset q) \<or> unat (ri_offset q) + unat (ri_size q) \<le> unat (ri_offset r)"
    if "b \<noteq> a" "arena_live ra b = Some q" for b q
  proof -
    note e' = arena_entry [OF inv that(2)]
    have "(ri_offset r, r) \<noteq> (ri_offset q, q)" using e(3) e'(3) that(1) by auto
    from layout_sep [OF arena_layout [OF inv] e(1) e'(1) this] show ?thesis by simp
  qed
  ultimately show ?thesis using e(4,5) c by (simp add: unat_pos_iff)
qed

text \<open>
  \<open>pin\<close> and \<open>unpin\<close> are inverse on a movable, unpinned allocation: pinning makes it \<open>PINNED\<close>, unpinning
  gives back the region as it was, and both keep the invariant.
\<close>

lemma pin_unpin_roundtrip:
  assumes "arena_inv ra" "arena_live ra aid = Some r" "ri_alloc_generation r = gen"
    "ri_movability r = Movability.MOVABLE" "ri_pin_count r = 0"
  shows "\<exists>ra1 r1 ra2. arena_pin ra aid gen = (ra1, Ok r1) \<and> ri_movability r1 = Movability.PINNED \<and> arena_inv ra1 \<and>
     arena_unpin ra1 aid gen = (ra2, Ok r) \<and> arena_live ra2 = arena_live ra \<and> arena_inv ra2"
proof -
  obtain ra1 where p: "arena_pin ra aid gen = (ra1, Ok (pinned_region r))" "arena_inv ra1"
    "arena_live ra1 = (arena_live ra)(aid \<mapsto> pinned_region r)"
    using pin_effect [OF assms(1), of aid gen] assms(2,3) by auto
  have u: "unpinned_region (pinned_region r) = r" using assms(4,5) by (simp add: unpinned_region_def pinned_region_def)
  obtain ra2 where "arena_unpin ra1 aid gen = (ra2, Ok r)" "arena_inv ra2" "arena_live ra2 = (arena_live ra1)(aid \<mapsto> r)"
    using unpin_effect [OF p(2), of aid gen] p(3) assms(3,5) u by (auto simp: pinned_region_def)
  moreover have "(arena_live ra1)(aid \<mapsto> r) = arena_live ra" using p(3) assms(2) by auto
  moreover have "ri_movability (pinned_region r) = Movability.PINNED" by (simp add: pinned_region_def)
  ultimately show ?thesis using p(1,2) by metis
qed

text \<open>
  C7.  The accounting of a reachable arena (of a capacity that is not 0, with no identity in use twice): live bytes and free bytes add up to the capacity, the
  live bytes are the sum of the live sizes, and the cached summary is the number of free regions
  and the size of the largest one.
\<close>

theorem arena_accounting:
  assumes "arena_reach c ra"
  shows "unat (ra_live_bytes ra) + unat (free_bytes ra) = unat c \<and>
    unat (ra_live_bytes ra) = (\<Sum>r\<leftarrow>snapshot_live ra. unat (ri_size r)) \<and>
    unat (free_bytes ra) = (\<Sum>kv\<in>free_entries (regs ra). unat (ri_size (snd kv))) \<and>
    unat (snd (free_region_count ra)) = length (snapshot_free ra) \<and>
    unat (snd (largest_free_region ra)) = Max (insert 0 ((\<lambda>kv. unat (ri_size (snd kv))) ` free_entries (regs ra)))"
proof -
  have inv: "arena_inv ra" and c: "ra_capacity ra = c" using reach_inv [OF assms] by simp_all
  have fb: "unat (free_bytes ra) = unat c - unat (ra_live_bytes ra)"
    using live_bytes_le [OF inv] c by (simp add: free_bytes_def unat_sub_le)
  have "unat (ra_live_bytes ra) = (\<Sum>x\<leftarrow>filter (\<lambda>x. ri_live (snd x)) (ra_regions ra). unat (ri_size (snd x)))"
    using inv om_distinct_sum [OF core_om_ok [OF arena_core [OF inv]]]
    by (simp add: arena_inv_def live_sum_def live_entries_def regs_def)
  then have sl: "unat (ra_live_bytes ra) = (\<Sum>r\<leftarrow>snapshot_live ra. unat (ri_size r))"
    by (simp add: snapshot_live_def filter_map comp_def)
  have "unat (snd (free_region_count ra)) = length (snapshot_free ra)"
    using summary_effect(5) [OF inv refl] free_slots_length [OF inv]
    unfolding free_region_count_def snapshot_free_def by (simp only: Let_def snd_conv)
  moreover have "unat (snd (largest_free_region ra)) = Max (insert 0 ((\<lambda>kv. unat (ri_size (snd kv))) ` free_entries (regs ra)))"
    using summary_effect(6) [OF inv refl] by (simp add: largest_free_region_def Let_def)
  ultimately show ?thesis using fb sl arena_sum [OF inv] c by simp
qed

theorem arena_accounting_witness:
  "unat (ra_live_bytes demo_arena) + unat (free_bytes demo_arena) = 1024"
  using arena_accounting [OF demo_inv(2)] by simp

text \<open>C8.  \<open>verify\<close> reports nothing on any reachable arena (of a capacity that is not 0, with no identity in use twice).\<close>

theorem arena_verify_clean: "arena_reach c ra \<Longrightarrow> arena_verify ra = ''''"
  using reach_inv verify_ok by blast

theorem arena_verify_clean_witness: "arena_verify demo_arena = ''''"
  by (rule arena_verify_clean [OF demo_inv(2)])

end
