(* ===== verification/Gms_Persist_Props.thy ===== *)
theory Gms_Persist_Props
  imports Gms_Persist
begin

text \<open>
  What the persistence format promises.  \<open>crec\<close> and \<open>cdom\<close> interpret the codec contract on the record
  and domain codecs; \<open>persist_validate_Ok\<close> characterises what the structural validation accepts, \<open>decode_encode\<close>
  and \<open>decode_Ok\<close> what the decoder accepts.  The properties follow at the end.
\<close>

section \<open>The codec of a record\<close>

text \<open>The second copy of the codec helpers agrees with the one of the protocol.\<close>

lemma persist_crc32_eq: "persist_crc32 = crc32"
  by (simp add: fun_eq_iff persist_crc32_def crc32_def crc_byte_def [abs_def] crc_bit_def [abs_def])

lemma persist_codec_eq [simp]:
  "w_u8 = append_u8" "w_u32 = append_u32" "w_u64 = append_u64" "w_str = append_str"
  "r_u8 = take_u8" "r_u32 = take_u32" "r_u64 = take_u64"
  by (auto simp: fun_eq_iff w_u8_def append_u8_def w_u32_def append_u32_def w_u64_def append_u64_def w_str_def
      append_str_def r_u8_def take_u8_def r_u32_def take_u32_def r_u64_def take_u64_def split: list.splits)

lemma r_str_take: "b \<noteq> [] \<Longrightarrow> take_str b = Got s rest \<Longrightarrow> length b > 4 \<Longrightarrow> r_str b = Got s rest"
  by (auto simp: r_str_def take_str_def take_u32_def split: if_splits rd.splits)

lemma r_str_roundtrip:
  assumes "str_ok s" "rest \<noteq> []"
  shows "r_str (append_str s @ rest) = Got s rest"
  using assms by (intro r_str_take cstr.roundtrip) (simp_all add: append_str_def)

lemma bind_str: "str_ok s \<Longrightarrow> rest \<noteq> [] \<Longrightarrow> rd_bind r_str f (append_str s @ rest) = f s rest"
  by (simp add: rd_bind_def r_str_roundtrip)

lemmas bind_codec = c8.bind c32.bind c64.bind bind_str

text \<open>
  Values that a cast can produce: no enumeration holds a byte in the range of its enumerators
  under the name \<open>Unnamed\<close>, and strings have a length the reader accepts.
\<close>

definition rec_canonical :: "AllocationRecord \<Rightarrow> bool" where
  "rec_canonical r \<longleftrightarrow>
     MemoryClass_of_code (MemoryClass_code (rec_mem_class r)) = rec_mem_class r \<and>
     Reclaimability_of_code (Reclaimability_code (rec_reclaimability r)) = rec_reclaimability r \<and>
     Movability_of_code (Movability_code (rec_movability r)) = rec_movability r \<and>
     ResidencyState_of_code (ResidencyState_code (rec_residency r)) = rec_residency r \<and>
     LifecycleState_of_code (LifecycleState_code (rec_lifecycle r)) = rec_lifecycle r \<and>
     Provenance_of_code (Provenance_code (rec_provenance r)) = rec_provenance r \<and>
     str_ok (rec_owner r) \<and> str_ok (rec_backing_ref r)"

definition dom_canonical :: "MemoryDomain \<Rightarrow> bool" where
  "dom_canonical d \<longleftrightarrow>
     PressureState_of_code (PressureState_code (dom_pressure d)) = dom_pressure d \<and>
     DeviceHealth_of_code (DeviceHealth_code (dom_health d)) = dom_health d \<and>
     Provenance_of_code (Provenance_code (dom_provenance d)) = dom_provenance d"

lemma append_nonempty [simp]: "append_u8 v \<noteq> []" "append_u64 w \<noteq> []"
  by (simp_all add: append_u8_def append_u64_def)

interpretation crec: codec write_record read_record rec_canonical
proof
  fix r rest assume "rec_canonical r"
  then show "read_record (write_record r @ rest) = Got r rest"
    by (simp add: rec_canonical_def write_record_def read_record_def bind_codec rd_return_def)
qed

interpretation cdom: codec write_domain read_domain dom_canonical
proof
  fix d rest assume "dom_canonical d"
  then show "read_domain (write_domain d @ rest) = Got d rest"
    by (simp add: dom_canonical_def write_domain_def read_domain_def bind_codec rd_return_def)
qed

text \<open>What is read is canonical.\<close>

lemma rd_bind_Got: "rd_bind m f b = Got x c \<longleftrightarrow> (\<exists>a b'. m b = Got a b' \<and> f a b' = Got x c)"
  by (auto simp: rd_bind_def split: rd.splits)

lemma r_str_ok: "r_str b = Got s c \<Longrightarrow> str_ok s"
  by (auto simp: r_str_def word_less_nat_alt not_less split: rd.splits if_splits)

lemmas of_code_fixed = MemoryClass.of_code_fixed Reclaimability.of_code_fixed Movability.of_code_fixed
  ResidencyState.of_code_fixed LifecycleState.of_code_fixed Provenance.of_code_fixed
  PressureState.of_code_fixed DeviceHealth.of_code_fixed

lemma read_record_canonical: "read_record b = Got r c \<Longrightarrow> rec_canonical r"
  unfolding read_record_def rd_bind_Got rd_return_def
  by clarify (simp add: rec_canonical_def of_code_fixed r_str_ok [simplified])

lemma read_domain_canonical: "read_domain b = Got d c \<Longrightarrow> dom_canonical d"
  unfolding read_domain_def rd_bind_Got rd_return_def
  by clarify (simp add: dom_canonical_def of_code_fixed)

lemma take_list_Got:
  "take_list f n b = Got xs c \<Longrightarrow> length xs = n \<and> (\<forall>x\<in>set xs. \<exists>b c. f b = Got x c)"
  by (induction n arbitrary: b xs) (auto split: rd.splits, blast)

section \<open>What validation accepts\<close>

definition rec_bytes :: "AllocationRecord \<Rightarrow> nat set" where
  "rec_bytes r = {unat (rec_offset r) ..< unat (rec_offset r) + unat (rec_region_size r)}"

text \<open>
  The records of a snapshot are well formed, no two of them share an identity, and no two live
  ones share a byte.
\<close>

definition layout_valid :: "PersistSnapshot \<Rightarrow> bool" where
  "layout_valid s \<longleftrightarrow>
     (\<forall>r\<in>set (ps_records s @ ps_retired s). validate_record r (dom_managed_capacity (ps_domain s))) \<and>
     distinct (map rec_id (ps_records s @ ps_retired s)) \<and>
     sorted_wrt (\<lambda>r r'. rec_bytes r \<inter> rec_bytes r' = {}) (ps_records s)"

lemma persist_fail_neq [simp]: "persist_fail m \<noteq> Ok x" "persist_fail m \<noteq> Fault"
  by (simp_all add: persist_fail_def)

lemma check_live_Ok:
  "check_live m rs seen sm = Ok p \<longleftrightarrow>
     (\<forall>r\<in>set rs. validate_record r m) \<and> distinct (map rec_id rs) \<and> rec_id ` set rs \<inter> set seen = {} \<and>
     p = (foldl (\<lambda>a r. os_insert (rec_id r) a) seen rs, sm + sum_list (map rec_region_size rs))"
proof (induction rs arbitrary: seen sm)
  case (Cons r rs)
  show ?case
    by (simp add: Cons set_os_insert add.assoc) blast
qed auto

lemma check_retired_Ok:
  "check_retired m rs seen = Ok q \<longleftrightarrow>
     (\<forall>r\<in>set rs. validate_record r m) \<and> distinct (map rec_id rs) \<and> rec_id ` set rs \<inter> set seen = {} \<and>
     q = foldl (\<lambda>a r. os_insert (rec_id r) a) seen rs"
proof (induction rs arbitrary: seen)
  case (Cons r rs)
  show ?case
    by (simp add: Cons set_os_insert) blast
qed auto

lemma check_no_Fault: "check_live m rs seen sm \<noteq> Fault" "check_retired m rs seen \<noteq> Fault"
  by (induction rs arbitrary: seen sm) simp_all

lemma set_seen: "set (foldl (\<lambda>a r. os_insert (rec_id r) a) seen rs) = set seen \<union> rec_id ` set rs"
  by (induction rs arbitrary: seen) (auto simp: set_os_insert)

lemma validate_record_bounds:
  assumes "validate_record r m"
  shows "unat (rec_offset r) + unat (rec_region_size r) \<le> unat m" "0 < unat (rec_region_size r)"
    "unat (rec_offset r + rec_region_size r) = unat (rec_offset r) + unat (rec_region_size r)"
    "unat (rec_requested_bytes r) \<le> unat (rec_region_size r)" "is_pow2 (rec_alignment r)"
    "unat (rec_alignment r) dvd unat (rec_offset r)"
proof -
  from assms have le: "rec_offset r \<le> m" "rec_region_size r \<le> m - rec_offset r"
    and req: "rec_requested_bytes r \<noteq> 0" "rec_requested_bytes r \<le> rec_region_size r"
    and "rec_offset r mod rec_alignment r = 0" and al: "is_pow2 (rec_alignment r)"
    by (auto simp: validate_record_def is_pow2_def not_less split: if_splits)
  show sum: "unat (rec_offset r) + unat (rec_region_size r) \<le> unat m"
    using le unat_sub_le [of "rec_offset r" m] by (simp add: word_le_nat_alt)
  then show "unat (rec_offset r + rec_region_size r) = unat (rec_offset r) + unat (rec_region_size r)"
    by (rule unat_add_le)
  show "unat (rec_requested_bytes r) \<le> unat (rec_region_size r)" using req by (simp add: word_le_nat_alt)
  then show "0 < unat (rec_region_size r)" using req(1) unat_pos_iff [of "rec_requested_bytes r"] by linarith
  show "is_pow2 (rec_alignment r)" by fact
  show "unat (rec_alignment r) dvd unat (rec_offset r)"
    using arg_cong [OF \<open>rec_offset r mod rec_alignment r = 0\<close>, of unat] by (simp add: unat_mod_distrib mod_eq_0_iff_dvd)
qed

lemma sorted_wrt_insort:
  "symp R \<Longrightarrow> sorted_wrt R (insort x xs) \<longleftrightarrow> (\<forall>y\<in>set xs. R x y) \<and> sorted_wrt R xs"
  by (induction xs) (auto simp: set_insort_key symp_def)

lemma sorted_wrt_sort: "symp R \<Longrightarrow> sorted_wrt R (sort xs) \<longleftrightarrow> sorted_wrt R xs"
  by (induction xs) (simp_all add: sorted_wrt_insort)

definition iv_disjoint :: "u64 \<times> u64 \<Rightarrow> u64 \<times> u64 \<Rightarrow> bool" where
  "iv_disjoint a b \<longleftrightarrow> {unat (fst a) ..< unat (snd a)} \<inter> {unat (fst b) ..< unat (snd b)} = {}"

lemma iv_disjoint_iff:
  assumes "fst a < snd a" "fst b < snd b"
  shows "iv_disjoint a b \<longleftrightarrow> snd a \<le> fst b \<or> snd b \<le> fst a"
proof -
  have "iv_disjoint a b \<longleftrightarrow> unat (snd a) \<le> unat (fst b) \<or> unat (snd b) \<le> unat (fst a)" if "\<not> unat (fst a) = unat (fst b)"
  proof
    assume d: "iv_disjoint a b"
    have "max (unat (fst a)) (unat (fst b)) \<notin> {unat (fst a) ..< unat (snd a)} \<inter> {unat (fst b) ..< unat (snd b)}"
      using d by (simp add: iv_disjoint_def)
    then show "unat (snd a) \<le> unat (fst b) \<or> unat (snd b) \<le> unat (fst a)"
      using assms by (auto simp: word_less_nat_alt max_def split: if_splits)
  qed (auto simp: iv_disjoint_def)
  moreover have "\<not> iv_disjoint a b" if "unat (fst a) = unat (fst b)"
    using that assms unfolding iv_disjoint_def by (auto simp: word_less_nat_alt)
  ultimately show ?thesis using assms by (auto simp: word_le_nat_alt word_less_nat_alt)
qed

lemma adjacent_overlap_iff:
  assumes "\<forall>a\<in>set iv. fst a < snd a" "sorted iv"
  shows "adjacent_overlap iv \<longleftrightarrow> \<not> sorted_wrt iv_disjoint iv"
  using assms
proof (induction iv rule: adjacent_overlap.induct)
  case (1 a b iv)
  have ab: "fst a < snd a" "fst b < snd b" "fst a \<le> fst b" using 1(2,3) by (auto simp: less_eq_prod_def)
  show ?case
  proof (cases "snd a \<le> fst b")
    case True
    have "iv_disjoint a c" if "c \<in> set (b # iv)" for c
    proof -
      have "fst b \<le> fst c" "fst c < snd c" using 1(2,3) that by (auto simp: less_eq_prod_def)
      then show ?thesis using True ab by (subst iv_disjoint_iff) auto
    qed
    then show ?thesis using 1 True by auto
  next
    case False
    then have "\<not> iv_disjoint a b" using ab by (subst iv_disjoint_iff) auto
    then show ?thesis using False by auto
  qed
qed simp_all

lemma unat_sum_list:
  fixes f :: "'a \<Rightarrow> u64"
  shows "sum_list (map (\<lambda>x. unat (f x)) xs) \<le> unat (c :: u64) \<Longrightarrow> unat (sum_list (map f xs)) = sum_list (map (\<lambda>x. unat (f x)) xs)"
proof (induction xs)
  case (Cons x xs)
  then show ?case using unat_add_le [of "f x" "sum_list (map f xs)" c] by simp
qed simp

lemma card_rec_bytes:
  assumes "sorted_wrt (\<lambda>r r'. rec_bytes r \<inter> rec_bytes r' = {}) rs"
  shows "card (\<Union>r\<in>set rs. rec_bytes r) = sum_list (map (\<lambda>r. unat (rec_region_size r)) rs)"
  using assms
proof (induction rs)
  case (Cons r rs)
  then have "card (rec_bytes r \<union> (\<Union>r\<in>set rs. rec_bytes r)) = card (rec_bytes r) + card (\<Union>r\<in>set rs. rec_bytes r)"
    by (intro card_Un_disjoint) (auto simp: rec_bytes_def)
  then show ?case using Cons by (simp add: rec_bytes_def)
qed simp

lemma rec_sum_le:
  assumes "sorted_wrt (\<lambda>r r'. rec_bytes r \<inter> rec_bytes r' = {}) rs" "\<forall>r\<in>set rs. validate_record r m"
  shows "sum_list (map (\<lambda>r. unat (rec_region_size r)) rs) \<le> unat m"
proof -
  have "(\<Union>r\<in>set rs. rec_bytes r) \<subseteq> {..<unat m}"
    using assms(2) validate_record_bounds(1) by (fastforce simp: rec_bytes_def)
  then have "card (\<Union>r\<in>set rs. rec_bytes r) \<le> unat m" by (metis card_lessThan card_mono finite_lessThan)
  then show ?thesis using card_rec_bytes [OF assms(1)] by simp
qed

lemma sorted_wrt_same:
  "(\<And>x y. x \<in> set xs \<Longrightarrow> y \<in> set xs \<Longrightarrow> P x y = Q x y) \<Longrightarrow> sorted_wrt P xs = sorted_wrt Q xs"
  by (induction xs) auto

lemma overlap_records:
  assumes "\<forall>r\<in>set rs. validate_record r m"
  shows "adjacent_overlap (sort (persist_intervals rs)) \<longleftrightarrow> \<not> sorted_wrt (\<lambda>r r'. rec_bytes r \<inter> rec_bytes r' = {}) rs"
proof -
  let ?i = "\<lambda>r. (rec_offset r, rec_offset r + rec_region_size r)"
  have b: "unat (snd (?i r)) = unat (rec_offset r) + unat (rec_region_size r)" "fst (?i r) < snd (?i r)" if "r \<in> set rs" for r
  proof -
    have "validate_record r m" using assms that by blast
    from validate_record_bounds(2,3) [OF this]
    show "unat (snd (?i r)) = unat (rec_offset r) + unat (rec_region_size r)" "fst (?i r) < snd (?i r)"
      by (simp_all add: word_less_nat_alt)
  qed
  have "adjacent_overlap (sort (map ?i rs)) \<longleftrightarrow> \<not> sorted_wrt iv_disjoint (sort (map ?i rs))"
    by (rule adjacent_overlap_iff) (use b(2) in auto)
  also have "\<dots> \<longleftrightarrow> \<not> sorted_wrt iv_disjoint (map ?i rs)"
    by (subst sorted_wrt_sort) (auto simp: symp_def iv_disjoint_def)
  also have "sorted_wrt iv_disjoint (map ?i rs) \<longleftrightarrow> sorted_wrt (\<lambda>r r'. rec_bytes r \<inter> rec_bytes r' = {}) rs"
    unfolding sorted_wrt_map
    by (rule sorted_wrt_same) (simp add: iv_disjoint_def rec_bytes_def b(1) [simplified])
  finally show ?thesis by (simp add: persist_intervals_def)
qed

lemma persist_validate_Ok: "persist_validate s = Ok s' \<longleftrightarrow> s' = s \<and> layout_valid s"
proof -
  let ?m = "dom_managed_capacity (ps_domain s)" and ?rs = "ps_records s" and ?ts = "ps_retired s"
  let ?seen = "foldl (\<lambda>a r. os_insert (rec_id r) a) [] ?rs" and ?sum = "sum_list (map rec_region_size ?rs)"
  show ?thesis
  proof (cases "(\<forall>r\<in>set ?rs. validate_record r ?m) \<and> distinct (map rec_id ?rs)")
    case False
    then have "check_live ?m ?rs [] 0 \<noteq> Ok p" for p by (auto simp: check_live_Ok)
    then show ?thesis using False by (auto simp: persist_validate_def Let_def layout_valid_def split: result.splits)
  next
    case live: True
    then have cl: "check_live ?m ?rs [] 0 = Ok (?seen, ?sum)" by (simp add: check_live_Ok)
    have seen: "set ?seen = rec_id ` set ?rs" using set_seen [of "[]" ?rs] by simp
    have sum: "\<not> ?sum > ?m" if d: "sorted_wrt (\<lambda>r r'. rec_bytes r \<inter> rec_bytes r' = {}) ?rs"
      using rec_sum_le [OF d, of ?m] live unat_sum_list [of rec_region_size ?rs ?m] by (simp add: word_less_nat_alt)
    show ?thesis
    proof (cases "check_retired ?m ?ts ?seen")
      case (Ok q)
      then show ?thesis using live sum seen overlap_records [of ?rs ?m] Ok [unfolded check_retired_Ok]
        by (auto simp: persist_validate_def Let_def cl layout_valid_def)
    next
      case (Err e)
      then have "check_retired ?m ?ts ?seen \<noteq> Ok q" for q by simp
      then have "\<not> layout_valid s" unfolding check_retired_Ok seen layout_valid_def by auto
      then show ?thesis using Err by (simp add: persist_validate_def Let_def cl)
    qed (simp add: check_no_Fault)
  qed
qed

section \<open>Decoding\<close>

text \<open>The snapshots that survive a round trip.\<close>

definition snapshot_ok :: "PersistSnapshot \<Rightarrow> bool" where
  "snapshot_ok s \<longleftrightarrow>
     ps_magic s = persist_kMagic \<and> ps_version s = persist_kVersion \<and>
     dom_canonical (ps_domain s) \<and> wm_valid (dom_watermarks (ps_domain s)) \<and>
     length (ps_records s) \<le> 2 ^ 20 \<and> length (ps_retired s) \<le> 2 ^ 20 \<and>
     (\<forall>r\<in>set (ps_records s @ ps_retired s). rec_canonical r) \<and> layout_valid s"

lemma expect_Got [simp]: "expect m (Got a b) k = k a b"
  by (simp add: expect_def)

lemma expect_Ok: "expect m r k = Ok s \<longleftrightarrow> (\<exists>a b. r = Got a b \<and> k a b = Ok s)"
  by (simp add: expect_def split: rd.splits)

lemma count_ok: "n \<le> 2 ^ 20 \<Longrightarrow> \<not> (of_nat n :: u32) > kMaxRecords \<and> unat (of_nat n :: u32) = n"
  by (simp add: kMaxRecords_def word_less_nat_alt unat_of_nat)

lemma decode_encode:
  assumes ok: "snapshot_ok s"
  shows "persist_decode (persist_encode s) = Ok s"
proof -
  let ?b = "persist_body s"
  have recs: "take_list read_record (length (ps_records s)) (concat (map write_record (ps_records s)) @ rest) = Got (ps_records s) rest"
    "take_list read_record (length (ps_retired s)) (concat (map write_record (ps_retired s)) @ rest) = Got (ps_retired s) rest" for rest
    using ok by (auto simp: snapshot_ok_def intro!: crec.list_roundtrip)
  have dom: "read_domain (write_domain (ps_domain s) @ rest) = Got (ps_domain s) rest" for rest
    using ok by (auto simp: snapshot_ok_def intro!: cdom.roundtrip)
  have pre: "take (length (persist_encode s) - 4) (persist_encode s) = ?b"
    by (simp add: persist_encode_def Let_def)
  have "\<lparr>ps_magic = persist_kMagic, ps_version = persist_kVersion, ps_domain = ps_domain s, ps_records = ps_records s,
      ps_retired = ps_retired s, ps_next_alloc_id = ps_next_alloc_id s, ps_history_count = ps_history_count s\<rparr> = s"
    using ok by (simp add: snapshot_ok_def)
  moreover have "persist_validate s = Ok s" using ok by (simp add: persist_validate_Ok snapshot_ok_def)
  moreover have "wm_valid (dom_watermarks (ps_domain s))"
    "length (ps_records s) \<le> 2 ^ 20" "length (ps_retired s) \<le> 2 ^ 20" using ok by (simp_all add: snapshot_ok_def)
  ultimately show ?thesis
    unfolding persist_decode_def pre
    by (simp add: persist_encode_def persist_body_def Let_def c32.roundtrip c64.roundtrip c32.exact dom recs count_ok [simplified])
qed

text \<open>
  A snapshot with more than \<open>kMaxRecords\<close> records, live or retired, can be written but not read: the decoder stops at the count.
\<close>

lemma count_hostile: "2 ^ 20 < n \<Longrightarrow> n < 2 ^ 32 \<Longrightarrow> (of_nat n :: u32) > kMaxRecords"
  by (simp add: kMaxRecords_def word_less_nat_alt unat_of_nat)

lemma decode_crowded:
  assumes "dom_canonical (ps_domain s)" "wm_valid (dom_watermarks (ps_domain s))" "\<forall>r\<in>set (ps_records s). rec_canonical r"
    "length (ps_records s) < 2 ^ 32" "length (ps_retired s) < 2 ^ 32"
    "2 ^ 20 < length (ps_records s) \<or> 2 ^ 20 < length (ps_retired s)"
  shows "persist_decode (persist_encode s) =
    persist_fail (if 2 ^ 20 < length (ps_records s) then ''hostile record count'' else ''hostile retired count'')"
proof -
  have recs: "take_list read_record (length (ps_records s)) (concat (map write_record (ps_records s)) @ rest) = Got (ps_records s) rest" for rest
    using assms(3) by (rule crec.list_roundtrip)
  have dom: "read_domain (write_domain (ps_domain s) @ rest) = Got (ps_domain s) rest" for rest
    using assms(1) by (rule cdom.roundtrip)
  show ?thesis
  proof (cases "2 ^ 20 < length (ps_records s)")
    case True
    have "(of_nat (length (ps_records s)) :: u32) > kMaxRecords" by (rule count_hostile [OF True assms(4)])
    then show ?thesis using True assms(2)
      by (simp add: persist_decode_def persist_encode_def persist_body_def Let_def c32.roundtrip dom)
  next
    case False
    then have "(of_nat (length (ps_retired s)) :: u32) > kMaxRecords" using assms(5,6) by (intro count_hostile) simp_all
    moreover have "\<not> (of_nat (length (ps_records s)) :: u32) > kMaxRecords \<and> unat (of_nat (length (ps_records s)) :: u32) = length (ps_records s)"
      using False by (intro count_ok) simp
    ultimately show ?thesis using False assms(2)
      by (simp add: persist_decode_def persist_encode_def persist_body_def Let_def c32.roundtrip dom recs)
  qed
qed

text \<open>A successful read consumes a prefix of the buffer.\<close>

definition advances :: "(u8 list \<Rightarrow> 'a rd) \<Rightarrow> bool" where
  "advances m \<longleftrightarrow> (\<forall>b x c. m b = Got x c \<longrightarrow> (\<exists>n. c = drop n b))"

lemma advances_basic [simp]: "advances take_u8" "advances take_u32" "advances take_u64" "advances r_str" "advances (rd_return a)"
proof -
  show "advances take_u8" unfolding advances_def take_u8_def by (auto split: list.splits intro: exI [of _ 1])
  show "advances take_u32" unfolding advances_def take_u32_def by (auto split: if_splits)
  show "advances take_u64" unfolding advances_def take_u64_def by (auto split: if_splits)
  show "advances r_str" unfolding advances_def r_str_def by (auto simp: take_u32_def split: if_splits rd.splits)
  show "advances (rd_return a)" unfolding advances_def rd_return_def by (auto intro: exI [of _ 0])
qed

lemma advances_bind [intro!]: "advances m \<Longrightarrow> (\<And>a. advances (f a)) \<Longrightarrow> advances (rd_bind m f)"
  unfolding advances_def rd_bind_Got by (metis drop_drop)

lemma advances_read: "advances read_record" "advances read_domain"
  by (simp_all add: read_record_def read_domain_def advances_bind)

lemma advances_list: "advances m \<Longrightarrow> advances (take_list m n)"
proof (induction n)
  case 0
  then show ?case unfolding advances_def by (auto intro: exI [of _ 0])
next
  case (Suc n)
  then show ?case unfolding advances_def by (auto split: rd.splits) (metis drop_drop)
qed

definition tail_of :: "'a list \<Rightarrow> 'a list \<Rightarrow> bool" where
  "tail_of c b \<longleftrightarrow> (\<exists>n. c = drop n b)"

lemma tail_trans: "tail_of c b \<Longrightarrow> tail_of b a \<Longrightarrow> tail_of c a"
  unfolding tail_of_def by (metis drop_drop)

lemma tail_length: "tail_of c b \<Longrightarrow> c \<noteq> [] \<Longrightarrow> c = drop (length b - length c) b"
  unfolding tail_of_def by auto

lemma advances_tail: "advances m \<Longrightarrow> m b = Got x c \<Longrightarrow> tail_of c b"
  unfolding advances_def tail_of_def by blast

lemma count_bound: "\<not> (n :: u32) > kMaxRecords \<longleftrightarrow> unat n \<le> 2 ^ 20"
  by (simp add: kMaxRecords_def word_less_nat_alt not_less)

lemma decode_Ok:
  assumes "persist_decode b = Ok s"
  shows "snapshot_ok s" "crc_valid b"
proof -
  from assms obtain b1 b2 d b3 n b4 rs b5 m b6 ts b7 aid b8 h b9 stored where
    r1: "take_u32 b = Got persist_kMagic b1" and r2: "take_u32 b1 = Got persist_kVersion b2"
    and r3: "read_domain b2 = Got d b3" and wm: "wm_valid (dom_watermarks d)"
    and r4: "take_u32 b3 = Got n b4" and n: "\<not> n > kMaxRecords" and r5: "take_list read_record (unat n) b4 = Got rs b5"
    and r6: "take_u32 b5 = Got m b6" and m: "\<not> m > kMaxRecords" and r7: "take_list read_record (unat m) b6 = Got ts b7"
    and r8: "take_u64 b7 = Got aid b8" and r9: "take_u64 b8 = Got h b9" and r10: "take_u32 b9 = Got stored []"
    and crc: "stored = persist_crc32 (take (length b - 4) b)"
    and v: "persist_validate \<lparr>ps_magic = persist_kMagic, ps_version = persist_kVersion, ps_domain = d,
      ps_records = rs, ps_retired = ts, ps_next_alloc_id = aid, ps_history_count = h\<rparr> = Ok s"
    unfolding persist_decode_def by (auto simp: expect_Ok split: if_splits)
  show "snapshot_ok s"
    using v wm read_domain_canonical [OF r3] take_list_Got [OF r5] take_list_Got [OF r7] n m
    by (auto simp: persist_validate_Ok snapshot_ok_def count_bound [simplified] dest: read_record_canonical)
  have "tail_of b1 b" "tail_of b2 b1" "tail_of b3 b2" "tail_of b4 b3" "tail_of b5 b4" "tail_of b6 b5" "tail_of b7 b6"
    "tail_of b8 b7" "tail_of b9 b8"
    by (rule advances_tail [OF advances_basic(2) r1] advances_tail [OF advances_basic(2) r2] advances_tail [OF advances_read(2) r3]
        advances_tail [OF advances_basic(2) r4] advances_tail [OF advances_list [OF advances_read(1)] r5]
        advances_tail [OF advances_basic(2) r6] advances_tail [OF advances_list [OF advances_read(1)] r7]
        advances_tail [OF advances_basic(3) r8] advances_tail [OF advances_basic(3) r9])+
  then have "tail_of b9 b" by (meson tail_trans)
  moreover have "length b9 = 4" "stored = le_word b9" using r10 by (auto simp: take_u32_def split: if_splits)
  ultimately have "4 \<le> length b" "b9 = drop (length b - 4) b" using tail_length [of b9 b] by (auto simp: tail_of_def)
  then show "crc_valid b" using crc \<open>stored = le_word b9\<close> by (simp add: crc_valid_def persist_crc32_eq)
qed

text \<open>A file that was written and stored in full is read back whole.\<close>

lemma persist_encode_nonempty [simp]: "persist_encode s \<noteq> []"
  by (simp add: persist_encode_def Let_def append_u32_def)

lemma write_read_file:
  assumes "fs_can_write fs p" "fs_write fs p (persist_encode s) = (persist_encode s, True)" "fs_can_read fs p"
  shows "snd (write_file p s fs) = Ok ()" "read_file p (fst (write_file p s fs)) = persist_decode (persist_encode s)"
  using assms by (simp_all add: write_file_def read_file_def Let_def)

lemma read_file_Ok:
  assumes "read_file p fs = Ok s" shows "snapshot_ok s"
  using assms decode_Ok(1) by (auto simp: read_file_def split: option.splits if_splits)

text \<open>
  A truncated file can make \<open>Reader::str\<close> index past the buffer: here a first record that ends
  right after the length of an empty owner.
\<close>

definition truncated_file :: "MemoryDomain \<Rightarrow> u8 list" where
  "truncated_file d = w_u32 persist_kMagic @ w_u32 persist_kVersion @ write_domain d @ w_u32 1 @
     concat (replicate 8 (w_u64 1)) @ w_u8 0 @ w_u8 0 @ w_u8 0 @ w_u32 0 @ w_u8 0 @ w_u8 0 @ w_u32 0"

lemma truncated_file_faults:
  assumes "dom_canonical d" "wm_valid (dom_watermarks d)"
  shows "persist_decode (truncated_file d) = Fault"
proof -
  have wild: "rd_bind r_str f (append_u32 0) = Wild" for f :: "string \<Rightarrow> u8 list \<Rightarrow> AllocationRecord rd"
    using c32.exact [of 0] by (simp add: rd_bind_def r_str_def)
  have "\<not> (1 :: u32) > kMaxRecords" by (simp add: kMaxRecords_def)
  moreover have "concat (replicate 8 (append_u64 1)) = append_u64 1 @ append_u64 1 @ append_u64 1 @ append_u64 1 @
      append_u64 1 @ append_u64 1 @ append_u64 1 @ append_u64 1"
    by (simp add: numeral_eq_Suc)
  moreover have "take_list f (unat (1 :: u32)) b = take_list f (Suc 0) b" for f :: "u8 list \<Rightarrow> AllocationRecord rd" and b by simp
  ultimately show ?thesis
    using assms by (simp add: persist_decode_def truncated_file_def c32.roundtrip cdom.roundtrip
        read_record_def bind_codec wild expect_def)
qed

section \<open>Properties\<close>

text \<open>C12. A well-formed snapshot is read back exactly: decoding an encoding gives the snapshot that was encoded.\<close>

theorem persist_roundtrip:
  assumes "snapshot_ok s"
  shows "persist_decode (persist_encode s) = Ok s"
  using assms by (rule decode_encode)

definition demo_record :: "u64 \<Rightarrow> u64 \<Rightarrow> AllocationRecord" where
  "demo_record aid off = \<lparr>rec_id = TypedId aid, rec_generation = TypedGeneration 1, rec_requested_bytes = 100, rec_region_size = 128,
     rec_offset = off, rec_alignment = 64, rec_region_id = TypedId aid, rec_region_generation = TypedGeneration 1,
     rec_mem_class = MemoryClass.KV_CACHE, rec_reclaimability = Reclaimability.BEST_EFFORT, rec_movability = Movability.MOVABLE,
     rec_pin_count = 0, rec_residency = ResidencyState.RESIDENT, rec_lifecycle = LifecycleState.RESIDENT, rec_owner = ''kv'',
     rec_worker = TypedId 1, rec_worker_boot = TypedGeneration 1, rec_source_boot = TypedGeneration 1, rec_workload = TypedId 1,
     rec_execution = TypedId 1, rec_relocation_generation = gen_none, rec_reservation_gen = gen_none,
     rec_resource_claim_gen = gen_none, rec_placement_gen = gen_none, rec_policy_gen = gen_none, rec_backing_ref = '''',
     rec_provenance = Provenance.DERIVED, rec_recoverable = False\<rparr>"

definition demo_domain :: MemoryDomain where
  "demo_domain = \<lparr>dom_domain_id = TypedId 1, dom_domain_generation = TypedGeneration 1, dom_device_id = TypedId 1,
     dom_device_generation = TypedGeneration 1, dom_total_capacity = 1024, dom_allocator_visible_capacity = 1024,
     dom_reserved_headroom = 0, dom_managed_capacity = 1024, dom_current_committed = 256, dom_current_physically_allocated = 0,
     dom_current_resident = 256, dom_current_reclaimable = 0, dom_current_movable = 256, dom_current_pinned = 0,
     dom_external_fragmentation = Double 0, dom_pressure = PressureState.LOW, dom_health = DeviceHealth.HEALTHY,
     dom_watermarks = demo_watermarks, dom_provenance = Provenance.SYNTHETIC\<rparr>"

definition demo_snapshot :: PersistSnapshot where
  "demo_snapshot = \<lparr>ps_magic = persist_kMagic, ps_version = persist_kVersion, ps_domain = demo_domain,
     ps_records = [demo_record 1 0, demo_record 3 128], ps_retired = [demo_record 2 0], ps_next_alloc_id = 4, ps_history_count = 1\<rparr>"

lemma demo_record_ok: "off mod 64 = 0 \<Longrightarrow> off \<le> 896 \<Longrightarrow> validate_record (demo_record aid off) 1024"
proof -
  assume "off mod 64 = 0" and le: "off \<le> 896"
  moreover have "\<not> off > 1024" using le by (simp add: word_le_nat_alt word_less_nat_alt)
  moreover have "\<not> 128 > 1024 - off" using le by (simp add: word_le_nat_alt word_less_nat_alt unat_sub_le)
  ultimately show ?thesis by (simp add: validate_record_def demo_record_def enum_ok_def)
qed

lemma demo_snapshot_ok: "snapshot_ok demo_snapshot"
proof -
  have "rec_canonical (demo_record aid off)" for aid off
    by (simp add: rec_canonical_def demo_record_def MemoryClass_of_code_def Reclaimability_of_code_def Movability_of_code_def
        ResidencyState_of_code_def LifecycleState_of_code_def Provenance_of_code_def enum_cast_def)
  moreover have "dom_canonical demo_domain"
    by (simp add: dom_canonical_def demo_domain_def PressureState_of_code_def DeviceHealth_of_code_def Provenance_of_code_def enum_cast_def)
  moreover have "layout_valid demo_snapshot"
    using demo_record_ok [of 0] demo_record_ok [of 128]
    by (simp add: layout_valid_def demo_snapshot_def demo_domain_def) (simp add: demo_record_def rec_bytes_def)
  ultimately show ?thesis
    by (simp add: snapshot_ok_def demo_snapshot_def) (simp add: demo_domain_def demo_valid)
qed

theorem persist_roundtrip_witness: "persist_decode (persist_encode demo_snapshot) = Ok demo_snapshot"
  by (rule persist_roundtrip [OF demo_snapshot_ok])

text \<open>
  C13. Whatever the decoder accepts, from any bytes, is a snapshot in which every record lies inside the managed
  capacity at an aligned offset with at least the bytes that were requested, no identity occurs twice, no two live
  records share a byte, and the live bytes fit the capacity without wrap-around.
\<close>

theorem persist_decode_sound:
  assumes "persist_decode b = Ok s"
  shows "(\<forall>r\<in>set (ps_records s @ ps_retired s).
            unat (rec_offset r) + unat (rec_region_size r) \<le> unat (dom_managed_capacity (ps_domain s)) \<and>
            unat (rec_alignment r) dvd unat (rec_offset r) \<and>
            0 < unat (rec_requested_bytes r) \<and> unat (rec_requested_bytes r) \<le> unat (rec_region_size r)) \<and>
         distinct (map rec_id (ps_records s @ ps_retired s)) \<and>
         sorted_wrt (\<lambda>r r'. rec_bytes r \<inter> rec_bytes r' = {}) (ps_records s) \<and>
         sum_list (map (\<lambda>r. unat (rec_region_size r)) (ps_records s)) \<le> unat (dom_managed_capacity (ps_domain s))"
proof -
  from decode_Ok(1) [OF assms] have v: "layout_valid s" by (simp add: snapshot_ok_def)
  have "0 < unat (rec_requested_bytes r)" if "validate_record r m" for r m
    using that by (auto simp: validate_record_def unat_pos_iff)
  note bounds = this validate_record_bounds(1,4,6)
  have ok: "validate_record r (dom_managed_capacity (ps_domain s))" if "r \<in> set (ps_records s @ ps_retired s)" for r
    using v that by (simp add: layout_valid_def)
  have "sum_list (map (\<lambda>r. unat (rec_region_size r)) (ps_records s)) \<le> unat (dom_managed_capacity (ps_domain s))"
    using v by (intro rec_sum_le) (simp_all add: layout_valid_def)
  then show ?thesis using v bounds [OF ok] by (simp add: layout_valid_def)
qed

theorem persist_decode_sound_witness:
  "sum_list (map (\<lambda>r. unat (rec_region_size r)) (ps_records demo_snapshot)) \<le> 1024"
  using persist_decode_sound [OF decode_encode [OF demo_snapshot_ok]] by (simp add: demo_snapshot_def demo_domain_def)

text \<open>Saving what was loaded loses nothing: whatever the decoder accepts is encoded to bytes that decode to the same snapshot.\<close>

lemma persist_reencode: "persist_decode b = Ok s \<Longrightarrow> persist_decode (persist_encode s) = Ok s"
  by (rule decode_encode) (rule decode_Ok(1))

text \<open>
  C15. Corruption is detected: no matter what an accepted file holds, replacing up to four consecutive bytes of it by other
  bytes (anywhere, the checksum itself included) makes the decoder reject it.
\<close>

theorem persist_detects_corruption:
  assumes "persist_decode (pre @ old @ post) = Ok s" "length old = length new" "length old \<le> 4" "old \<noteq> new"
  shows "\<not> has_value (persist_decode (pre @ new @ post))"
proof
  assume "has_value (persist_decode (pre @ new @ post))"
  then obtain s' where "persist_decode (pre @ new @ post) = Ok s'" by (auto simp: has_value_def split: result.splits)
  from decode_Ok(2) [OF this] show False using crc_detects [OF decode_Ok(2) [OF assms(1)] assms(2-4)] by simp
qed

theorem persist_detects_corruption_witness:
  "\<not> has_value (persist_decode (w_u32 0 @ drop 4 (persist_encode demo_snapshot)))"
proof -
  have "persist_encode demo_snapshot = [] @ w_u32 persist_kMagic @ drop 4 (persist_encode demo_snapshot)"
    by (simp add: persist_encode_def persist_body_def Let_def)
  moreover have "w_u32 persist_kMagic \<noteq> w_u32 0" using le_word_u32 [of persist_kMagic] le_word_u32 [of 0] by (auto simp: persist_kMagic_def)
  ultimately show ?thesis
    using persist_detects_corruption [of "[]" "w_u32 persist_kMagic" "drop 4 (persist_encode demo_snapshot)" demo_snapshot "w_u32 0"]
      decode_encode [OF demo_snapshot_ok] by simp
qed

end
