(* ===== verification/Gms_Governor_Inv.thy ===== *)
theory Gms_Governor_Inv
  imports Gms_Governor Gms_Region_Props Gms_Persist_Props
begin

text \<open>
  The invariant of the governor: every record stands for exactly one live region of the arena and
  agrees with it.  Each operation gets a case rule that says what it answers and how it changes the
  state; the operations on a handle are interpreted in the contracts \<open>handle_op\<close> and \<open>consuming_op\<close>
  of the region allocator.  \<open>gov_reach\<close> is the set of governors that histories of calls can produce.
\<close>

section \<open>The arena as the governor uses it\<close>

lemma allocate_cases:
  assumes inv: "arena_inv ra" and fresh: "arena_live ra (ar_alloc_id req) = None"
  obtains (ok) ra' rid off sz where "alloc_reject ra req = None"
      "arena_allocate ra req = (ra', Ok (live_region req rid off sz))" "arena_inv ra'"
      "arena_live ra' = (arena_live ra)(ar_alloc_id req \<mapsto> live_region req rid off sz)"
      "ra_capacity ra' = ra_capacity ra" "unat sz = alloc_size req"
      "unat (ra_live_bytes ra') = unat (ra_live_bytes ra) + unat sz"
  | (rejected) why msg where "alloc_reject ra req = Some why" "arena_allocate ra req = (ra, Err (Failure why msg))"
proof (cases "alloc_reject ra req")
  case None
  from inv None fresh obtain ra' fx rid off where s:
    "arena_allocate ra req = (ra', Ok (live_region req rid off (of_nat (alloc_size req))))" "arena_inv ra'"
    "split_ok (regs ra) fx (off, live_region req rid off (of_nat (alloc_size req))) (regs ra')"
    "unat off = round_up (lo_of fx) (unat (ar_alignment req))" "ra_capacity ra' = ra_capacity ra"
    "unat (ra_live_bytes ra') = unat (ra_live_bytes ra) + alloc_size req"
    by (rule allocate_success)
  let ?r = "live_region req rid off (of_nat (alloc_size req))"
  have sz: "unat (of_nat (alloc_size req) :: u64) = alloc_size req"
    using None by (auto simp: alloc_reject_def unat_of_nat split: if_splits)
  have "live_entries (regs ra') = insert (ri_offset ?r, ?r) (live_entries (regs ra))"
    using split_live(1) [OF arena_layout [OF inv] _ s(3)] arena_layout [OF s(2)] s(5) by simp
  then have "arena_live ra' = (arena_live ra)(ri_alloc_id ?r \<mapsto> ?r)"
    using fresh by (intro arena_live_insert [OF inv s(2)]) simp_all
  then show thesis using None s sz by (intro ok [of ra' rid off "of_nat (alloc_size req)"]) simp_all
next
  case (Some why)
  with allocate_reject [OF inv Some] show thesis using rejected by blast
qed

section \<open>The invariant of the governor\<close>

text \<open>
  A record and the live region it stands for.  A request with \<open>requires_pin\<close> gives a record with pin
  count 1 over a region with pin count 0; otherwise the counts agree.
\<close>

definition rec_matches :: "AllocationRecord \<Rightarrow> RegionInfo \<Rightarrow> bool" where
  "rec_matches rec r \<longleftrightarrow>
     rec_id rec = ri_alloc_id r \<and> rec_generation rec = ri_alloc_generation r \<and> rec_offset rec = ri_offset r \<and>
     rec_region_size rec = ri_size r \<and> rec_alignment rec = ri_alignment r \<and> rec_region_id rec = ri_region_id r \<and>
     rec_region_generation rec = ri_region_generation r \<and> rec_mem_class rec = ri_mem_class r \<and>
     rec_reclaimability rec = ri_reclaimability r \<and> rec_movability rec = ri_movability r \<and>
     rec_residency rec = ri_residency r \<and> ri_residency r = ResidencyState.RESIDENT \<and>
     (rec_pin_count rec = ri_pin_count r \<or>
      rec_pin_count rec = 1 \<and> ri_pin_count r = 0 \<and> ri_movability r = Movability.PINNED)"

abbreviation managed :: "MemoryGovernor \<Rightarrow> u64" where
  "managed g \<equiv> dom_managed_capacity (g_domain g)"

abbreviation recs :: "MemoryGovernor \<Rightarrow> AllocationId \<Rightarrow> AllocationRecord option" where
  "recs g \<equiv> om_find (g_records g)"

definition arena_ok :: "MemoryGovernor \<Rightarrow> bool" where
  "arena_ok g \<longleftrightarrow>
     (if managed g = 0 then \<not> g_initialized g \<and> ra_alloc_offset (g_arena g) = [] \<and> snapshot_live (g_arena g) = []
      else arena_inv (g_arena g) \<and> ra_capacity (g_arena g) = managed g)"

definition gov_inv :: "MemoryGovernor \<Rightarrow> bool" where
  "gov_inv g \<longleftrightarrow> arena_ok g \<and> om_ok (g_records g) \<and> om_ok (g_retired g) \<and>
     (\<forall>aid. rel_option rec_matches (recs g aid) (arena_live (g_arena g) aid)) \<and>
     (\<forall>aid rec. recs g aid = Some rec \<longrightarrow> rec_id rec = aid \<and> id_value aid < g_next_alloc_id g) \<and>
     (\<forall>aid rec. om_find (g_retired g) aid = Some rec \<longrightarrow> rec_id rec = aid)"

lemma gov_live:
  assumes "gov_inv g" "recs g aid = Some rec"
  obtains r where "arena_inv (g_arena g)" "ra_capacity (g_arena g) = managed g" "managed g \<noteq> 0"
    "arena_live (g_arena g) aid = Some r" "rec_matches rec r" "rec_id rec = aid" "id_value aid < g_next_alloc_id g"
proof -
  have "rel_option rec_matches (recs g aid) (arena_live (g_arena g) aid)" using assms(1) by (simp add: gov_inv_def)
  with assms(2) obtain r where r: "arena_live (g_arena g) aid = Some r" "rec_matches rec r"
    by (auto simp: option_rel_Some1)
  then have "ra_alloc_offset (g_arena g) \<noteq> []" by (auto simp: arena_live_def)
  then have "managed g \<noteq> 0" "arena_inv (g_arena g)" "ra_capacity (g_arena g) = managed g"
    using assms(1) by (auto simp: gov_inv_def arena_ok_def split: if_splits)
  with r show thesis using that assms by (auto simp: gov_inv_def)
qed

lemma gov_dead: "gov_inv g \<Longrightarrow> recs g aid = None \<longleftrightarrow> arena_live (g_arena g) aid = None"
  by (auto simp: gov_inv_def option_rel_Some1) (metis option.rel_distinct(2) option.exhaust option.rel_distinct(1))+

lemma gov_fresh: "gov_inv g \<Longrightarrow> recs g (TypedId (g_next_alloc_id g)) = None"
proof (rule ccontr)
  assume inv: "gov_inv g" and "recs g (TypedId (g_next_alloc_id g)) \<noteq> None"
  then obtain rec where "recs g (TypedId (g_next_alloc_id g)) = Some rec" by blast
  with inv show False by (rule gov_live) simp
qed

text \<open>The frame of an operation that changes one allocation.\<close>

lemma gov_inv_update:
  assumes inv: "gov_inv g" and nz: "managed g \<noteq> 0"
    and arena: "arena_inv a'" "ra_capacity a' = managed g" "arena_live a' = (arena_live (g_arena g))(aid := y)"
    and recs: "om_ok rs'" "om_find rs' = (recs g)(aid := x)" "rel_option rec_matches x y"
    and ids: "\<And>rec. x = Some rec \<Longrightarrow> rec_id rec = aid \<and> id_value aid < nxt" "g_next_alloc_id g \<le> nxt"
    and ret: "om_ok ret'" "\<And>i rec. om_find ret' i = Some rec \<Longrightarrow> rec_id rec = i"
    and dom: "dom_managed_capacity d' = managed g"
  shows "gov_inv (g\<lparr>g_arena := a', g_records := rs', g_retired := ret', g_next_alloc_id := nxt, g_domain := d', g_history_count := h\<rparr>)"
proof -
  have "rel_option rec_matches (om_find rs' i) (arena_live a' i)" for i
    using inv recs arena by (simp add: gov_inv_def)
  moreover have "rec_id rec = i \<and> id_value i < nxt" if "om_find rs' i = Some rec" for i rec
  proof (cases "i = aid")
    case True
    then show ?thesis using that recs(2) ids(1) by simp
  next
    case False
    then have "recs g i = Some rec" using that recs(2) by simp
    then have "rec_id rec = i \<and> id_value i < g_next_alloc_id g" using inv by (simp add: gov_inv_def)
    then show ?thesis using ids(2) by (auto intro: less_le_trans)
  qed
  ultimately show ?thesis using arena recs ret nz dom by (simp add: gov_inv_def arena_ok_def)
qed

section \<open>The operations, case by case\<close>

text \<open>Why a request is refused before an identity is taken.\<close>

definition request_error :: "MemoryGovernor \<Rightarrow> AllocationRequest \<Rightarrow> Failure option" where
  "request_error g req =
    (if \<not> Failure_ok (validate_request req (managed g)) then Some (validate_request req (managed g))
     else if \<not> g_initialized g then Some (Failure RejectReason.INTERNAL_ERROR ''governor not initialized'')
     else if 2 ^ 64 \<le> round_up (unat (req_bytes req)) (unat (req_alignment req)) then
       Some (Failure RejectReason.SIZE_OVERFLOW ''aligned allocation size overflow'')
     else None)"

abbreviation the_request :: "MemoryGovernor \<Rightarrow> AllocationRequest \<Rightarrow> AllocRequest" where
  "the_request g req \<equiv> arena_request req (TypedId (g_next_alloc_id g)) gen_first"

lemma arena_request_simps [simp]:
  "ar_alloc_id (arena_request req aid gen) = aid" "ar_alloc_generation (arena_request req aid gen) = gen"
  "ar_bytes (arena_request req aid gen) = req_bytes req" "ar_alignment (arena_request req aid gen) = req_alignment req"
  by (simp_all add: arena_request_def)

lemma align_overflow:
  fixes req :: AllocationRequest
  assumes "is_pow2 (req_alignment req)" "req_bytes req \<noteq> 0"
  shows "(let a = detail_align_up (req_bytes req) (req_alignment req) in a = 0 \<or> a < req_bytes req) \<longleftrightarrow>
     2 ^ 64 \<le> round_up (unat (req_bytes req)) (unat (req_alignment req))"
  using alloc_size_word(1) [of "arena_request req undefined undefined"] assms
  by (simp add: ra_align_up_eq alloc_size_def)

lemma gov_request_unfold:
  "gov_request g req =
    (case request_error g req of Some e \<Rightarrow> (g, Err e)
     | None \<Rightarrow> let g1 = g\<lparr>g_next_alloc_id := g_next_alloc_id g + 1\<rparr>; ar = the_request g req in
        case arena_allocate (g_arena g) ar of
            (arena, Err e) \<Rightarrow> (g1\<lparr>g_arena := arena\<rparr>, Err e)
          | (arena, Fault) \<Rightarrow> (g1\<lparr>g_arena := arena\<rparr>, Fault)
          | (arena, Ok r) \<Rightarrow>
              let rec = request_record req (ar_alloc_id ar) gen_first (ar_movability ar) r in
              (g1\<lparr>g_arena := arena, g_records := om_assign (ar_alloc_id ar) rec (g_records g),
                  g_domain := count_request rec (ri_size r) (g_domain g)\<rparr>,
               Ok \<lparr>ah_id = ar_alloc_id ar, ah_generation = gen_first, ah_offset = ri_offset r, ah_size = ri_size r,
                   ah_alignment = req_alignment req\<rparr>))"
proof (cases "Failure_ok (validate_request req (managed g))")
  case True
  then have "is_pow2 (req_alignment req)" "req_bytes req \<noteq> 0" by (simp_all add: validate_request_ok)
  note ov = align_overflow [OF this]
  show ?thesis
    using True ov by (simp add: gov_request_def request_error_def Let_def next_id_locked_def cong: prod.case_cong result.case_cong)
next
  case False
  then show ?thesis by (simp add: gov_request_def request_error_def)
qed

lemma count_managed [simp]:
  "dom_managed_capacity (count_request rec sz d) = dom_managed_capacity d" "dom_managed_capacity (count_release rec d) = dom_managed_capacity d"
  "dom_managed_capacity (count_pin rec d) = dom_managed_capacity d" "dom_managed_capacity (count_unpin rec d) = dom_managed_capacity d"
  by (simp_all add: count_request_def count_release_def count_pin_def count_unpin_def Let_def)

lemma request_matches:
  "rec_matches (request_record req aid gen (ar_movability (arena_request req aid gen)) (live_region (arena_request req aid gen) rid off sz))
     (live_region (arena_request req aid gen) rid off sz)"
  by (simp add: rec_matches_def request_record_def live_region_def arena_request_def RegionInfo_default_def)

lemma request_cases:
  assumes inv: "gov_inv g" and nowrap: "g_next_alloc_id g \<noteq> - 1"
  obtains (invalid) e where "request_error g req = Some e" "gov_request g req = (g, Err e)"
  | (rejected) why msg where "request_error g req = None" "alloc_reject (g_arena g) (the_request g req) = Some why"
      "gov_request g req = (g\<lparr>g_next_alloc_id := g_next_alloc_id g + 1\<rparr>, Err (Failure why msg))"
      "gov_inv (g\<lparr>g_next_alloc_id := g_next_alloc_id g + 1\<rparr>)"
  | (ok) g' r aid rec where "request_error g req = None" "alloc_reject (g_arena g) (the_request g req) = None"
      "aid = TypedId (g_next_alloc_id g)" "recs g aid = None"
      "rec = request_record req aid gen_first (ar_movability (the_request g req)) r" "rec_matches rec r"
      "gov_request g req = (g', Ok \<lparr>ah_id = aid, ah_generation = gen_first, ah_offset = ri_offset r, ah_size = ri_size r,
         ah_alignment = req_alignment req\<rparr>)"
      "gov_inv g'" "recs g' = (recs g)(aid \<mapsto> rec)" "arena_live (g_arena g') aid = Some r"
      "unat (ri_size r) = round_up (unat (req_bytes req)) (unat (req_alignment req))"
      "g' = g\<lparr>g_arena := g_arena g', g_records := g_records g', g_next_alloc_id := g_next_alloc_id g + 1,
              g_domain := count_request rec (ri_size r) (g_domain g)\<rparr>"
      "unat (ra_live_bytes (g_arena g')) = unat (ra_live_bytes (g_arena g)) + unat (ri_size r)"
proof (cases "request_error g req")
  case (Some e)
  then show thesis using invalid by (simp add: gov_request_unfold)
next
  case None
  then have nz: "managed g \<noteq> 0" using inv
    by (auto simp: request_error_def validate_request_ok gov_inv_def arena_ok_def split: if_splits)
  then have ar: "arena_inv (g_arena g)" "ra_capacity (g_arena g) = managed g" using inv by (auto simp: gov_inv_def arena_ok_def)
  have lt: "g_next_alloc_id g < g_next_alloc_id g + 1" using nowrap by (simp add: word_less_nat_alt u64_succ)
  have fresh: "recs g (TypedId (g_next_alloc_id g)) = None" by (rule gov_fresh [OF inv])
  then have "arena_live (g_arena g) (ar_alloc_id (the_request g req)) = None" by (simp add: gov_dead [OF inv])
  with ar(1) show thesis
  proof (cases rule: allocate_cases)
    case (rejected why msg)
    have "gov_inv (g\<lparr>g_next_alloc_id := g_next_alloc_id g + 1\<rparr>)"
      using inv lt by (auto simp: gov_inv_def arena_ok_def intro: less_trans)
    then show thesis using that(2) None rejected by (simp add: gov_request_unfold Let_def)
  next
    case (ok ra' rid off sz)
    let ?aid = "TypedId (g_next_alloc_id g)" and ?r = "live_region (the_request g req) rid off sz"
    let ?rec = "request_record req ?aid gen_first (ar_movability (the_request g req)) ?r"
    let ?g' = "g\<lparr>g_arena := ra', g_records := om_assign ?aid ?rec (g_records g), g_next_alloc_id := g_next_alloc_id g + 1,
        g_domain := count_request ?rec (ri_size ?r) (g_domain g)\<rparr>"
    have rs: "om_ok (g_records g)" using inv by (simp add: gov_inv_def)
    have m: "rec_matches ?rec ?r" by (rule request_matches)
    have g': "?g' = g\<lparr>g_arena := ra', g_records := om_assign ?aid ?rec (g_records g), g_retired := g_retired g,
        g_next_alloc_id := g_next_alloc_id g + 1, g_domain := count_request ?rec (ri_size ?r) (g_domain g), g_history_count := g_history_count g\<rparr>"
      by simp
    have "gov_inv ?g'" unfolding g'
    proof (rule gov_inv_update [OF inv nz ok(3)])
      show "arena_live ra' = (arena_live (g_arena g))(?aid := Some ?r)" using ok(4) by simp
      show "om_find (om_assign ?aid ?rec (g_records g)) = (recs g)(?aid := Some ?rec)" by (simp add: om_find_assign rs)
      show "rel_option rec_matches (Some ?rec) (Some ?r)" using m by simp
    qed (use inv lt ok ar in \<open>auto simp: om_ok_assign gov_inv_def request_record_def less_imp_le\<close>)
    moreover have "gov_request g req = (?g', Ok \<lparr>ah_id = ?aid, ah_generation = gen_first, ah_offset = ri_offset ?r,
        ah_size = ri_size ?r, ah_alignment = req_alignment req\<rparr>)"
      using None ok by (simp add: gov_request_unfold Let_def)
    ultimately show thesis using None ok fresh m rs
      by (intro that(3) [of ?aid ?rec ?r ?g']) (simp_all add: om_find_assign alloc_size_def)
  qed
qed

text \<open>Why a release is refused: the checks of \<open>release_locked\<close>, in order.\<close>

definition release_error :: "MemoryGovernor \<Rightarrow> AllocationId \<Rightarrow> AllocationGeneration \<Rightarrow> WorkerBootId \<Rightarrow> SourceBootId \<Rightarrow> RejectReason option" where
  "release_error g aid gen wb sb =
    (case recs g aid of
       None \<Rightarrow> Some (case om_find (g_retired g) aid of
                 Some rec \<Rightarrow> if rec_generation rec = gen then RejectReason.DOUBLE_FREE else RejectReason.STALE_GENERATION
               | None \<Rightarrow> RejectReason.STALE_GENERATION)
     | Some rec \<Rightarrow>
         if rec_generation rec \<noteq> gen then Some RejectReason.STALE_GENERATION
         else if is_set wb \<and> wb \<noteq> rec_worker_boot rec \<or> is_set sb \<and> sb \<noteq> rec_source_boot rec then Some RejectReason.STALE_AUTHORITY
         else if rec_pin_count rec \<noteq> 0 then Some RejectReason.FREE_OF_ACTIVE_OR_PINNED
         else None)"

definition released :: "AllocationRecord \<Rightarrow> AllocationRecord" where
  "released rec = rec\<lparr>rec_lifecycle := LifecycleState.RELEASED, rec_residency := ResidencyState.NONRESIDENT\<rparr>"

lemma u32_gt_0 [simp]: "(0 :: u32) < n \<longleftrightarrow> n \<noteq> 0"
  by (simp add: word_neq_0_conv)

lemma release_cases:
  assumes inv: "gov_inv g"
  obtains (rejected) why msg where "release_error g aid gen wb sb = Some why"
      "release_locked g aid gen wb sb = (g, Err (Failure why msg))"
  | (ok) g' rec where "release_error g aid gen wb sb = None" "recs g aid = Some rec" "rec_generation rec = gen" "rec_pin_count rec = 0"
      "release_locked g aid gen wb sb = (g', Ok (released rec))" "gov_inv g'" "recs g' = (recs g)(aid := None)"
      "om_find (g_retired g') = (om_find (g_retired g))(aid \<mapsto> released rec)"
      "g' = g\<lparr>g_arena := g_arena g', g_records := g_records g', g_retired := g_retired g',
              g_domain := count_release (released rec) (g_domain g), g_history_count := g_history_count g + 1\<rparr>"
      "unat (ra_live_bytes (g_arena g')) + unat (rec_region_size rec) = unat (ra_live_bytes (g_arena g))"
proof (cases "release_error g aid gen wb sb")
  case (Some why)
  have "\<exists>msg. release_locked g aid gen wb sb = (g, Err (Failure why msg))"
  proof (cases "recs g aid")
    case None
    then show ?thesis using Some by (auto simp: release_error_def release_locked_def split: option.splits)
  next
    case (Some rec)
    then show ?thesis using \<open>release_error g aid gen wb sb = Some why\<close>
      by (auto simp: release_error_def release_locked_def split: if_splits)
  qed
  with Some show thesis using rejected by blast
next
  case None
  then obtain rec where rec: "recs g aid = Some rec" "rec_generation rec = gen" "rec_pin_count rec = 0"
    "\<not> (is_set wb \<and> wb \<noteq> rec_worker_boot rec)" "\<not> (is_set sb \<and> sb \<noteq> rec_source_boot rec)"
    by (auto simp: release_error_def split: option.splits if_splits)
  from inv rec(1) obtain r where ar: "arena_inv (g_arena g)" "ra_capacity (g_arena g) = managed g" and nz: "managed g \<noteq> 0"
    and r: "arena_live (g_arena g) aid = Some r" "rec_matches rec r" and aid: "rec_id rec = aid" by (rule gov_live)
  have gen: "ri_alloc_generation r = gen" using r(2) rec(2) by (simp add: rec_matches_def)
  from free_success [OF ar(1) r(1) gen] obtain a' f where f: "arena_free (g_arena g) aid gen = (a', Ok f)" "arena_inv a'"
    "arena_live a' = (arena_live (g_arena g))(aid := None)" "ra_capacity a' = ra_capacity (g_arena g)"
    "unat (ra_live_bytes a') + unat (ri_size r) = unat (ra_live_bytes (g_arena g))" by metis
  let ?g' = "g\<lparr>g_arena := a', g_retired := om_assign aid (released rec) (g_retired g), g_records := om_erase aid (g_records g),
      g_domain := count_release (released rec) (g_domain g), g_history_count := g_history_count g + 1\<rparr>"
  have ok: "om_ok (g_records g)" "om_ok (g_retired g)" using inv by (simp_all add: gov_inv_def)
  have g': "?g' = g\<lparr>g_arena := a', g_records := om_erase aid (g_records g), g_retired := om_assign aid (released rec) (g_retired g),
      g_next_alloc_id := g_next_alloc_id g, g_domain := count_release (released rec) (g_domain g), g_history_count := g_history_count g + 1\<rparr>"
    by simp
  have "gov_inv ?g'" unfolding g'
  proof (rule gov_inv_update [OF inv nz f(2)])
    show "om_find (om_erase aid (g_records g)) = (recs g)(aid := None)" by (simp add: om_find_erase)
    show "rel_option rec_matches None (None :: RegionInfo option)" by simp
    show "rec_id q = i" if "om_find (om_assign aid (released rec) (g_retired g)) i = Some q" for i q
      using that inv aid by (auto simp: om_find_assign ok gov_inv_def released_def split: if_splits)
  qed (use f ar ok in \<open>auto simp: om_ok_erase om_ok_assign\<close>)
  moreover have "release_locked g aid gen wb sb = (?g', Ok (released rec))"
    using rec r(2) f(1) by (simp add: release_locked_def released_def Let_def rec_matches_def)
  ultimately show thesis using None rec ok f r(2)
    by (intro that(2) [of rec ?g']) (simp_all add: om_find_assign om_find_erase rec_matches_def)
qed

text \<open>An operation that replaces the record of one allocation together with its region.\<close>

lemma gov_inv_replace:
  assumes inv: "gov_inv g" and rec: "recs g aid = Some rec" and a: "arena_inv a'" "ra_capacity a' = managed g"
    "arena_live a' = (arena_live (g_arena g))(aid \<mapsto> r')" and m: "rec_matches rec' r'" "rec_id rec' = aid"
    and d: "dom_managed_capacity d' = managed g"
  shows "gov_inv (g\<lparr>g_arena := a', g_records := om_assign aid rec' (g_records g), g_domain := d'\<rparr>)"
    "recs (g\<lparr>g_arena := a', g_records := om_assign aid rec' (g_records g), g_domain := d'\<rparr>) = (recs g)(aid \<mapsto> rec')"
proof -
  from inv rec have nz: "managed g \<noteq> 0" and lt: "id_value aid < g_next_alloc_id g" by (auto elim: gov_live)
  have ok: "om_ok (g_records g)" "om_ok (g_retired g)" using inv by (simp_all add: gov_inv_def)
  have "gov_inv (g\<lparr>g_arena := a', g_records := om_assign aid rec' (g_records g), g_retired := g_retired g,
      g_next_alloc_id := g_next_alloc_id g, g_domain := d', g_history_count := g_history_count g\<rparr>)"
  proof (rule gov_inv_update [OF inv nz a(1,2)])
    show "om_find (om_assign aid rec' (g_records g)) = (recs g)(aid := Some rec')" by (simp add: om_find_assign ok)
    show "rel_option rec_matches (Some rec') (Some r')" using m by simp
  qed (use inv m a lt d ok in \<open>auto simp: om_ok_assign gov_inv_def\<close>)
  then show "gov_inv (g\<lparr>g_arena := a', g_records := om_assign aid rec' (g_records g), g_domain := d'\<rparr>)" by simp
  show "recs (g\<lparr>g_arena := a', g_records := om_assign aid rec' (g_records g), g_domain := d'\<rparr>) = (recs g)(aid \<mapsto> rec')"
    by (simp add: om_find_assign ok)
qed

definition pinned_rec :: "RegionInfo \<Rightarrow> AllocationRecord \<Rightarrow> AllocationRecord" where
  "pinned_rec r rec = rec\<lparr>rec_movability := Movability.PINNED, rec_pin_count := ri_pin_count r + 1, rec_lifecycle := LifecycleState.PINNED\<rparr>"

lemma pin_cases:
  assumes inv: "gov_inv g"
  obtains (stale) msg where "\<not> (\<exists>rec. recs g aid = Some rec \<and> rec_generation rec = gen)"
      "gov_pin g aid gen = (g, Err (Failure RejectReason.STALE_GENERATION msg))"
  | (ok) g' rec r where "recs g aid = Some rec" "rec_generation rec = gen" "arena_live (g_arena g) aid = Some r" "rec_matches rec r"
      "gov_pin g aid gen = (g', Ok ())" "gov_inv g'" "recs g' = (recs g)(aid \<mapsto> pinned_rec r rec)"
      "g' = g\<lparr>g_arena := g_arena g', g_records := g_records g', g_domain := count_pin (pinned_rec r rec) (g_domain g)\<rparr>"
      "ra_live_bytes (g_arena g') = ra_live_bytes (g_arena g)"
proof (cases "\<exists>rec. recs g aid = Some rec \<and> rec_generation rec = gen")
  case False
  then show thesis using stale by (cases "recs g aid") (auto simp: gov_pin_def)
next
  case True
  then obtain rec where rec: "recs g aid = Some rec" "rec_generation rec = gen" by blast
  from inv rec(1) obtain r where ar: "arena_inv (g_arena g)" "ra_capacity (g_arena g) = managed g"
    and r: "arena_live (g_arena g) aid = Some r" "rec_matches rec r" "rec_id rec = aid" by (rule gov_live)
  have gen: "ri_alloc_generation r = gen" using r(2) rec(2) by (simp add: rec_matches_def)
  from pin_effect [OF ar(1), of aid gen] r(1) gen obtain a' where p: "arena_pin (g_arena g) aid gen = (a', Ok (pinned_region r))"
    "arena_inv a'" "arena_live a' = (arena_live (g_arena g))(aid \<mapsto> pinned_region r)" "same_frame a' (g_arena g)" by auto
  have m: "rec_matches (pinned_rec r rec) (pinned_region r)" "rec_id (pinned_rec r rec) = aid"
    using r by (auto simp: rec_matches_def pinned_rec_def pinned_region_def)
  let ?g' = "g\<lparr>g_arena := a', g_records := om_assign aid (pinned_rec r rec) (g_records g), g_domain := count_pin (pinned_rec r rec) (g_domain g)\<rparr>"
  have cap: "ra_capacity a' = managed g" using p(4) ar by (simp add: same_frame_def)
  note rep = gov_inv_replace [OF inv rec(1) p(2) cap p(3) m, of "count_pin (pinned_rec r rec) (g_domain g)"]
  have "gov_pin g aid gen = (?g', Ok ())"
    using rec p(1) by (simp add: gov_pin_def Let_def pinned_rec_def pinned_region_def)
  then show thesis using rec r rep p(4) by (intro ok [of rec r ?g']) (simp_all add: same_frame_def)
qed

definition unpinned_rec :: "RegionInfo \<Rightarrow> AllocationRecord \<Rightarrow> AllocationRecord" where
  "unpinned_rec r rec = rec\<lparr>rec_movability := ri_movability (unpinned_region r), rec_pin_count := ri_pin_count r - 1,
     rec_lifecycle := (if ri_pin_count r - 1 = 0 then LifecycleState.RESIDENT else LifecycleState.PINNED)\<rparr>"

lemma unpin_cases:
  assumes inv: "gov_inv g"
  obtains (stale) msg where "\<not> (\<exists>rec. recs g aid = Some rec \<and> rec_generation rec = gen)"
      "gov_unpin g aid gen = (g, Err (Failure RejectReason.STALE_GENERATION msg))"
  | (unpinned) rec r msg where "recs g aid = Some rec" "rec_generation rec = gen" "arena_live (g_arena g) aid = Some r" "rec_matches rec r"
      "ri_pin_count r = 0" "gov_unpin g aid gen = (g, Err (Failure RejectReason.INVALID_REQUEST msg))"
  | (ok) g' rec r where "recs g aid = Some rec" "rec_generation rec = gen" "arena_live (g_arena g) aid = Some r" "rec_matches rec r"
      "ri_pin_count r \<noteq> 0" "gov_unpin g aid gen = (g', Ok ())" "gov_inv g'" "recs g' = (recs g)(aid \<mapsto> unpinned_rec r rec)"
      "g' = g\<lparr>g_arena := g_arena g', g_records := g_records g', g_domain := count_unpin (unpinned_rec r rec) (g_domain g)\<rparr>"
      "ra_live_bytes (g_arena g') = ra_live_bytes (g_arena g)"
proof (cases "\<exists>rec. recs g aid = Some rec \<and> rec_generation rec = gen")
  case False
  then show thesis using stale by (cases "recs g aid") (auto simp: gov_unpin_def)
next
  case True
  then obtain rec where rec: "recs g aid = Some rec" "rec_generation rec = gen" by blast
  from inv rec(1) obtain r where ar: "arena_inv (g_arena g)" "ra_capacity (g_arena g) = managed g"
    and r: "arena_live (g_arena g) aid = Some r" "rec_matches rec r" "rec_id rec = aid" by (rule gov_live)
  have gen: "ri_alloc_generation r = gen" using r(2) rec(2) by (simp add: rec_matches_def)
  note e = unpin_effect [OF ar(1), of aid gen]
  show thesis
  proof (cases "ri_pin_count r = 0")
    case True
    then obtain msg where "arena_unpin (g_arena g) aid gen = (g_arena g, Err (Failure RejectReason.INVALID_REQUEST msg))"
      using e r(1) gen by auto
    then have "gov_unpin g aid gen = (g, Err (Failure RejectReason.INVALID_REQUEST msg))" using rec by (simp add: gov_unpin_def)
    then show thesis using that(2) rec r True by blast
  next
    case False
    with e r(1) gen obtain a' where p: "arena_unpin (g_arena g) aid gen = (a', Ok (unpinned_region r))"
      "arena_inv a'" "arena_live a' = (arena_live (g_arena g))(aid \<mapsto> unpinned_region r)" "same_frame a' (g_arena g)" by auto
    have m: "rec_matches (unpinned_rec r rec) (unpinned_region r)" "rec_id (unpinned_rec r rec) = aid"
      using r by (auto simp: rec_matches_def unpinned_rec_def unpinned_region_def)
    let ?g' = "g\<lparr>g_arena := a', g_records := om_assign aid (unpinned_rec r rec) (g_records g), g_domain := count_unpin (unpinned_rec r rec) (g_domain g)\<rparr>"
    have cap: "ra_capacity a' = managed g" using p(4) ar by (simp add: same_frame_def)
    note rep = gov_inv_replace [OF inv rec(1) p(2) cap p(3) m, of "count_unpin (unpinned_rec r rec) (g_domain g)"]
    have pc: "ri_pin_count (unpinned_region r) = ri_pin_count r - 1" by (simp add: unpinned_region_def)
    have "gov_unpin g aid gen = (?g', Ok ())"
      using rec p(1) by (simp add: gov_unpin_def Let_def unpinned_rec_def pc)
    then show thesis using rec r rep False p(4) by (intro that(3) [of rec r ?g']) (simp_all add: same_frame_def)
  qed
qed

definition moved_rec :: "RegionInfo \<Rightarrow> AllocationRecord \<Rightarrow> AllocationRecord" where
  "moved_rec m rec = rec\<lparr>rec_offset := ri_offset m, rec_region_size := ri_size m, rec_region_generation := ri_region_generation m,
     rec_generation := ri_alloc_generation m,
     rec_relocation_generation := (if is_set (rec_relocation_generation rec) then gen_next (rec_relocation_generation rec) else gen_first),
     rec_lifecycle := LifecycleState.RESIDENT\<rparr>"

lemma apply_cases:
  assumes inv: "gov_inv g"
  obtains (stale) msg where "\<not> (\<exists>rec. recs g aid = Some rec \<and> rec_generation rec = gen)"
      "apply_relocation g aid gen n sz = (g, Err (Failure RejectReason.STALE_GENERATION msg))"
  | (pinned) rec msg where "recs g aid = Some rec" "rec_generation rec = gen" "rec_pin_count rec \<noteq> 0"
      "apply_relocation g aid gen n sz = (g, Err (Failure RejectReason.BLOCKED_BY_PINNED msg))"
  | (rejected) rec why msg where "recs g aid = Some rec" "rec_generation rec = gen" "rec_pin_count rec = 0"
      "relocate_reject (g_arena g) aid gen n sz (rec_alignment rec) = Some why"
      "apply_relocation g aid gen n sz = (g, Err (Failure why msg))"
  | (ok) g' rec r m where "recs g aid = Some rec" "rec_generation rec = gen" "rec_pin_count rec = 0"
      "relocate_reject (g_arena g) aid gen n sz (rec_alignment rec) = None"
      "arena_live (g_arena g) aid = Some r" "rec_matches rec r" "m = moved_region r gen n sz (rec_alignment rec)"
      "apply_relocation g aid gen n sz = (g', Ok \<lparr>ah_id = aid, ah_generation = gen_next gen, ah_offset = n, ah_size = sz,
         ah_alignment = rec_alignment rec\<rparr>)" "gov_inv g'" "recs g' = (recs g)(aid \<mapsto> moved_rec m rec)"
      "g' = g\<lparr>g_arena := g_arena g', g_records := g_records g'\<rparr>"
      "unat (ra_live_bytes (g_arena g')) + unat (rec_region_size rec) = unat (ra_live_bytes (g_arena g)) + unat sz"
proof (cases "\<exists>rec. recs g aid = Some rec \<and> rec_generation rec = gen")
  case False
  then show thesis using stale by (cases "recs g aid") (auto simp: apply_relocation_def)
next
  case True
  then obtain rec where rec: "recs g aid = Some rec" "rec_generation rec = gen" by blast
  from inv rec(1) obtain r where ar: "arena_inv (g_arena g)" "ra_capacity (g_arena g) = managed g"
    and r: "arena_live (g_arena g) aid = Some r" "rec_matches rec r" "rec_id rec = aid" by (rule gov_live)
  show thesis
  proof (cases "rec_pin_count rec = 0")
    case False
    then show thesis using pinned rec by (simp add: apply_relocation_def)
  next
    case unp: True
    show thesis
    proof (cases "relocate_reject (g_arena g) aid gen n sz (rec_alignment rec)")
      case (Some why)
      with relocate_decide [OF ar(1), of aid gen n sz "rec_alignment rec"]
      obtain msg where "arena_relocate (g_arena g) aid gen n sz (rec_alignment rec) = (g_arena g, Err (Failure why msg))" by auto
      then have "apply_relocation g aid gen n sz = (g, Err (Failure why msg))" using rec unp by (simp add: apply_relocation_def)
      then show thesis using rejected rec unp Some by blast
    next
      case None
      let ?m = "moved_region r gen n sz (rec_alignment rec)"
      from relocate_success [OF ar(1) None] r(1) obtain a' where p:
        "arena_relocate (g_arena g) aid gen n sz (rec_alignment rec) = (a', Ok ?m)" "arena_inv a'"
        "arena_live a' = (arena_live (g_arena g))(aid \<mapsto> ?m)" "ra_capacity a' = ra_capacity (g_arena g)"
        "unat (ra_live_bytes a') + unat (ri_size r) = unat (ra_live_bytes (g_arena g)) + unat sz" by auto
      have m: "rec_matches (moved_rec ?m rec) ?m" "rec_id (moved_rec ?m rec) = aid"
        using r by (auto simp: rec_matches_def moved_rec_def moved_region_def)
      let ?g' = "g\<lparr>g_arena := a', g_records := om_assign aid (moved_rec ?m rec) (g_records g), g_domain := g_domain g\<rparr>"
      have cap: "ra_capacity a' = managed g" using p(4) ar by simp
      note rep = gov_inv_replace [OF inv rec(1) p(2) cap p(3) m refl]
      have "apply_relocation g aid gen n sz = (?g', Ok \<lparr>ah_id = aid, ah_generation = gen_next gen, ah_offset = n, ah_size = sz,
         ah_alignment = rec_alignment rec\<rparr>)"
        using rec unp p(1) by (simp add: apply_relocation_def Let_def moved_rec_def)
      then show thesis using rec unp None r rep p(5) by (intro ok [of rec r ?m ?g']) (simp_all add: rec_matches_def)
    qed
  qed
qed

text \<open>The const methods only refresh the cached summary and the pressure.\<close>

definition only_cache :: "MemoryGovernor \<Rightarrow> MemoryGovernor \<Rightarrow> bool" where
  "only_cache g' g \<longleftrightarrow> (\<exists>p. g' = g\<lparr>g_arena := ensure_summary (g_arena g), g_domain := (g_domain g)\<lparr>dom_pressure := p\<rparr>\<rparr>)"

lemma ensure_summary_idem [simp]: "ensure_summary (ensure_summary ra) = ensure_summary ra"
  by (simp add: ensure_summary_def)

lemma ensure_summary_frame [simp]:
  "ra_regions (ensure_summary ra) = ra_regions ra" "ra_alloc_offset (ensure_summary ra) = ra_alloc_offset ra"
  "ra_live_bytes (ensure_summary ra) = ra_live_bytes ra" "ra_capacity (ensure_summary ra) = ra_capacity ra"
  by (simp_all add: ensure_summary_def)

lemma snapshot_live_summary [simp]: "snapshot_live (ensure_summary ra) = snapshot_live ra"
  by (simp add: snapshot_live_def)

lemma arena_live_summary [simp]: "arena_live (ensure_summary ra) = arena_live ra"
  by (simp add: fun_eq_iff arena_live_def split: option.splits)

lemma pressure_cache: "only_cache (fst (gov_pressure g)) g"
  by (auto simp: only_cache_def gov_pressure_def largest_free_region_def external_fragmentation_def Let_def)

lemma summary_cache: "only_cache (fst (gov_summary g)) g"
  by (auto simp: only_cache_def gov_summary_def gov_pressure_def largest_free_region_def free_region_count_def
      external_fragmentation_def Let_def)

lemma explain_cache: "only_cache (fst (gov_explain g)) g"
  using summary_cache [of g] by (auto simp: gov_explain_def split: prod.splits)

lemma plan_cache: "only_cache (fst (plan_compaction g)) g"
  unfolding only_cache_def by (rule exI [of _ "dom_pressure (g_domain g)"]) (simp add: plan_compaction_def largest_free_region_def Let_def)

lemma cache_inv:
  assumes "only_cache g' g" "gov_inv g"
  shows "gov_inv g'"
proof -
  from assms(1) obtain p where "g' = g\<lparr>g_arena := ensure_summary (g_arena g), g_domain := (g_domain g)\<lparr>dom_pressure := p\<rparr>\<rparr>"
    by (auto simp: only_cache_def)
  moreover have "arena_inv (g_arena g) \<Longrightarrow> arena_inv (ensure_summary (g_arena g))" using summary_effect(1) by blast
  ultimately show ?thesis using assms(2) by (auto simp: gov_inv_def arena_ok_def)
qed

lemma initialize_inv: "gov_inv g \<Longrightarrow> gov_inv (fst (gov_initialize g))"
  by (auto simp: gov_initialize_def gov_inv_def arena_ok_def split: option.splits sum.splits)

section \<open>Restoring\<close>

lemma new_arena_live [simp]: "arena_live (RegionAllocator_new c) = (\<lambda>_. None)"
  by (auto simp: arena_live_def RegionAllocator_new_def Let_def index_free_def)

lemma new_arena_offsets [simp]:
  "ra_alloc_offset (RegionAllocator_new c) = []" "ra_capacity (RegionAllocator_new c) = c" "snapshot_live (RegionAllocator_new c) = []"
  by (auto simp: RegionAllocator_new_def Let_def index_free_def snapshot_live_def)

lemma new_arena_ok: "c \<noteq> 0 \<Longrightarrow> arena_inv (RegionAllocator_new c)"
  by (simp add: arena_inv_new)

lemma new_inv: "gov_inv (MemoryGovernor_new d be)"
  by (auto simp: gov_inv_def MemoryGovernor_new_def arena_ok_def new_arena_ok)

lemma om_fold_assign:
  assumes "om_ok m" "\<And>i r. om_find m i = Some r \<Longrightarrow> rec_id r = i" "\<And>r. rec_id (f r) = rec_id r"
  shows "om_ok (foldl (\<lambda>m rec. om_assign (rec_id rec) (f rec) m) m rs)"
    "om_find (foldl (\<lambda>m rec. om_assign (rec_id rec) (f rec) m) m rs) i = Some r \<Longrightarrow> rec_id r = i"
proof -
  have "om_ok (foldl (\<lambda>m rec. om_assign (rec_id rec) (f rec) m) m rs) \<and>
      (\<forall>i r. om_find (foldl (\<lambda>m rec. om_assign (rec_id rec) (f rec) m) m rs) i = Some r \<longrightarrow> rec_id r = i)"
    using assms(1,2)
  proof (induction rs arbitrary: m)
    case (Cons q rs)
    have "om_ok (om_assign (rec_id q) (f q) m)" "\<And>i r. om_find (om_assign (rec_id q) (f q) m) i = Some r \<Longrightarrow> rec_id r = i"
      using Cons.prems by (auto simp: om_ok_assign om_find_assign assms(3) split: if_splits)
    from Cons.IH [OF this] show ?case by simp
  qed simp
  then show "om_ok (foldl (\<lambda>m rec. om_assign (rec_id rec) (f rec) m) m rs)"
    "om_find (foldl (\<lambda>m rec. om_assign (rec_id rec) (f rec) m) m rs) i = Some r \<Longrightarrow> rec_id r = i" by blast+
qed

lemma stale_record_id [simp]: "rec_id (stale_record r) = rec_id r"
  by (simp add: stale_record_def)

lemma restore_inv: "gov_inv (fst (gov_restore g s))"
proof -
  let ?m1 = "foldl (\<lambda>m rec. om_assign (rec_id rec) (stale_record rec) m) [] (ps_records s)"
  have m1: "om_ok ?m1" by (rule om_fold_assign(1)) simp_all
  have id1: "rec_id r = i" if "om_find ?m1 i = Some r" for i r
    by (rule om_fold_assign(2) [OF _ _ _ that]) simp_all
  have m2: "om_ok (foldl (\<lambda>m rec. om_assign (rec_id rec) rec m) ?m1 (ps_retired s))"
    by (rule om_fold_assign(1) [OF m1 id1 refl])
  have id2: "rec_id r = i" if "om_find (foldl (\<lambda>m rec. om_assign (rec_id rec) rec m) ?m1 (ps_retired s)) i = Some r" for i r
    by (rule om_fold_assign(2) [OF m1 id1 refl that])
  have R: "g_retired (fst (gov_restore g s)) = foldl (\<lambda>m rec. om_assign (rec_id rec) rec m) ?m1 (ps_retired s)"
    "g_records (fst (gov_restore g s)) = []" "arena_live (g_arena (fst (gov_restore g s))) = (\<lambda>_. None)"
    and A: "arena_ok (fst (gov_restore g s))"
    by (simp_all add: gov_restore_def Let_def arena_ok_def new_arena_ok restored_domain_def)
  show ?thesis unfolding gov_inv_def
  proof (intro conjI allI impI)
    fix i r assume "om_find (g_retired (fst (gov_restore g s))) i = Some r"
    then show "rec_id r = i" unfolding R(1) by (rule id2)
  qed (simp_all add: R A m2)
qed

lemma load_inv: "gov_inv g \<Longrightarrow> gov_inv (fst (gov_load g path fs))"
  using restore_inv by (auto simp: gov_load_def split: result.splits)

section \<open>Histories\<close>

text \<open>
  A history of a governor is its construction and a sequence of calls.  The counter of identities
  must not wrap around, which takes \<open>2^64 - 1\<close> requests (or a file that says so).
\<close>

datatype gov_call =
    Initialize
  | Request AllocationRequest
  | Release AllocationId AllocationGeneration
  | ReleaseForWorker AllocationId AllocationGeneration WorkerBootId SourceBootId
  | Pin AllocationId AllocationGeneration
  | Unpin AllocationId AllocationGeneration
  | Relocate AllocationId AllocationGeneration u64 u64
  | Pressure | Summary | Plan | Explain
  | Restore PersistSnapshot
  | Load string file_system

fun gov_exec :: "MemoryGovernor \<Rightarrow> gov_call \<Rightarrow> MemoryGovernor" where
  "gov_exec g Initialize = fst (gov_initialize g)"
| "gov_exec g (Request req) = fst (gov_request g req)"
| "gov_exec g (Release aid gen) = fst (gov_release g aid gen)"
| "gov_exec g (ReleaseForWorker aid gen wb sb) = fst (release_for_worker g aid gen wb sb)"
| "gov_exec g (Pin aid gen) = fst (gov_pin g aid gen)"
| "gov_exec g (Unpin aid gen) = fst (gov_unpin g aid gen)"
| "gov_exec g (Relocate aid gen n sz) = fst (apply_relocation g aid gen n sz)"
| "gov_exec g Pressure = fst (gov_pressure g)"
| "gov_exec g Summary = fst (gov_summary g)"
| "gov_exec g Plan = fst (plan_compaction g)"
| "gov_exec g Explain = fst (gov_explain g)"
| "gov_exec g (Restore s) = fst (gov_restore g s)"
| "gov_exec g (Load path fs) = fst (gov_load g path fs)"

definition call_ok :: "MemoryGovernor \<Rightarrow> gov_call \<Rightarrow> bool" where
  "call_ok g c \<longleftrightarrow> (case c of Request _ \<Rightarrow> g_next_alloc_id g \<noteq> - 1 | _ \<Rightarrow> True)"

inductive gov_reach :: "MemoryGovernor \<Rightarrow> bool" where
  new: "gov_reach (MemoryGovernor_new d be)"
| call: "gov_reach g \<Longrightarrow> call_ok g c \<Longrightarrow> gov_reach (gov_exec g c)"

lemma release_keeps: "gov_inv g \<Longrightarrow> gov_inv (fst (release_locked g aid gen wb sb))"
  by (cases rule: release_cases [of g aid gen wb sb]) simp_all

lemma request_keeps: "gov_inv g \<Longrightarrow> g_next_alloc_id g \<noteq> - 1 \<Longrightarrow> gov_inv (fst (gov_request g req))"
  by (cases rule: request_cases [of g req]) simp_all

interpretation gpin: handle_op gov_inv "\<lambda>g. recs g" rec_generation gov_pin
proof
  fix g aid gen other assume inv: "gov_inv g"
  from inv show "gov_inv (fst (gov_pin g aid gen))" by (cases rule: pin_cases [of g aid gen]) (simp_all add: inv)
  from inv show "other \<noteq> aid \<Longrightarrow> recs (fst (gov_pin g aid gen)) other = recs g other"
    by (cases rule: pin_cases [of g aid gen]) simp_all
  from inv show "\<not> (\<exists>r. recs g aid = Some r \<and> rec_generation r = gen) \<Longrightarrow>
      \<exists>msg. gov_pin g aid gen = (g, Err (Failure RejectReason.STALE_GENERATION msg))"
    by (cases rule: pin_cases [of g aid gen]) auto
qed

interpretation gunpin: handle_op gov_inv "\<lambda>g. recs g" rec_generation gov_unpin
proof
  fix g aid gen other assume inv: "gov_inv g"
  from inv show "gov_inv (fst (gov_unpin g aid gen))" by (cases rule: unpin_cases [of g aid gen]) (simp_all add: inv)
  from inv show "other \<noteq> aid \<Longrightarrow> recs (fst (gov_unpin g aid gen)) other = recs g other"
    by (cases rule: unpin_cases [of g aid gen]) simp_all
  from inv show "\<not> (\<exists>r. recs g aid = Some r \<and> rec_generation r = gen) \<Longrightarrow>
      \<exists>msg. gov_unpin g aid gen = (g, Err (Failure RejectReason.STALE_GENERATION msg))"
    by (cases rule: unpin_cases [of g aid gen]) auto
qed

interpretation gmove: consuming_op gov_inv "\<lambda>g. recs g" rec_generation "\<lambda>g aid gen. apply_relocation g aid gen n sz" for n sz
proof
  fix g aid gen other g' a assume inv: "gov_inv g"
  from inv show "gov_inv (fst (apply_relocation g aid gen n sz))" by (cases rule: apply_cases [of g aid gen n sz]) (simp_all add: inv)
  from inv show "other \<noteq> aid \<Longrightarrow> recs (fst (apply_relocation g aid gen n sz)) other = recs g other"
    by (cases rule: apply_cases [of g aid gen n sz]) simp_all
  from inv show "\<not> (\<exists>r. recs g aid = Some r \<and> rec_generation r = gen) \<Longrightarrow>
      \<exists>msg. apply_relocation g aid gen n sz = (g, Err (Failure RejectReason.STALE_GENERATION msg))"
    by (cases rule: apply_cases [of g aid gen n sz]) auto
  from inv show "apply_relocation g aid gen n sz = (g', Ok a) \<Longrightarrow> \<not> (\<exists>r. recs g' aid = Some r \<and> rec_generation r = gen)"
    by (cases rule: apply_cases [of g aid gen n sz]) (auto simp: moved_rec_def gen_next_neq)
qed

lemma exec_inv: "gov_inv g \<Longrightarrow> call_ok g c \<Longrightarrow> gov_inv (gov_exec g c)"
  by (cases c)
    (simp_all add: call_ok_def initialize_inv request_keeps gov_release_def release_for_worker_def release_keeps gpin.keeps
      gunpin.keeps gmove.keeps cache_inv [OF pressure_cache] cache_inv [OF summary_cache] cache_inv [OF plan_cache]
      cache_inv [OF explain_cache] restore_inv load_inv)

lemma reach_gov_inv: "gov_reach g \<Longrightarrow> gov_inv g"
  by (induction rule: gov_reach.induct) (simp_all add: new_inv exec_inv)

end
