(* ===== verification/Gms_Governor_Heap.thy ===== *)
theory Gms_Governor_Heap
  imports Gms_Governor_Inv
begin

text \<open>
  The specification of the governor as an abstract heap of blocks, and the proof that every call of the
  governor is a step of it (\<open>exec_refines\<close>).
\<close>

section \<open>Memory safety of the records\<close>

definition disjoint_recs :: "AllocationRecord \<Rightarrow> AllocationRecord \<Rightarrow> bool" where
  "disjoint_recs a b \<longleftrightarrow>
     unat (rec_offset a) + unat (rec_region_size a) \<le> unat (rec_offset b) \<or>
     unat (rec_offset b) + unat (rec_region_size b) \<le> unat (rec_offset a)"

lemma rec_bounds:
  assumes "gov_inv g" "recs g aid = Some rec"
  shows "unat (rec_offset rec) + unat (rec_region_size rec) \<le> unat (managed g)" "0 < unat (rec_region_size rec)"
    "rec_offset rec mod rec_alignment rec = 0" "is_pow2 (rec_alignment rec)"
proof -
  from assms obtain r where ar: "arena_inv (g_arena g)" "ra_capacity (g_arena g) = managed g"
    and r: "arena_live (g_arena g) aid = Some r" "rec_matches rec r" by (rule gov_live)
  note e = arena_entry [OF ar(1) r(1)]
  have "(ri_offset r, r) \<in> live_entries (regs (g_arena g))" using e(1,2) by (simp add: live_entries_def)
  moreover have "aligned_ok (regs (g_arena g))" using ar(1) by (simp add: arena_inv_def)
  ultimately have "is_pow2 (ri_alignment r) \<and> ri_offset r mod ri_alignment r = 0"
    by (metis aligned_ok_def fst_conv snd_conv)
  then show "unat (rec_offset rec) + unat (rec_region_size rec) \<le> unat (managed g)" "0 < unat (rec_region_size rec)"
    "rec_offset rec mod rec_alignment rec = 0" "is_pow2 (rec_alignment rec)"
    using e(4,5) ar(2) r(2) by (simp_all add: rec_matches_def unat_pos_iff)
qed

lemma recs_disjoint:
  assumes "gov_inv g" "recs g a = Some x" "recs g b = Some y" "a \<noteq> b"
  shows "disjoint_recs x y"
proof -
  from assms(1,2) obtain r where ar: "arena_inv (g_arena g)" and r: "arena_live (g_arena g) a = Some r" "rec_matches x r" by (rule gov_live)
  from assms(1,3) obtain q where q: "arena_live (g_arena g) b = Some q" "rec_matches y q" by (rule gov_live)
  note e = arena_entry [OF ar r(1)] and f = arena_entry [OF ar q(1)]
  have "(ri_offset r, r) \<noteq> (ri_offset q, q)" using e(3) f(3) assms(4) by auto
  from layout_sep [OF arena_layout [OF ar] e(1) f(1) this] show ?thesis
    using r(2) q(2) by (simp add: rec_matches_def disjoint_recs_def)
qed

section \<open>Refinement of an abstract heap\<close>

text \<open>
  The specification: a heap of blocks, each with a generation, an interval of bytes and a number of pins.  A step is labelled with
  the call it answers and with whether the call is accepted.  A refused call and a query change nothing.  An accepted call does
  its own step and no other: only a request allocates, in bytes that no block has; only a release frees, the block it names, when
  the generation is right and the block is not pinned; only a relocation moves, the block it names to the place it names, under
  the same conditions and with a new generation; only \<open>Pin\<close> and \<open>Unpin\<close> change pins (the counter has 32 bits and wraps; the pin a
  request asked for is merged with the first \<open>Pin\<close>); and only recovery starts over, with the capacity of the snapshot.
\<close>

record block =
  bk_gen :: AllocationGeneration
  bk_lo :: nat
  bk_hi :: nat
  bk_pins :: u32

record heap =
  hp_cap :: nat
  hp_blocks :: "AllocationId \<Rightarrow> block option"

definition apart :: "block \<Rightarrow> block \<Rightarrow> bool" where
  "apart a b \<longleftrightarrow> bk_hi a \<le> bk_lo b \<or> bk_hi b \<le> bk_lo a"

definition fits :: "heap \<Rightarrow> AllocationId \<Rightarrow> block \<Rightarrow> bool" where
  "fits h aid b \<longleftrightarrow> bk_lo b < bk_hi b \<and> bk_hi b \<le> hp_cap h \<and>
     (\<forall>i c. i \<noteq> aid \<longrightarrow> hp_blocks h i = Some c \<longrightarrow> apart b c)"

text \<open>The block that \<open>aid\<close> and \<open>gen\<close> name, if it may be freed or moved.\<close>

definition loose :: "heap \<Rightarrow> AllocationId \<Rightarrow> AllocationGeneration \<Rightarrow> block \<Rightarrow> bool" where
  "loose h aid gen b \<longleftrightarrow> hp_blocks h aid = Some b \<and> bk_gen b = gen \<and> bk_pins b = 0"

definition empty_heap :: "PersistSnapshot \<Rightarrow> heap" where
  "empty_heap s = \<lparr>hp_cap = unat (dom_managed_capacity (ps_domain s)), hp_blocks = (\<lambda>_. None)\<rparr>"

inductive heap_step :: "gov_call \<Rightarrow> bool \<Rightarrow> heap \<Rightarrow> heap \<Rightarrow> bool" where
  refused: "heap_step c False h h"
| query: "c \<in> {Initialize, Pressure, Summary, Plan, Explain} \<Longrightarrow> heap_step c True h h"
| alloc: "hp_blocks h aid = None \<Longrightarrow> fits h aid b \<Longrightarrow> bk_lo b mod unat (req_alignment req) = 0 \<Longrightarrow>
     bk_hi b = bk_lo b + round_up (unat (req_bytes req)) (unat (req_alignment req)) \<Longrightarrow> bk_pins b = (if req_requires_pin req then 1 else 0) \<Longrightarrow>
     heap_step (Request req) True h (h\<lparr>hp_blocks := (hp_blocks h)(aid \<mapsto> b)\<rparr>)"
| free: "loose h aid gen b \<Longrightarrow> heap_step (Release aid gen) True h (h\<lparr>hp_blocks := (hp_blocks h)(aid := None)\<rparr>)"
| free_worker: "loose h aid gen b \<Longrightarrow>
     heap_step (ReleaseForWorker aid gen wb sb) True h (h\<lparr>hp_blocks := (hp_blocks h)(aid := None)\<rparr>)"
| move: "loose h aid gen b \<Longrightarrow> b' = \<lparr>bk_gen = gen', bk_lo = unat n, bk_hi = unat n + unat sz, bk_pins = 0\<rparr> \<Longrightarrow>
     gen' \<noteq> gen \<Longrightarrow> apart b b' \<Longrightarrow> fits h aid b' \<Longrightarrow>
     heap_step (Relocate aid gen n sz) True h (h\<lparr>hp_blocks := (hp_blocks h)(aid \<mapsto> b')\<rparr>)"
| pin: "hp_blocks h aid = Some b \<Longrightarrow> bk_gen b = gen \<Longrightarrow> p = bk_pins b + 1 \<or> bk_pins b = 1 \<and> p = 1 \<Longrightarrow>
     heap_step (Pin aid gen) True h (h\<lparr>hp_blocks := (hp_blocks h)(aid \<mapsto> b\<lparr>bk_pins := p\<rparr>)\<rparr>)"
| unpin: "hp_blocks h aid = Some b \<Longrightarrow> bk_gen b = gen \<Longrightarrow> bk_pins b \<noteq> 0 \<Longrightarrow>
     heap_step (Unpin aid gen) True h (h\<lparr>hp_blocks := (hp_blocks h)(aid \<mapsto> b\<lparr>bk_pins := bk_pins b - 1\<rparr>)\<rparr>)"
| restore: "heap_step (Restore s) True h (empty_heap s)"
| load: "read_file path fs = Ok s \<Longrightarrow> heap_step (Load path fs) True h (empty_heap s)"

text \<open>Whether a call of the governor returns a value; queries always do.\<close>

fun accepted :: "MemoryGovernor \<Rightarrow> gov_call \<Rightarrow> bool" where
  "accepted g Initialize = has_value (snd (gov_initialize g))"
| "accepted g (Request req) = has_value (snd (gov_request g req))"
| "accepted g (Release aid gen) = has_value (snd (gov_release g aid gen))"
| "accepted g (ReleaseForWorker aid gen wb sb) = has_value (snd (release_for_worker g aid gen wb sb))"
| "accepted g (Pin aid gen) = has_value (snd (gov_pin g aid gen))"
| "accepted g (Unpin aid gen) = has_value (snd (gov_unpin g aid gen))"
| "accepted g (Relocate aid gen n sz) = has_value (snd (apply_relocation g aid gen n sz))"
| "accepted g (Restore s) = has_value (snd (gov_restore g s))"
| "accepted g (Load path fs) = has_value (snd (gov_load g path fs))"
| "accepted g _ = True"

definition block_of :: "AllocationRecord \<Rightarrow> block" where
  "block_of rec = \<lparr>bk_gen = rec_generation rec, bk_lo = unat (rec_offset rec),
     bk_hi = unat (rec_offset rec) + unat (rec_region_size rec), bk_pins = rec_pin_count rec\<rparr>"

definition gov_heap :: "MemoryGovernor \<Rightarrow> heap" where
  "gov_heap g = \<lparr>hp_cap = unat (managed g), hp_blocks = (\<lambda>aid. map_option block_of (recs g aid))\<rparr>"

lemma apart_block: "apart (block_of x) (block_of y) \<longleftrightarrow> disjoint_recs x y"
  by (simp add: apart_def block_of_def disjoint_recs_def)

lemma gov_heap_same: "recs g' = recs g \<Longrightarrow> managed g' = managed g \<Longrightarrow> gov_heap g' = gov_heap g"
  by (simp add: gov_heap_def)

lemma gov_heap_upd:
  assumes "recs g' = (recs g)(aid := x)" "managed g' = managed g"
  shows "gov_heap g' = (gov_heap g)\<lparr>hp_blocks := (hp_blocks (gov_heap g))(aid := map_option block_of x)\<rparr>"
  using assms by (auto simp: gov_heap_def)

text \<open>A record of the new state fits among the other records of the old state.\<close>

lemma rec_fits:
  assumes "gov_inv g'" "recs g' = (recs g)(aid \<mapsto> rec)" "managed g' = managed g"
  shows "fits (gov_heap g) aid (block_of rec)"
proof -
  have rec: "recs g' aid = Some rec" using assms(2) by simp
  have "apart (block_of rec) c" if "i \<noteq> aid" "hp_blocks (gov_heap g) i = Some c" for i c
  proof -
    from that obtain q where "recs g' i = Some q" "c = block_of q" using assms(2) by (auto simp: gov_heap_def)
    then show ?thesis using recs_disjoint [OF assms(1) rec, of i q] that(1) by (simp add: apart_block)
  qed
  then show ?thesis
    using rec_bounds(1,2) [OF assms(1) rec] assms(3) by (auto simp: fits_def gov_heap_def block_of_def)
qed

lemma cache_heap: "only_cache g' g \<Longrightarrow> gov_heap g' = gov_heap g"
  by (auto simp: only_cache_def gov_heap_def)

lemma refines_request:
  assumes "gov_inv g" "g_next_alloc_id g \<noteq> - 1"
  shows "heap_step (Request req) (has_value (snd (gov_request g req))) (gov_heap g) (gov_heap (fst (gov_request g req)))"
  using assms
proof (cases rule: request_cases [of g req])
  case (ok g' r aid rec)
  have m: "managed g' = managed g" by (subst ok(12)) simp
  have "rec_offset rec mod req_alignment req = 0"
    using rec_bounds(3) [OF ok(8), of aid rec] ok(9) by (simp add: ok(5) request_record_def)
  then have "unat (rec_offset rec) mod unat (req_alignment req) = 0" by (metis unat_0 unat_mod)
  moreover have "rec_region_size rec = ri_size r" "rec_pin_count rec = (if req_requires_pin req then 1 else 0)"
    by (simp_all add: ok(5) request_record_def)
  ultimately have "heap_step (Request req) True (gov_heap g) ((gov_heap g)\<lparr>hp_blocks := (hp_blocks (gov_heap g))(aid \<mapsto> block_of rec)\<rparr>)"
    using ok(4,11) rec_fits [OF ok(8,9) m] by (intro heap_step.alloc) (simp_all add: gov_heap_def block_of_def)
  then show ?thesis using gov_heap_upd [OF ok(9) m] ok(7) by simp
qed (simp_all add: heap_step.refused gov_heap_def)

text \<open>A release that is accepted finds its block loose and takes it out.\<close>

lemma release_heap:
  assumes "gov_inv g" "has_value (snd (release_locked g aid gen wb sb))"
  obtains b where "loose (gov_heap g) aid gen b"
    "gov_heap (fst (release_locked g aid gen wb sb)) = (gov_heap g)\<lparr>hp_blocks := (hp_blocks (gov_heap g))(aid := None)\<rparr>"
  using assms(1)
proof (cases rule: release_cases [of g aid gen wb sb])
  case (ok g' rec)
  have m: "managed g' = managed g" by (subst ok(9)) simp
  have "loose (gov_heap g) aid gen (block_of rec)" using ok(2-4) by (simp add: loose_def gov_heap_def block_of_def)
  then show thesis using that gov_heap_upd [OF ok(7) m] ok(5) by simp
qed (use assms(2) in simp)

lemma release_kept: "gov_inv g \<Longrightarrow> \<not> has_value (snd (release_locked g aid gen wb sb)) \<Longrightarrow> fst (release_locked g aid gen wb sb) = g"
  by (cases rule: release_cases [of g aid gen wb sb]) simp_all

lemma refines_release:
  assumes "gov_inv g"
  shows "heap_step (Release aid gen) (has_value (snd (gov_release g aid gen))) (gov_heap g) (gov_heap (fst (gov_release g aid gen)))"
    "heap_step (ReleaseForWorker aid gen wb sb) (has_value (snd (release_for_worker g aid gen wb sb))) (gov_heap g)
      (gov_heap (fst (release_for_worker g aid gen wb sb)))"
  unfolding gov_release_def release_for_worker_def
   apply (metis (full_types) assms heap_step.free heap_step.refused release_heap release_kept)
  by (metis (full_types) assms heap_step.free_worker heap_step.refused release_heap release_kept)

lemma relocate_apart:
  assumes "arena_inv ra" "relocate_reject ra aid gen n sz al = None" "arena_live ra aid = Some r" "sz \<noteq> 0"
  shows "unat (ri_offset r) + unat (ri_size r) \<le> unat n \<or> unat n + unat sz \<le> unat (ri_offset r)"
proof -
  note e = arena_entry [OF assms(1,3)]
  have "(ri_offset r, r) \<in> live_entries (regs ra)" using e(1,2) by (simp add: live_entries_def)
  moreover have "\<not> (\<exists>x\<in>live_entries (regs ra). overlaps (unat n) (unat n + unat sz) x)"
    using assms(2,3) by (auto simp: relocate_reject_def split: if_splits)
  ultimately show ?thesis by (force simp: overlaps_def)
qed

lemma refines_move:
  assumes inv: "gov_inv g"
  shows "heap_step (Relocate aid gen n sz) (has_value (snd (apply_relocation g aid gen n sz))) (gov_heap g)
    (gov_heap (fst (apply_relocation g aid gen n sz)))"
  using inv
proof (cases rule: apply_cases [of g aid gen n sz])
  case (ok g' rec r m)
  have man: "managed g' = managed g" by (subst ok(11)) simp
  have sz: "sz \<noteq> 0" using ok(4,5) by (auto simp: relocate_reject_def split: if_splits)
  from inv ok(1) have "arena_inv (g_arena g)" by (rule gov_live)
  from relocate_apart [OF this ok(4,5) sz] have "apart (block_of rec) (block_of (moved_rec m rec))"
    using ok(6,7) by (simp add: apart_def block_of_def moved_rec_def rec_matches_def moved_region_def)
  moreover have "loose (gov_heap g) aid gen (block_of rec)" using ok(1-3) by (simp add: loose_def gov_heap_def block_of_def)
  moreover have "block_of (moved_rec m rec) = \<lparr>bk_gen = gen_next gen, bk_lo = unat n, bk_hi = unat n + unat sz, bk_pins = 0\<rparr>"
    using ok(3,7) by (simp add: block_of_def moved_rec_def moved_region_def)
  ultimately have "heap_step (Relocate aid gen n sz) True (gov_heap g)
      ((gov_heap g)\<lparr>hp_blocks := (hp_blocks (gov_heap g))(aid \<mapsto> block_of (moved_rec m rec))\<rparr>)"
    using rec_fits [OF ok(9,10) man] gen_next_neq [of gen] by (intro heap_step.move)
  then show ?thesis using gov_heap_upd [OF ok(10) man] ok(8) by simp
qed (simp_all add: heap_step.refused)

lemma refines_pins:
  assumes inv: "gov_inv g"
  shows "heap_step (Pin aid gen) (has_value (snd (gov_pin g aid gen))) (gov_heap g) (gov_heap (fst (gov_pin g aid gen)))"
    "heap_step (Unpin aid gen) (has_value (snd (gov_unpin g aid gen))) (gov_heap g) (gov_heap (fst (gov_unpin g aid gen)))"
proof -
  from inv show "heap_step (Pin aid gen) (has_value (snd (gov_pin g aid gen))) (gov_heap g) (gov_heap (fst (gov_pin g aid gen)))"
  proof (cases rule: pin_cases [of g aid gen])
    case (ok g' rec r)
    have m: "managed g' = managed g" by (subst ok(8)) simp
    have "ri_pin_count r + 1 = rec_pin_count rec + 1 \<or> rec_pin_count rec = 1 \<and> ri_pin_count r + 1 = 1"
      using ok(4) by (auto simp: rec_matches_def)
    then have "heap_step (Pin aid gen) True (gov_heap g)
        ((gov_heap g)\<lparr>hp_blocks := (hp_blocks (gov_heap g))(aid \<mapsto> (block_of rec)\<lparr>bk_pins := ri_pin_count r + 1\<rparr>)\<rparr>)"
      using ok(1,2) by (intro heap_step.pin) (auto simp: gov_heap_def block_of_def)
    then show ?thesis using gov_heap_upd [OF ok(7) m] ok(5) by (simp add: block_of_def pinned_rec_def)
  qed (simp add: heap_step.refused)
  from inv show "heap_step (Unpin aid gen) (has_value (snd (gov_unpin g aid gen))) (gov_heap g) (gov_heap (fst (gov_unpin g aid gen)))"
  proof (cases rule: unpin_cases [of g aid gen])
    case (ok g' rec r)
    have m: "managed g' = managed g" by (subst ok(9)) simp
    have c: "rec_pin_count rec = ri_pin_count r" using ok(4,5) by (auto simp: rec_matches_def)
    have "heap_step (Unpin aid gen) True (gov_heap g) ((gov_heap g)\<lparr>hp_blocks := (hp_blocks (gov_heap g))(aid \<mapsto>
        (block_of rec)\<lparr>bk_pins := bk_pins (block_of rec) - 1\<rparr>)\<rparr>)"
      using ok(1,2,5) c by (intro heap_step.unpin) (auto simp: gov_heap_def block_of_def)
    then show ?thesis using gov_heap_upd [OF ok(8) m] ok(6) c by (simp add: block_of_def unpinned_rec_def)
  qed (simp_all add: heap_step.refused)
qed

lemma restore_heap: "gov_heap (fst (gov_restore g s)) = empty_heap s" "has_value (snd (gov_restore g s))"
  by (simp_all add: empty_heap_def gov_heap_def gov_restore_def Let_def restored_domain_def)

lemma refines_rest:
  "heap_step (Restore s) (has_value (snd (gov_restore g s))) (gov_heap g) (gov_heap (fst (gov_restore g s)))"
  "heap_step (Load path fs) (has_value (snd (gov_load g path fs))) (gov_heap g) (gov_heap (fst (gov_load g path fs)))"
  "heap_step Initialize (has_value (snd (gov_initialize g))) (gov_heap g) (gov_heap (fst (gov_initialize g)))"
proof -
  show "heap_step (Restore s) (has_value (snd (gov_restore g s))) (gov_heap g) (gov_heap (fst (gov_restore g s)))"
    by (simp add: restore_heap heap_step.restore)
  show "heap_step (Load path fs) (has_value (snd (gov_load g path fs))) (gov_heap g) (gov_heap (fst (gov_load g path fs)))"
    by (cases "read_file path fs") (simp_all add: gov_load_def restore_heap heap_step.refused heap_step.load)
  have "gov_heap (fst (gov_initialize g)) = gov_heap g" by (auto simp: gov_initialize_def gov_heap_def split: option.splits sum.splits)
  then show "heap_step Initialize (has_value (snd (gov_initialize g))) (gov_heap g) (gov_heap (fst (gov_initialize g)))"
    by (cases "has_value (snd (gov_initialize g))") (simp_all add: heap_step.refused heap_step.query)
qed

lemma exec_refines: "gov_inv g \<Longrightarrow> call_ok g c \<Longrightarrow> heap_step c (accepted g c) (gov_heap g) (gov_heap (gov_exec g c))"
  by (cases c)
    (simp_all add: call_ok_def refines_request refines_release refines_pins refines_move refines_rest heap_step.query
      cache_heap [OF pressure_cache] cache_heap [OF summary_cache] cache_heap [OF plan_cache] cache_heap [OF explain_cache])

text \<open>A pinned block stays, with its generation and its bytes, in every step but recovery.\<close>

lemma heap_pinned:
  assumes "heap_step c ok h h'" "hp_blocks h aid = Some b" "bk_pins b \<noteq> 0" "\<forall>s path fs. c \<noteq> Restore s \<and> c \<noteq> Load path fs"
  shows "\<exists>p. hp_blocks h' aid = Some (b\<lparr>bk_pins := p\<rparr>)"
proof -
  have "b = b\<lparr>bk_pins := bk_pins b\<rparr>" by simp
  then have same: "\<exists>p. b = b\<lparr>bk_pins := p\<rparr>" by (rule exI)
  show ?thesis using assms by (cases rule: heap_step.cases) (auto intro: same simp: loose_def)
qed

end
