(* ===== verification/Gms_Governor_Props.thy ===== *)
theory Gms_Governor_Props
  imports Gms_Governor_Heap
begin

text \<open>
  The properties of the governor over its reachable states, with a small concrete governor for the
  witnesses.
\<close>

section \<open>A governor for the witnesses\<close>

definition demo_backend :: IBackend where
  "demo_backend = HostBackend (\<lambda>bytes alignment. 0x10000)"

definition demo_req :: "u64 \<Rightarrow> u64 \<Rightarrow> Reclaimability \<Rightarrow> AllocationRequest" where
  "demo_req b al rc = AllocationRequest_default\<lparr>req_bytes := b, req_alignment := al, req_reclaimability := rc,
     req_worker_boot := TypedGeneration 7\<rparr>"

definition demo_start :: MemoryGovernor where
  "demo_start = gov_exec (MemoryGovernor_new (demo_domain\<lparr>dom_current_committed := 0, dom_current_resident := 0\<rparr>) (Some demo_backend)) Initialize"

text \<open>Three allocations of 128, 256 and 64 bytes; the middle one is released again.\<close>

definition demo_gov :: MemoryGovernor where
  "demo_gov = foldl gov_exec demo_start
     [Request (demo_req 100 64 Reclaimability.BEST_EFFORT), Request (demo_req 256 64 Reclaimability.RECLAIM_IF_COLD),
      Request (demo_req 64 64 Reclaimability.BEST_EFFORT), Release (TypedId 2) (TypedGeneration 1)]"

lemma demo_start_reach: "gov_reach demo_start"
  unfolding demo_start_def by (intro gov_reach.intros) (simp add: call_ok_def)

lemma demo_gov_reach: "gov_reach demo_gov"
proof -
  let ?c = "\<lambda>g. g_next_alloc_id g"
  have "?c demo_start \<noteq> - 1" "?c (gov_exec demo_start (Request (demo_req 100 64 Reclaimability.BEST_EFFORT))) \<noteq> - 1"
    "?c (gov_exec (gov_exec demo_start (Request (demo_req 100 64 Reclaimability.BEST_EFFORT)))
       (Request (demo_req 256 64 Reclaimability.RECLAIM_IF_COLD))) \<noteq> - 1"
    by code_simp+
  then show ?thesis unfolding demo_gov_def foldl.simps
    by (intro gov_reach.call demo_start_reach) (simp_all add: call_ok_def)
qed

section \<open>Properties\<close>



text \<open>
  C17. The governor implements the abstract heap, call by call: from every reachable state, every call is a step of the
  specification labelled with that call and with whether it was accepted.  So a refused call or a query changes no block; an accepted
  request adds one block of the rounded size in bytes no other block has; an accepted release takes out exactly the block it names
  and an accepted relocation moves exactly the block it names to the named place with a new generation, both only with the right
  generation and when it is not pinned; \<open>pin\<close> and \<open>unpin\<close> change one block's pins; only \<open>restore\<close> and a \<open>load\<close> that succeeds start over.
\<close>

theorem gov_refines_heap:
  assumes "gov_reach g" "call_ok g c"
  shows "heap_step c (accepted g c) (gov_heap g) (gov_heap (gov_exec g c))"
  using reach_gov_inv [OF assms(1)] assms(2) by (rule exec_refines)

theorem gov_refines_heap_witness:
  "heap_step (Release (TypedId 1) (TypedGeneration 1)) True (gov_heap demo_gov)
    (gov_heap (gov_exec demo_gov (Release (TypedId 1) (TypedGeneration 1))))"
proof -
  have "accepted demo_gov (Release (TypedId 1) (TypedGeneration 1))" by code_simp
  then show ?thesis using gov_refines_heap [OF demo_gov_reach, of "Release (TypedId 1) (TypedGeneration 1)"] by (simp add: call_ok_def)
qed

text \<open>
  C18. Memory safety of the governed allocations: each record of a reachable governor lies inside the managed
  capacity, is not empty, starts at a multiple of its alignment, and shares no byte with another record.
\<close>

theorem gov_memory_safe:
  assumes "gov_reach g" "recs g aid = Some rec"
  shows "unat (rec_offset rec) + unat (rec_region_size rec) \<le> unat (managed g) \<and> 0 < unat (rec_region_size rec) \<and>
    rec_offset rec mod rec_alignment rec = 0 \<and>
    (\<forall>other q. other \<noteq> aid \<longrightarrow> recs g other = Some q \<longrightarrow> disjoint_recs rec q)"
  using rec_bounds [OF reach_gov_inv [OF assms(1)] assms(2)] recs_disjoint [OF reach_gov_inv [OF assms(1)] assms(2)] by auto

theorem gov_memory_safe_witness:
  "disjoint_recs (the (recs demo_gov (TypedId 1))) (the (recs demo_gov (TypedId 3)))"
proof -
  have "recs demo_gov (TypedId 1) = Some (the (recs demo_gov (TypedId 1)))"
    "recs demo_gov (TypedId 3) = Some (the (recs demo_gov (TypedId 3)))" by code_simp+
  moreover have "TypedId 3 \<noteq> (TypedId 1 :: AllocationId)" by simp
  ultimately show ?thesis using gov_memory_safe [OF demo_gov_reach] by blast
qed

text \<open>
  C19. \<open>request\<close>, completely: an invalid request or one before initialisation changes nothing; a request the arena has no
  room for only uses up an identity; otherwise exactly one record is added, under an identity that was not in
  use, with the requested size rounded up to the alignment, and the handle that is returned is current.
\<close>

theorem gov_request_correct:
  assumes "gov_reach g" "g_next_alloc_id g \<noteq> - 1"
  shows "case request_error g req of
      Some e \<Rightarrow> gov_request g req = (g, Err e)
    | None \<Rightarrow> (case alloc_reject (g_arena g) (the_request g req) of
        Some why \<Rightarrow> \<exists>msg. gov_request g req = (g\<lparr>g_next_alloc_id := g_next_alloc_id g + 1\<rparr>, Err (Failure why msg))
      | None \<Rightarrow> \<exists>g' h rec. gov_request g req = (g', Ok h) \<and> recs g (ah_id h) = None \<and> recs g' = (recs g)(ah_id h \<mapsto> rec) \<and>
          gov_get g' (ah_id h) (ah_generation h) = Ok rec \<and>
          rec_offset rec = ah_offset h \<and> rec_region_size rec = ah_size h \<and> rec_requested_bytes rec = req_bytes req \<and>
          unat (ah_size h) = round_up (unat (req_bytes req)) (unat (req_alignment req)) \<and>
          unat (req_alignment req) dvd unat (ah_offset h))"
  using reach_gov_inv [OF assms(1)] assms(2)
proof (cases rule: request_cases [of g req])
  case (ok g' r aid rec)
  let ?h = "\<lparr>ah_id = aid, ah_generation = gen_first, ah_offset = ri_offset r, ah_size = ri_size r, ah_alignment = req_alignment req\<rparr>"
  have rec: "recs g' aid = Some rec" using ok(9) by simp
  from ok(8) rec have ar: "arena_inv (g_arena g')" by (rule gov_live)
  have f: "rec_offset rec = ri_offset r" "rec_region_size rec = ri_size r" "rec_requested_bytes rec = req_bytes req"
    "rec_generation rec = gen_first" "rec_alignment rec = req_alignment req" by (simp_all add: ok(5) request_record_def)
  have "gov_get g' aid gen_first = Ok rec"
    using rec f(4) get_effect(1) [OF ar, of aid gen_first r] ok(6,10) by (simp add: gov_get_def rec_matches_def)
  moreover have "unat (req_alignment req) dvd unat (ri_offset r)"
    using rec_bounds(3) [OF ok(8) rec] by (simp add: f word_mod_eq_0_iff)
  ultimately have "gov_request g req = (g', Ok ?h) \<and> recs g (ah_id ?h) = None \<and> recs g' = (recs g)(ah_id ?h \<mapsto> rec) \<and>
          gov_get g' (ah_id ?h) (ah_generation ?h) = Ok rec \<and>
          rec_offset rec = ah_offset ?h \<and> rec_region_size rec = ah_size ?h \<and> rec_requested_bytes rec = req_bytes req \<and>
          unat (ah_size ?h) = round_up (unat (req_bytes req)) (unat (req_alignment req)) \<and>
          unat (req_alignment req) dvd unat (ah_offset ?h)"
    using ok f by simp
  then show ?thesis using ok(1,2) by (auto simp only: option.case)
qed simp_all

theorem gov_request_correct_witness:
  "\<exists>g' h. gov_request demo_gov (demo_req 200 128 Reclaimability.BEST_EFFORT) = (g', Ok h) \<and> unat (128 :: u64) dvd unat (ah_offset h)"
proof -
  have n: "g_next_alloc_id demo_gov \<noteq> - 1" by code_simp
  have ok: "has_value (snd (gov_request demo_gov (demo_req 200 128 Reclaimability.BEST_EFFORT)))" by code_simp
  have al: "req_alignment (demo_req 200 128 Reclaimability.BEST_EFFORT) = 128" by (simp add: demo_req_def)
  show ?thesis
    using gov_request_correct [OF demo_gov_reach n, of "demo_req 200 128 Reclaimability.BEST_EFFORT"] ok
    unfolding al by (auto split: option.splits)
qed

text \<open>
  C20. \<open>release\<close>, completely: the call is decided by \<open>release_error\<close>.  A refused call changes nothing; an accepted one moves exactly
  that record to the retired ones, as RELEASED and NONRESIDENT, and gives its bytes back to the arena.
\<close>

theorem gov_release_correct:
  assumes "gov_reach g"
  shows "case release_error g aid gen wb sb of
      Some why \<Rightarrow> \<exists>msg. release_for_worker g aid gen wb sb = (g, Err (Failure why msg))
    | None \<Rightarrow> \<exists>g' rec. recs g aid = Some rec \<and> release_for_worker g aid gen wb sb = (g', Ok (released rec)) \<and>
        recs g' = (recs g)(aid := None) \<and> om_find (g_retired g') = (om_find (g_retired g))(aid \<mapsto> released rec) \<and>
        unat (free_bytes (g_arena g')) = unat (free_bytes (g_arena g)) + unat (rec_region_size rec)"
  using reach_gov_inv [OF assms]
proof (cases rule: release_cases [of g aid gen wb sb])
  case (rejected why msg)
  then show ?thesis by (simp add: release_for_worker_def)
next
  case (ok g' rec)
  have inv: "gov_inv g" by (rule reach_gov_inv [OF assms])
  from inv ok(2) have a: "arena_inv (g_arena g)" "ra_capacity (g_arena g) = managed g" "managed g \<noteq> 0" by (auto elim: gov_live)
  have "managed g' = managed g" by (subst ok(9)) simp
  then have a': "arena_inv (g_arena g')" "ra_capacity (g_arena g') = ra_capacity (g_arena g)"
    using ok(6) a by (simp_all add: gov_inv_def arena_ok_def)
  have "unat (free_bytes (g_arena g')) = unat (free_bytes (g_arena g)) + unat (rec_region_size rec)"
    using live_bytes_le [OF a(1)] live_bytes_le [OF a'(1)] a'(2) ok(10) by (simp add: free_bytes_def unat_sub_le)
  then show ?thesis using ok by (auto simp: release_for_worker_def)
qed

theorem gov_release_correct_witness:
  "\<exists>g' rec. gov_release demo_gov (TypedId 1) (TypedGeneration 1) = (g', Ok rec) \<and> recs g' (TypedId 1) = None"
proof -
  have "release_error demo_gov (TypedId 1) (TypedGeneration 1) (TypedGeneration 0) (TypedGeneration 0) = None" by code_simp
  with gov_release_correct [OF demo_gov_reach, of "TypedId 1" "TypedGeneration 1" "TypedGeneration 0" "TypedGeneration 0"]
  show ?thesis by (auto simp: gov_release_def release_for_worker_def)
qed

lemma gov_get_stale:
  "recs g aid = None \<Longrightarrow> \<exists>msg. gov_get g aid gen = Err (Failure RejectReason.STALE_GENERATION msg)"
  by (simp add: gov_get_def)

text \<open>
  C21. A released handle is dead: after a successful release, releasing it again is a DOUBLE_FREE, and \<open>pin\<close>, \<open>unpin\<close>,
  \<open>apply_relocation\<close> and \<open>get\<close> report a stale generation; none of them changes the state.
\<close>

theorem gov_double_free:
  assumes "gov_reach g" "release_for_worker g aid gen wb sb = (g', Ok rec)"
  shows "(\<exists>msg. release_for_worker g' aid gen wb' sb' = (g', Err (Failure RejectReason.DOUBLE_FREE msg))) \<and>
    (\<exists>msg. gov_pin g' aid gen = (g', Err (Failure RejectReason.STALE_GENERATION msg))) \<and>
    (\<exists>msg. gov_unpin g' aid gen = (g', Err (Failure RejectReason.STALE_GENERATION msg))) \<and>
    (\<exists>msg. apply_relocation g' aid gen n sz = (g', Err (Failure RejectReason.STALE_GENERATION msg))) \<and>
    (\<exists>msg. gov_get g' aid gen = Err (Failure RejectReason.STALE_GENERATION msg))"
  using reach_gov_inv [OF assms(1)]
proof (cases rule: release_cases [of g aid gen wb sb])
  case (rejected why msg)
  then show ?thesis using assms(2) by (simp add: release_for_worker_def)
next
  case (ok g1 rec1)
  then have g1: "g1 = g'" using assms(2) by (simp add: release_for_worker_def)
  have none: "recs g' aid = None" using ok(7) g1 by simp
  have inv: "gov_inv g'" using ok(6) g1 by simp
  have ret: "om_find (g_retired g') aid = Some (released rec1)" using ok(8) g1 by simp
  have "release_for_worker g' aid gen wb' sb' = (g', Err (Failure RejectReason.DOUBLE_FREE ''double free of released allocation''))"
    using none ret ok(3) by (simp add: release_for_worker_def release_locked_def released_def)
  then show ?thesis
    using gpin.stale [OF inv, of aid gen] gunpin.stale [OF inv, of aid gen] gmove.stale [OF inv, of aid gen n sz]
      gov_get_stale [of g' aid gen] none by simp
qed

theorem gov_double_free_witness:
  "\<exists>msg. release_for_worker (fst (gov_release demo_gov (TypedId 1) (TypedGeneration 1))) (TypedId 1) (TypedGeneration 1)
     (TypedGeneration 0) (TypedGeneration 0) = (fst (gov_release demo_gov (TypedId 1) (TypedGeneration 1)), Err (Failure RejectReason.DOUBLE_FREE msg))"
proof -
  have "has_value (snd (gov_release demo_gov (TypedId 1) (TypedGeneration 1)))" by code_simp
  then obtain rec where "release_for_worker demo_gov (TypedId 1) (TypedGeneration 1) (TypedGeneration 0) (TypedGeneration 0) =
      (fst (gov_release demo_gov (TypedId 1) (TypedGeneration 1)), Ok rec)"
    by (cases "gov_release demo_gov (TypedId 1) (TypedGeneration 1)")
      (auto simp: gov_release_def release_for_worker_def has_value_def split: result.splits)
  from gov_double_free [OF demo_gov_reach this, of "TypedGeneration 0" "TypedGeneration 0" 0 0] show ?thesis by blast
qed

text \<open>
  Stale authority is refused: a release that carries a worker boot or a source boot other than the one the
  record was allocated under never succeeds and never changes anything.
\<close>

lemma stale_authority_refused:
  assumes "gov_reach g" "recs g aid = Some rec"
    "is_set wb \<and> wb \<noteq> rec_worker_boot rec \<or> is_set sb \<and> sb \<noteq> rec_source_boot rec"
  shows "fst (release_for_worker g aid gen wb sb) = g \<and> \<not> has_value (snd (release_for_worker g aid gen wb sb))"
proof -
  have "release_error g aid gen wb sb \<noteq> None" using assms(2,3) by (simp add: release_error_def)
  with reach_gov_inv [OF assms(1)] show ?thesis
    by (cases rule: release_cases [of g aid gen wb sb]) (simp_all add: release_for_worker_def)
qed

lemma block_same: "block_of rec' = (block_of rec)\<lparr>bk_pins := p\<rparr> \<Longrightarrow>
   rec_generation rec' = rec_generation rec \<and> rec_offset rec' = rec_offset rec \<and> rec_region_size rec' = rec_region_size rec"
  by (simp add: block_of_def u64_eq_iff)

text \<open>
  C22. Pinned bytes stay where they are: as long as an allocation is pinned, no call other than a recovery (\<open>restore\<close>,
  \<open>load\<close>) removes it or changes its generation, its offset or its size.
\<close>

theorem pinned_stays:
  assumes "gov_reach g" "call_ok g c" "\<forall>s path fs. c \<noteq> Restore s \<and> c \<noteq> Load path fs"
    "recs g aid = Some rec" "rec_pin_count rec \<noteq> 0"
  shows "\<exists>rec'. recs (gov_exec g c) aid = Some rec' \<and> rec_generation rec' = rec_generation rec \<and>
     rec_offset rec' = rec_offset rec \<and> rec_region_size rec' = rec_region_size rec"
proof -
  have inv: "gov_inv g" by (rule reach_gov_inv [OF assms(1)])
  have "hp_blocks (gov_heap g) aid = Some (block_of rec)" "bk_pins (block_of rec) \<noteq> 0"
    using assms(4,5) by (simp_all add: gov_heap_def block_of_def)
  from heap_pinned [OF exec_refines [OF inv assms(2)] this assms(3)] obtain p rec' where
    rec': "recs (gov_exec g c) aid = Some rec'" and "block_of rec' = (block_of rec)\<lparr>bk_pins := p\<rparr>"
    by (auto simp: gov_heap_def)
  from block_same [OF this(2)] rec' show ?thesis by simp
qed

theorem pinned_stays_witness:
  "\<exists>rec'. recs (gov_exec (gov_exec demo_gov (Pin (TypedId 1) (TypedGeneration 1))) (Release (TypedId 1) (TypedGeneration 1))) (TypedId 1) = Some rec'"
proof -
  let ?g = "gov_exec demo_gov (Pin (TypedId 1) (TypedGeneration 1))"
  have "gov_reach ?g" by (intro gov_reach.call demo_gov_reach) (simp add: call_ok_def)
  moreover have "recs ?g (TypedId 1) = Some (the (recs ?g (TypedId 1)))" "rec_pin_count (the (recs ?g (TypedId 1))) \<noteq> 0" by code_simp+
  ultimately show ?thesis
    using pinned_stays [of ?g "Release (TypedId 1) (TypedGeneration 1)" "TypedId 1" "the (recs ?g (TypedId 1))"] by (auto simp: call_ok_def)
qed

end
