(* ===== verification/Gms_Governor_Plan.thy ===== *)
theory Gms_Governor_Plan
  imports Gms_Governor_Props
begin

text \<open>
  Reclaim candidates and the compaction planner: the order and the safety of the candidates, what a
  planned step promises, when a plan exists, and what applying a step does.
\<close>

section \<open>Reclaim candidates\<close>

definition cand_key :: "Cand \<Rightarrow> int \<times> int \<times> AllocationId" where
  "cand_key c = (cand_pri c, - uint (cand_size c), cand_id c)"

lemma cand_less_key: "cand_less a b \<longleftrightarrow> cand_key a < cand_key b"
  by (auto simp: cand_less_def cand_key_def less_prod_def word_less_def less_TypedId_def word_uint_eq_iff)

lemma stable_sort_key: "map cand_key (stable_sort cand_less cs) = sort (map cand_key cs)"
proof (rule properties_for_sort [symmetric])
  have "sorted_wrt (\<lambda>a b. \<not> cand_less b a) (stable_sort cand_less cs)"
    by (rule sorted_stable_sort) (auto simp: cand_less_key not_less)
  then show "sorted (map cand_key (stable_sort cand_less cs))"
    by (simp add: sorted_map cand_less_key not_less)
qed simp

text \<open>
  The reference order: candidates by priority class, then larger regions first, then by identity.
\<close>

definition reclaim_order :: "MemoryGovernor \<Rightarrow> AllocationId list" where
  "reclaim_order g = map (\<lambda>k. snd (snd k)) (sort (map (\<lambda>rec.
     (reclaimability_priority (rec_reclaimability rec), - uint (rec_region_size rec), rec_id rec))
     (filter is_candidate (gov_allocations g))))"

text \<open>
  C24. The reclaim candidates are the prefix of length \<open>max\<close> of the reference order: least valuable priority
  class first, larger regions first within a class, and identities break ties, so the answer is unique.
\<close>

theorem reclaim_order_correct: "reclaim_candidates g mx = take (unat mx) (reclaim_order g)"
proof -
  have "map cand_id cs = map (\<lambda>k. snd (snd k)) (map cand_key cs)" for cs by (simp add: cand_key_def)
  then have "map cand_id (stable_sort cand_less (map candidate_of rs)) = map (\<lambda>k. snd (snd k)) (sort (map cand_key (map candidate_of rs)))" for rs
    by (simp only: stable_sort_key)
  moreover have "map cand_key (map candidate_of rs) = map (\<lambda>rec.
     (reclaimability_priority (rec_reclaimability rec), - uint (rec_region_size rec), rec_id rec)) rs" for rs
    by (simp add: cand_key_def candidate_of_def)
  ultimately show ?thesis
    by (simp only: reclaim_candidates_def reclaim_order_def gov_allocations_def Let_def take_map [symmetric])
qed

lemma candidate_rec:
  assumes "aid \<in> set (reclaim_candidates g mx)"
  obtains i rec where "(i, rec) \<in> set (g_records g)" "is_candidate rec" "rec_id rec = aid"
proof -
  have "aid \<in> cand_id ` set (stable_sort cand_less (map candidate_of (filter is_candidate (map snd (g_records g)))))"
    using assms by (auto simp: reclaim_candidates_def Let_def simp del: set_stable_sort dest!: in_set_takeD)
  then show thesis using that by (auto simp: candidate_of_def)
qed

text \<open>
  C25. Reclaiming is safe and does free memory: every candidate is a live allocation that is not pinned, not active and not
  marked NEVER_RECLAIM or UNKNOWN, has a backing reference if its class needs one, and releasing it succeeds.
\<close>

theorem reclaim_candidates_safe:
  assumes "gov_reach g" "aid \<in> set (reclaim_candidates g mx)"
  shows "\<exists>rec g'. recs g aid = Some rec \<and> rec_pin_count rec = 0 \<and> rec_residency rec \<noteq> ResidencyState.ACTIVE \<and>
    rec_reclaimability rec \<noteq> Reclaimability.NEVER_RECLAIM \<and> rec_reclaimability rec \<noteq> Reclaimability.UNKNOWN \<and>
    (reclaimability_requires_backing (rec_reclaimability rec) \<longrightarrow> rec_recoverable rec \<or> rec_backing_ref rec \<noteq> []) \<and>
    gov_release g aid (rec_generation rec) = (g', Ok (released rec)) \<and> recs g' = (recs g)(aid := None)"
proof -
  have inv: "gov_inv g" by (rule reach_gov_inv [OF assms(1)])
  from assms(2) obtain i rec where rec: "(i, rec) \<in> set (g_records g)" "is_candidate rec" "rec_id rec = aid" by (rule candidate_rec)
  have "recs g i = Some rec" using inv rec(1) by (simp add: gov_inv_def om_find_iff)
  moreover from this inv rec(3) have "i = aid" by (auto elim: gov_live)
  ultimately have r: "recs g aid = Some rec" by simp
  have c: "rec_pin_count rec = 0" "\<not> reclaim_never rec" "\<not> reclaim_active rec"
    "reclaimability_requires_backing (rec_reclaimability rec) \<longrightarrow> rec_recoverable rec \<or> rec_backing_ref rec \<noteq> []"
    using rec(2) by (auto simp: is_candidate_def reclaim_pinned_def)
  have none: "release_error g aid (rec_generation rec) (TypedGeneration 0) (TypedGeneration 0) = None"
    using r c(1) by (simp add: release_error_def is_set_def)
  from inv obtain g' where "gov_release g aid (rec_generation rec) = (g', Ok (released rec))" "recs g' = (recs g)(aid := None)"
    by (cases rule: release_cases [of g aid "rec_generation rec" "TypedGeneration 0" "TypedGeneration 0"])
      (use none r in \<open>auto simp: gov_release_def\<close>)
  then show ?thesis using r c by (auto simp: reclaim_never_def reclaim_active_def)
qed

theorem reclaim_candidates_safe_witness:
  "reclaim_candidates demo_gov 1 = [TypedId 1] \<and> recs demo_gov (TypedId 1) \<noteq> None"
proof -
  have c: "reclaim_candidates demo_gov 1 = [TypedId 1]" by code_simp
  then have "TypedId 1 \<in> set (reclaim_candidates demo_gov 1)" by simp
  from reclaim_candidates_safe [OF demo_gov_reach this] c show ?thesis by auto
qed

section \<open>Compaction\<close>

lemma foldl_invariant:
  assumes "P s" "\<And>s x. x \<in> set xs \<Longrightarrow> P s \<Longrightarrow> P (f s x)"
  shows "P (foldl f s xs)"
  using assms by (induction xs arbitrary: s) simp_all

definition step_from :: "RegionInfo \<Rightarrow> RegionInfo \<Rightarrow> CompactionStep \<Rightarrow> bool" where
  "step_from m f st \<longleftrightarrow>
    (let nf = detail_align_up (ri_offset f) (ri_alignment m); front = (if nf \<ge> ri_offset f then nf - ri_offset f else 0) in
     st = \<lparr>cs_id = ri_alloc_id m, cs_generation = ri_alloc_generation m, cs_old_offset = ri_offset m, cs_old_size = ri_size m,
           cs_new_offset = nf, cs_new_size = ri_size m, cs_movability = Movability.MOVABLE\<rparr> \<and>
     front \<le> ri_size f \<and> ri_size m \<le> ri_size f - front)"

definition plan_ok :: "RegionInfo list \<Rightarrow> RegionInfo list \<Rightarrow> CompactionPlan \<times> double \<Rightarrow> bool" where
  "plan_ok live free st \<longleftrightarrow> length (cp_steps (fst st)) \<le> 1 \<and>
     (\<forall>s\<in>set (cp_steps (fst st)). \<exists>m\<in>set live. \<exists>f\<in>set free. may_move m \<and> step_from m f s)"

lemma consider_cases:
  "consider_target nb m st f = st \<or> (\<exists>s. cp_steps (fst (consider_target nb m st f)) = [s] \<and> step_from m f s)"
proof -
  obtain lft rgt where nb: "nb = (lft, rgt)" by (cases nb)
  obtain plan gain where st: "st = (plan, gain)" by (cases st)
  let ?nf = "detail_align_up (ri_offset f) (ri_alignment m)"
  let ?front = "if ?nf \<ge> ri_offset f then ?nf - ri_offset f else 0"
  have "consider_target nb m st f = st" if "?front > ri_size f \<or> ri_size m > ri_size f - ?front"
    unfolding consider_target_def nb st Let_def prod.case using that by simp
  moreover have "consider_target nb m st f = st \<or> (\<exists>s. cp_steps (fst (consider_target nb m st f)) = [s] \<and> step_from m f s)"
    if ok: "\<not> (?front > ri_size f \<or> ri_size m > ri_size f - ?front)"
  proof -
    let ?s = "\<lparr>cs_id = ri_alloc_id m, cs_generation = ri_alloc_generation m, cs_old_offset = ri_offset m, cs_old_size = ri_size m,
           cs_new_offset = ?nf, cs_new_size = ri_size m, cs_movability = Movability.MOVABLE\<rparr>"
    have "step_from m f ?s" unfolding step_from_def Let_def using ok by (simp only: not_less de_Morgan_disj)
    moreover have "consider_target nb m st f = st \<or> cp_steps (fst (consider_target nb m st f)) = [?s]"
      unfolding consider_target_def nb st Let_def prod.case using ok by (simp only: if_False) (simp split: if_split)
    ultimately show ?thesis by blast
  qed
  ultimately show ?thesis by blast
qed

lemma consider_ok:
  assumes "plan_ok live free st" "m \<in> set live" "may_move m" "f \<in> set free"
  shows "plan_ok live free (consider_target nb m st f)"
  using consider_cases [of nb m st f]
proof (elim disjE exE conjE)
  assume "consider_target nb m st f = st"
  then show ?thesis using assms(1) by simp
next
  fix s assume "cp_steps (fst (consider_target nb m st f)) = [s]" "step_from m f s"
  then show ?thesis using assms(2-4) by (auto simp: plan_ok_def)
qed

lemma plan_loop_ok: "plan_ok live free (plan_loop live free (plan\<lparr>cp_steps := []\<rparr>))"
  unfolding plan_loop_def
proof (rule foldl_invariant)
  show "plan_ok live free (plan\<lparr>cp_steps := []\<rparr>, d_neg (d_lit 1 1))" by (simp add: plan_ok_def)
  fix st m assume m: "m \<in> set live" and st: "plan_ok live free st"
  show "plan_ok live free (if may_move m then foldl (consider_target (free_neighbours m free) m) st free else st)"
    using st m by (auto intro!: foldl_invariant [where P = "plan_ok live free"] consider_ok)
qed

lemma snapshot_entry:
  assumes "arena_inv ra"
  shows "r \<in> set (snapshot_live ra) \<longleftrightarrow> (ri_offset r, r) \<in> regs ra \<and> ri_live r"
    "r \<in> set (snapshot_free ra) \<longleftrightarrow> (ri_offset r, r) \<in> regs ra \<and> \<not> ri_live r"
proof -
  have "r \<in> snd ` set (ra_regions ra) \<longleftrightarrow> (ri_offset r, r) \<in> regs ra"
    using layout_offset [OF arena_layout [OF assms]] unfolding regs_def by force
  then show "r \<in> set (snapshot_live ra) \<longleftrightarrow> (ri_offset r, r) \<in> regs ra \<and> ri_live r"
    "r \<in> set (snapshot_free ra) \<longleftrightarrow> (ri_offset r, r) \<in> regs ra \<and> \<not> ri_live r"
    by (auto simp: snapshot_live_def snapshot_free_def)
qed

text \<open>The target of a step lies inside the free region it was found in.\<close>

lemma step_target:
  assumes al: "is_pow2 (ri_alignment m)" and st: "step_from m f st"
    and cap: "unat (ri_offset f) + unat (ri_size f) \<le> 2 ^ 63" and alb: "unat (ri_alignment m) \<le> 2 ^ 63"
  shows "unat (ri_alignment m) dvd unat (cs_new_offset st)" "unat (ri_offset f) \<le> unat (cs_new_offset st)"
    "unat (cs_new_offset st) + unat (ri_size m) \<le> unat (ri_offset f) + unat (ri_size f)"
proof -
  let ?nf = "detail_align_up (ri_offset f) (ri_alignment m)"
  have pos: "0 < unat (ri_alignment m)" using al by (auto elim: is_pow2_cases)
  have "unat (ri_offset f) + (unat (ri_alignment m) - 1) < 2 ^ 64"
    using cap alb pos by simp
  then have nf: "unat ?nf = round_up (unat (ri_offset f)) (unat (ri_alignment m))"
    using detail_align_up_spec [OF al, of "ri_offset f"] by simp
  have ge: "unat (ri_offset f) \<le> unat ?nf" using nf round_up_ge [OF pos] by simp
  then have "ri_offset f \<le> ?nf" by (simp add: word_le_nat_alt)
  then have s: "cs_new_offset st = ?nf" "?nf - ri_offset f \<le> ri_size f" "ri_size m \<le> ri_size f - (?nf - ri_offset f)"
    using st by (auto simp: step_from_def Let_def)
  have "unat (?nf - ri_offset f) = unat ?nf - unat (ri_offset f)" using ge by (rule unat_sub_le)
  then have "unat (ri_size m) + (unat ?nf - unat (ri_offset f)) \<le> unat (ri_size f)"
    using s(2,3) by (simp add: word_le_nat_alt unat_sub_le)
  then show "unat (cs_new_offset st) + unat (ri_size m) \<le> unat (ri_offset f) + unat (ri_size f)" using s(1) ge by simp
  show "unat (ri_alignment m) dvd unat (cs_new_offset st)" using s(1) nf by simp
  show "unat (ri_offset f) \<le> unat (cs_new_offset st)" using s(1) ge by simp
qed

lemma pow2_bound: "is_pow2 a \<Longrightarrow> unat a \<le> 2 ^ 63"
proof -
  assume "is_pow2 a"
  then obtain n where "n < 64" "unat a = 2 ^ n" by (rule is_pow2_cases)
  then show ?thesis using power_increasing [of n 63 "2 :: nat"] by simp
qed

lemma plan_step_relocatable:
  assumes inv: "arena_inv ra" and m: "m \<in> set (snapshot_live ra)" and f: "f \<in> set (snapshot_free ra)" and st: "step_from m f st"
    and cap: "unat (ra_capacity ra) \<le> 2 ^ 63"
  shows "relocate_reject ra (ri_alloc_id m) (ri_alloc_generation m) (cs_new_offset st) (ri_size m) (ri_alignment m) = None"
proof -
  have me: "(ri_offset m, m) \<in> regs ra" "ri_live m" and fe: "(ri_offset f, f) \<in> regs ra" "\<not> ri_live f"
    using m f by (simp_all add: snapshot_entry [OF inv])
  have live: "arena_live ra (ri_alloc_id m) = Some m" using me by (simp add: arena_live_iff [OF inv])
  have al: "is_pow2 (ri_alignment m)" using inv me unfolding arena_inv_def aligned_ok_def live_entries_def by force
  have fc: "unat (ri_offset f) + unat (ri_size f) \<le> unat (ra_capacity ra)"
    using layout_end(1) [OF arena_layout [OF inv] subset_refl fe(1)] by simp
  note t = step_target [OF al st _ pow2_bound [OF al]]
  have "\<not> overlaps (unat (cs_new_offset st)) (unat (cs_new_offset st) + unat (ri_size m)) x" if "x \<in> live_entries (regs ra)" for x
  proof -
    have x: "x \<in> regs ra" "ri_live (snd x)" using that by (simp_all add: live_entries_def)
    then have "x \<noteq> (ri_offset f, f)" using fe(2) by auto
    from layout_sep [OF arena_layout [OF inv] x(1) fe(1) this] show ?thesis
      using t(2,3) fc cap by (auto simp: overlaps_def)
  qed
  moreover have "ri_size m \<noteq> 0" using arena_entry(4) [OF inv live] .
  ultimately show ?thesis using live al t fc cap by (auto simp: relocate_reject_def)
qed

lemma relocate_summary: "relocate_reject (ensure_summary ra) aid gen n sz al = relocate_reject ra aid gen n sz al"
  by (simp only: relocate_reject_def regs_def ensure_summary_frame arena_live_summary)

text \<open>
  C26. A compaction plan can be carried out: a plan has at most one step, it moves a movable, unpinned allocation
  by its current handle, and applying the step to the governor that made the plan succeeds and puts the
  allocation where the plan says.  (The capacity of a device is at most \<open>2^63\<close> bytes.)
\<close>

theorem plan_applicable:
  assumes "gov_reach g" "unat (managed g) \<le> 2 ^ 63" "plan_compaction g = (g1, plan)"
  shows "length (cp_steps plan) \<le> 1 \<and>
    (\<forall>st\<in>set (cp_steps plan). \<exists>g2 h rec. recs g (cs_id st) = Some rec \<and> rec_generation rec = cs_generation st \<and>
       rec_movability rec = Movability.MOVABLE \<and> rec_pin_count rec = 0 \<and> rec_offset rec = cs_old_offset st \<and>
       apply_relocation g1 (cs_id st) (cs_generation st) (cs_new_offset st) (cs_new_size st) = (g2, Ok h) \<and>
       ah_offset h = cs_new_offset st \<and> ah_size h = cs_old_size st)"
proof -
  have inv: "gov_inv g" by (rule reach_gov_inv [OF assms(1)])
  have c: "only_cache g1 g" using plan_cache [of g] assms(3) by simp
  then have inv1: "gov_inv g1" and r1: "recs g1 = recs g" and a1: "g_arena g1 = ensure_summary (g_arena g)"
    using cache_inv [OF c inv] by (auto simp: only_cache_def)
  obtain p0 where ok: "plan_ok (snapshot_live (g_arena g)) (snapshot_free (g_arena g))
      (plan_loop (snapshot_live (g_arena g)) (snapshot_free (g_arena g)) (p0\<lparr>cp_steps := []\<rparr>))"
    and steps: "cp_steps plan = cp_steps (fst (plan_loop (snapshot_live (g_arena g)) (snapshot_free (g_arena g)) (p0\<lparr>cp_steps := []\<rparr>)))"
  proof
    let ?l = "snd (largest_free_region (g_arena g))"
    let ?p = "\<lparr>cp_steps = [], cp_bytes_moved = 0, cp_largest_free_before = ?l, cp_largest_free_after = ?l, cp_rationale = []\<rparr>"
    show "cp_steps plan = cp_steps (fst (plan_loop (snapshot_live (g_arena g)) (snapshot_free (g_arena g)) (?p\<lparr>cp_steps := []\<rparr>)))"
      using assms(3) by (auto simp: plan_compaction_def Let_def split: prod.splits)
  qed (rule plan_loop_ok)
  have "\<exists>g2 h rec. recs g (cs_id st) = Some rec \<and> rec_generation rec = cs_generation st \<and>
       rec_movability rec = Movability.MOVABLE \<and> rec_pin_count rec = 0 \<and> rec_offset rec = cs_old_offset st \<and>
       apply_relocation g1 (cs_id st) (cs_generation st) (cs_new_offset st) (cs_new_size st) = (g2, Ok h) \<and>
       ah_offset h = cs_new_offset st \<and> ah_size h = cs_old_size st" if "st \<in> set (cp_steps plan)" for st
  proof -
    from ok steps that obtain m f where m: "m \<in> set (snapshot_live (g_arena g))" "may_move m"
      and f: "f \<in> set (snapshot_free (g_arena g))" and sf: "step_from m f st" by (auto simp: plan_ok_def)
    have "snapshot_live (g_arena g) \<noteq> []" using m(1) by auto
    then have ai: "arena_inv (g_arena g)" "ra_capacity (g_arena g) = managed g"
      using inv by (auto simp: gov_inv_def arena_ok_def split: if_splits)
    have s: "cs_id st = ri_alloc_id m" "cs_generation st = ri_alloc_generation m" "cs_new_size st = ri_size m"
      "cs_old_offset st = ri_offset m" "cs_old_size st = ri_size m" using sf by (simp_all add: step_from_def Let_def)
    have live: "arena_live (g_arena g) (cs_id st) = Some m"
      using m(1) s(1) by (simp add: arena_live_iff [OF ai(1)] snapshot_entry [OF ai(1)])
    then obtain rec where rec: "recs g (cs_id st) = Some rec" using gov_dead [OF inv, of "cs_id st"] by auto
    from inv rec have match: "rec_matches rec m" by (rule gov_live) (use live in simp)
    have mov: "ri_movability m = Movability.MOVABLE" "ri_pin_count m = 0" using m(2) by (auto simp: may_move_def)
    then have pc: "rec_pin_count rec = 0" using match by (auto simp: rec_matches_def)
    have none: "relocate_reject (g_arena g1) (cs_id st) (cs_generation st) (cs_new_offset st) (cs_new_size st) (rec_alignment rec) = None"
      using plan_step_relocatable [OF ai(1) m(1) f sf] assms(2) ai(2) match
      by (simp add: s a1 relocate_summary rec_matches_def)
    have rec1: "recs g1 (cs_id st) = Some rec" using rec r1 by simp
    from inv1 obtain g2 where "apply_relocation g1 (cs_id st) (cs_generation st) (cs_new_offset st) (cs_new_size st) =
        (g2, Ok \<lparr>ah_id = cs_id st, ah_generation = gen_next (cs_generation st), ah_offset = cs_new_offset st, ah_size = cs_new_size st,
           ah_alignment = rec_alignment rec\<rparr>)"
      by (cases rule: apply_cases [of g1 "cs_id st" "cs_generation st" "cs_new_offset st" "cs_new_size st"])
        (use rec1 match pc none s in \<open>auto simp: rec_matches_def\<close>)
    then show ?thesis using rec match mov pc s by (auto simp: rec_matches_def)
  qed
  then show ?thesis using ok steps by (simp add: plan_ok_def)
qed

text \<open>Whether the free region \<open>f\<close> can take the allocation \<open>m\<close>, as the planner sees it.\<close>

definition can_target :: "RegionInfo \<Rightarrow> RegionInfo \<Rightarrow> bool" where
  "can_target m f \<longleftrightarrow>
    (let nf = detail_align_up (ri_offset f) (ri_alignment m); front = (if nf \<ge> ri_offset f then nf - ri_offset f else 0) in
     ri_offset f + ri_size f \<noteq> ri_offset m \<and> ri_offset f \<noteq> ri_offset m + ri_size m \<and> ri_size m \<le> ri_size f \<and>
     front \<le> ri_size f \<and> ri_size m \<le> ri_size f - front)"

text \<open>As long as there is no step, the best gain is still the initial -1.\<close>

definition plan_fresh :: "CompactionPlan \<times> double \<Rightarrow> bool" where
  "plan_fresh st \<longleftrightarrow> (cp_steps (fst st) = [] \<longrightarrow> snd st = d_neg (d_lit 1 1))"

lemma consider_fresh: "plan_fresh st \<Longrightarrow> plan_fresh (consider_target nb m st f)"
  using consider_cases [of nb m st f] by (auto simp: plan_fresh_def)

lemma consider_keeps: "cp_steps (fst st) \<noteq> [] \<Longrightarrow> cp_steps (fst (consider_target nb m st f)) \<noteq> []"
  using consider_cases [of nb m st f] by auto

lemma consider_not: "\<not> can_target m f \<Longrightarrow> consider_target nb m st f = st"
proof -
  assume n: "\<not> can_target m f"
  obtain lft rgt where nb: "nb = (lft, rgt)" by (cases nb)
  obtain plan gain where st: "st = (plan, gain)" by (cases st)
  show ?thesis
    using n unfolding consider_target_def can_target_def nb st Let_def prod.case by (simp only: not_le de_Morgan_conj not_not) auto
qed

lemma consider_progress:
  assumes "can_target m f" "plan_fresh st"
  shows "cp_steps (fst (consider_target nb m st f)) \<noteq> []"
proof (cases "cp_steps (fst st) = []")
  case False
  then show ?thesis by (rule consider_keeps)
next
  case True
  obtain lft rgt where nb: "nb = (lft, rgt)" by (cases nb)
  obtain plan gain where st: "st = (plan, gain)" by (cases st)
  have gain: "gain = d_neg (d_lit 1 1)" using True assms(2) st by (simp add: plan_fresh_def)
  have up: "b \<le> (if c then max (max b x) y else max b x)" for b x y :: u64 and c
    by (auto intro: max.coboundedI1)
  have up2: "b \<le> (if c2 then max (if c then max (max b x) y else max b x) z else (if c then max (max b x) y else max b x))"
    for b x y z :: u64 and c c2 using up [of b c x y] by (auto intro: max.coboundedI1)
  show ?thesis
    using assms(1) d_sub_above [OF up2] unfolding consider_target_def can_target_def nb st gain Let_def prod.case
    by (simp only: not_le [symmetric] if_True if_False simp_thms) simp
qed

lemma foldl_keep:
  assumes "P s" "\<And>s x. P s \<Longrightarrow> P (f s x)" shows "P (foldl f s xs)"
  using assms by (induction xs arbitrary: s) simp_all

lemma foldl_reach:
  assumes "I s" "\<And>s x. I s \<Longrightarrow> I (f s x)" "x \<in> set xs" "\<And>s. I s \<Longrightarrow> P (f s x)" "\<And>s y. P s \<Longrightarrow> P (f s y)"
  shows "P (foldl f s xs)"
proof -
  obtain ys zs where xs: "xs = ys @ x # zs" using assms(3) by (meson split_list)
  have "I (foldl f s ys)" using assms(1,2) by (rule foldl_keep)
  then have "P (f (foldl f s ys) x)" by (rule assms(4))
  then have "P (foldl f (f (foldl f s ys) x) zs)" using assms(5) by (rule foldl_keep)
  then show ?thesis by (simp add: xs)
qed

lemma plan_loop_progress:
  assumes "m \<in> set live" "may_move m" "f \<in> set free" "can_target m f" "cp_steps plan = []"
  shows "cp_steps (fst (plan_loop live free plan)) \<noteq> []"
  unfolding plan_loop_def
proof (rule foldl_reach [where I = plan_fresh and x = m and P = "\<lambda>st. cp_steps (fst st) \<noteq> []"])
  show "plan_fresh (plan, d_neg (d_lit 1 1))" by (simp add: plan_fresh_def)
  show "plan_fresh (if may_move x then foldl (consider_target (free_neighbours x free) x) s free else s)" if "plan_fresh s" for s x
    using that by (auto intro: foldl_keep consider_fresh)
  show "cp_steps (fst (if may_move m then foldl (consider_target (free_neighbours m free) m) s free else s)) \<noteq> []" if "plan_fresh s" for s
  proof -
    have "cp_steps (fst (foldl (consider_target (free_neighbours m free) m) s free)) \<noteq> []"
      by (rule foldl_reach [where I = plan_fresh and x = f and P = "\<lambda>st. cp_steps (fst st) \<noteq> []"])
        (use that assms(3) in \<open>simp_all add: consider_fresh consider_progress [OF assms(4)] consider_keeps\<close>)
    then show ?thesis using assms(2) by simp
  qed
  show "cp_steps (fst (if may_move y then foldl (consider_target (free_neighbours y free) y) s free else s)) \<noteq> []"
    if "cp_steps (fst s) \<noteq> []" for s y
    using that foldl_keep [where P = "\<lambda>st. cp_steps (fst st) \<noteq> []" and f = "consider_target (free_neighbours y free) y", OF that consider_keeps]
    by simp
qed (rule assms(1))

lemma plan_loop_empty:
  assumes "\<And>m f. m \<in> set live \<Longrightarrow> may_move m \<Longrightarrow> f \<in> set free \<Longrightarrow> \<not> can_target m f"
  shows "fst (plan_loop live free plan) = plan"
proof -
  have "foldl (\<lambda>st m. if may_move m then foldl (consider_target (free_neighbours m free) m) st free else st) st live = st" for st
  proof (rule foldl_invariant [where P = "\<lambda>s. s = st"])
    fix s m assume "m \<in> set live" "s = st"
    then show "(if may_move m then foldl (consider_target (free_neighbours m free) m) s free else s) = st"
      using foldl_invariant [where P = "\<lambda>s. s = st" and f = "consider_target (free_neighbours m free) m" and xs = free and s = s]
        assms consider_not by auto
  qed simp
  then show ?thesis by (simp add: plan_loop_def)
qed

lemma plan_steps:
  "cp_steps (snd (plan_compaction g)) = cp_steps (fst (plan_loop (snapshot_live (g_arena g)) (snapshot_free (g_arena g))
     \<lparr>cp_steps = [], cp_bytes_moved = 0, cp_largest_free_before = snd (largest_free_region (g_arena g)),
      cp_largest_free_after = snd (largest_free_region (g_arena g)), cp_rationale = []\<rparr>))"
  by (simp add: plan_compaction_def Let_def split: prod.splits)

text \<open>
  C27. The planner finds a move whenever there is one: the plan has a step exactly when some movable, unpinned allocation
  that may be reclaimed fits, at its alignment, into a free region that is not adjacent to it.
\<close>

theorem plan_complete:
  "cp_steps (snd (plan_compaction g)) \<noteq> [] \<longleftrightarrow>
     (\<exists>m\<in>set (snapshot_live (g_arena g)). \<exists>f\<in>set (snapshot_free (g_arena g)). may_move m \<and> can_target m f)"
proof
  assume "cp_steps (snd (plan_compaction g)) \<noteq> []"
  then show "\<exists>m\<in>set (snapshot_live (g_arena g)). \<exists>f\<in>set (snapshot_free (g_arena g)). may_move m \<and> can_target m f"
  proof (rule contrapos_np)
    assume "\<not> (\<exists>m\<in>set (snapshot_live (g_arena g)). \<exists>f\<in>set (snapshot_free (g_arena g)). may_move m \<and> can_target m f)"
    then have "fst (plan_loop (snapshot_live (g_arena g)) (snapshot_free (g_arena g)) plan) = plan" for plan
      by (intro plan_loop_empty) blast
    then show "cp_steps (snd (plan_compaction g)) = []" by (simp add: plan_steps)
  qed
next
  assume "\<exists>m\<in>set (snapshot_live (g_arena g)). \<exists>f\<in>set (snapshot_free (g_arena g)). may_move m \<and> can_target m f"
  then obtain m f where "m \<in> set (snapshot_live (g_arena g))" "may_move m" "f \<in> set (snapshot_free (g_arena g))" "can_target m f" by blast
  from plan_loop_progress [OF this] show "cp_steps (snd (plan_compaction g)) \<noteq> []" unfolding plan_steps by simp
qed

lemma demo_plan: "cp_steps (snd (plan_compaction demo_gov)) \<noteq> []"
proof -
  have "list_ex (\<lambda>m. list_ex (\<lambda>f. may_move m \<and> can_target m f) (snapshot_free (g_arena demo_gov))) (snapshot_live (g_arena demo_gov))"
    by code_simp
  then obtain m f where "m \<in> set (snapshot_live (g_arena demo_gov))" "may_move m" "f \<in> set (snapshot_free (g_arena demo_gov))" "can_target m f"
    by (auto simp: list_ex_iff)
  from plan_loop_progress [OF this] show ?thesis unfolding plan_steps by simp
qed

theorem plan_applicable_witness:
  "\<exists>st g2 h. cp_steps (snd (plan_compaction demo_gov)) = [st] \<and>
     apply_relocation (fst (plan_compaction demo_gov)) (cs_id st) (cs_generation st) (cs_new_offset st) (cs_new_size st) = (g2, Ok h)"
proof -
  have "managed demo_gov = 1024" by code_simp
  then have "unat (managed demo_gov) \<le> 2 ^ 63" by simp
  from plan_applicable [OF demo_gov_reach this, of "fst (plan_compaction demo_gov)" "snd (plan_compaction demo_gov)"]
  have p: "length (cp_steps (snd (plan_compaction demo_gov))) \<le> 1"
    "\<And>st. st \<in> set (cp_steps (snd (plan_compaction demo_gov))) \<Longrightarrow> \<exists>g2 h.
      apply_relocation (fst (plan_compaction demo_gov)) (cs_id st) (cs_generation st) (cs_new_offset st) (cs_new_size st) = (g2, Ok h)"
    by auto
  obtain st rest where st: "cp_steps (snd (plan_compaction demo_gov)) = st # rest" using demo_plan by (meson neq_Nil_conv)
  with p(1) have "rest = []" by simp
  with p(2) [of st] st show ?thesis by auto
qed

text \<open>
  C28. \<open>apply_relocation\<close> moves exactly one allocation: on success the record has the new place, the next generation and
  the same identity, owner and alignment, every other record is unchanged, and the old handle is stale from then on.
\<close>

theorem apply_relocation_correct:
  assumes "gov_reach g" "apply_relocation g aid gen n sz = (g', Ok h)"
  shows "\<exists>rec rec'. recs g aid = Some rec \<and> rec_generation rec = gen \<and> rec_pin_count rec = 0 \<and> recs g' = (recs g)(aid \<mapsto> rec') \<and>
    rec_offset rec' = n \<and> rec_region_size rec' = sz \<and> rec_generation rec' = gen_next gen \<and> rec_owner rec' = rec_owner rec \<and>
    rec_alignment rec' = rec_alignment rec \<and> gov_get g' aid (gen_next gen) = Ok rec' \<and>
    (\<exists>msg. apply_relocation g' aid gen n2 sz2 = (g', Err (Failure RejectReason.STALE_GENERATION msg)))"
  using reach_gov_inv [OF assms(1)]
proof (cases rule: apply_cases [of g aid gen n sz])
  case (ok g1 rec r m)
  then have g1: "g1 = g'" using assms(2) by simp
  have inv: "gov_inv g'" and rec': "recs g' = (recs g)(aid \<mapsto> moved_rec m rec)" using ok(9,10) g1 by simp_all
  have f: "rec_generation (moved_rec m rec) = gen_next gen" "rec_offset (moved_rec m rec) = n" "rec_region_size (moved_rec m rec) = sz"
    "rec_owner (moved_rec m rec) = rec_owner rec" "rec_alignment (moved_rec m rec) = rec_alignment rec"
    by (simp_all add: moved_rec_def ok(7))
  have at: "recs g' aid = Some (moved_rec m rec)" using rec' by simp
  from inv at obtain q where q: "arena_inv (g_arena g')" "arena_live (g_arena g') aid = Some q" "rec_matches (moved_rec m rec) q" by (rule gov_live)
  have "gov_get g' aid (gen_next gen) = Ok (moved_rec m rec)"
    using at f(1) q(3) get_effect(1) [OF q(1), of aid "gen_next gen" q] q(2) by (simp add: gov_get_def rec_matches_def)
  moreover have "\<exists>msg. apply_relocation g' aid gen n2 sz2 = (g', Err (Failure RejectReason.STALE_GENERATION msg))"
    using at f(1) gen_next_neq [of gen] by (intro gmove.stale [OF inv]) auto
  ultimately show ?thesis using ok(1-3) rec' f by blast
qed (use assms(2) in simp_all)

theorem apply_relocation_correct_witness:
  "\<exists>rec'. recs (fst (apply_relocation demo_gov (TypedId 3) (TypedGeneration 1) 512 128)) (TypedId 3) = Some rec' \<and> rec_offset rec' = 512"
proof -
  have "has_value (snd (apply_relocation demo_gov (TypedId 3) (TypedGeneration 1) 512 128))" by code_simp
  then obtain h where "apply_relocation demo_gov (TypedId 3) (TypedGeneration 1) 512 128 =
      (fst (apply_relocation demo_gov (TypedId 3) (TypedGeneration 1) 512 128), Ok h)"
    by (cases "apply_relocation demo_gov (TypedId 3) (TypedGeneration 1) 512 128") (auto simp: has_value_def split: result.splits)
  from apply_relocation_correct [OF demo_gov_reach this, of 0 0] show ?thesis by auto
qed

end
