(* ===== verification/Gms_Protocol.thy ===== *)
theory Gms_Protocol
  imports Gms_Codec
begin

text \<open>
  The wire protocol (\<^verbatim>\<open>include/gpu_memory_service/protocol.hpp\<close>, \<^verbatim>\<open>src/protocol.cpp\<close>): messages, frames, their
  encoding and decoding; and the socket helpers of \<^verbatim>\<open>src/net.hpp\<close> over the Winsock calls.
\<close>

section \<open>Messages and frames (protocol.hpp)\<close>

definition protocol_kMagic :: u32 where
  "protocol_kMagic = 0x47534d50"

definition protocol_kVersion :: u32 where
  "protocol_kVersion = 1"

definition kMaxFrame :: u32 where
  "kMaxFrame = push_bit 20 1"

datatype Msg =
    HELLO
  | REGISTER
  | PUBLISH_CAPACITY
  | ALLOCATE
  | ALLOCATE_RESULT
  | RELEASE
  | RELEASE_RESULT
  | FENCE_WORKER
  | QUERY
  | QUERY_RESULT
  | SHUTDOWN
  | Unnamed u8

primrec Msg_code :: "Msg \<Rightarrow> u8" where
  "Msg_code HELLO = 1"
| "Msg_code REGISTER = 2"
| "Msg_code PUBLISH_CAPACITY = 3"
| "Msg_code ALLOCATE = 4"
| "Msg_code ALLOCATE_RESULT = 5"
| "Msg_code RELEASE = 6"
| "Msg_code RELEASE_RESULT = 7"
| "Msg_code FENCE_WORKER = 8"
| "Msg_code QUERY = 9"
| "Msg_code QUERY_RESULT = 10"
| "Msg_code SHUTDOWN = 11"
| "Msg_code (Unnamed b) = b"

definition Msg_of_code :: "u8 \<Rightarrow> Msg" where
  "Msg_of_code b =
    (if b = 1 then HELLO else if b = 2 then REGISTER else if b = 3 then PUBLISH_CAPACITY
     else if b = 4 then ALLOCATE else if b = 5 then ALLOCATE_RESULT else if b = 6 then RELEASE
     else if b = 7 then RELEASE_RESULT else if b = 8 then FENCE_WORKER else if b = 9 then QUERY
     else if b = 10 then QUERY_RESULT else if b = 11 then SHUTDOWN else Unnamed b)"

record Frame =
  fr_type :: Msg
  fr_payload :: "u8 list"

section \<open>Encoding and decoding (protocol.cpp)\<close>

definition pack_u8 :: "u8 \<Rightarrow> u8 list" where
  "pack_u8 v = append_u8 v"

definition pack_u32 :: "u32 \<Rightarrow> u8 list" where
  "pack_u32 v = append_u32 v"

definition pack_u64 :: "u64 \<Rightarrow> u8 list" where
  "pack_u64 v = append_u64 v"

definition pack_i32 :: "int \<Rightarrow> u8 list" where
  "pack_i32 v = append_i32 v"

definition pack_str :: "string \<Rightarrow> u8 list" where
  "pack_str s = append_str s"

text \<open>\<open>encode\<close>: the checksum covers the bytes after the magic.\<close>

definition encode_frame :: "Msg \<Rightarrow> u8 list \<Rightarrow> u8 list" where
  "encode_frame type payload =
    (let b = append_u32 protocol_kMagic @ append_u32 protocol_kVersion @ append_u8 (Msg_code type) @
             append_u32 (of_nat (length payload)) @ payload
     in b @ append_u32 (crc32 (drop 4 b)))"

text \<open>\<open>decode\<close>, with the number of bytes it consumed; \<open>None\<close> is \<open>false\<close>.\<close>

definition decode_frame :: "u8 list \<Rightarrow> (nat \<times> Frame) option" where
  "decode_frame buf =
    (if length buf < 4 + 4 + 1 + 4 + 4 then None
     else case take_u32 buf of
       Got magic b1 \<Rightarrow>
         if magic \<noteq> protocol_kMagic then None
         else (case take_u32 b1 of
           Got ver b2 \<Rightarrow>
             if ver \<noteq> protocol_kVersion then None
             else (case take_u8 b2 of
               Got t b3 \<Rightarrow>
                 (case take_u32 b3 of
                   Got len b4 \<Rightarrow>
                     if len > kMaxFrame then None
                     else if length b4 < unat len + 4 then None
                     else (let payload_start = length buf - length b4 in
                       case take_u32 (drop (unat len) b4) of
                         Got crcval rest \<Rightarrow>
                           if crcval \<noteq> crc32 (take ((payload_start + unat len) - 4) (drop 4 buf)) then None
                           else Some (length buf - length rest,
                                      \<lparr>fr_type = Msg_of_code t, fr_payload = take (unat len) (drop payload_start buf)\<rparr>)
                       | _ \<Rightarrow> None)
                 | _ \<Rightarrow> None)
             | _ \<Rightarrow> None)
         | _ \<Rightarrow> None)
     | _ \<Rightarrow> None)"

section \<open>Sockets (net.hpp)\<close>

text \<open>
  The Winsock calls the code makes, on the state \<open>'w\<close> of the operating system: what they do is a
  parameter.  \<open>send\<close> and \<open>recv\<close> get the length as the \<open>int\<close> the code casts it to; \<open>recv\<close> gives the
  bytes it stored, none when it returns 0 or an error.  \<open>ws_shutdown\<close> is \<open>shutdown\<close> with \<open>SD_BOTH\<close>,
  \<open>ws_poll\<close> gives the return value of \<open>WSAPoll\<close> and which sockets have one of the events the code tests.
\<close>

type_synonym SOCKET = u64

definition INVALID_SOCKET :: SOCKET where
  "INVALID_SOCKET = - 1"

record 'w winsock =
  ws_startup :: "'w \<Rightarrow> 'w \<times> int"
  ws_socket :: "'w \<Rightarrow> 'w \<times> SOCKET"
  ws_setsockopt :: "SOCKET \<Rightarrow> string \<Rightarrow> 'w \<Rightarrow> 'w"
  ws_bind :: "SOCKET \<Rightarrow> 16 word \<Rightarrow> 'w \<Rightarrow> 'w \<times> int"
  ws_listen :: "SOCKET \<Rightarrow> int \<Rightarrow> 'w \<Rightarrow> 'w \<times> int"
  ws_getsockname :: "SOCKET \<Rightarrow> 'w \<Rightarrow> 'w \<times> 16 word"
  ws_connect :: "SOCKET \<Rightarrow> 16 word \<Rightarrow> 'w \<Rightarrow> 'w \<times> int"
  ws_accept :: "SOCKET \<Rightarrow> 'w \<Rightarrow> 'w \<times> SOCKET"
  ws_poll :: "SOCKET list \<Rightarrow> 'w \<Rightarrow> 'w \<times> int \<times> bool list"
  ws_send :: "SOCKET \<Rightarrow> u8 list \<Rightarrow> int \<Rightarrow> 'w \<Rightarrow> 'w \<times> int"
  ws_recv :: "SOCKET \<Rightarrow> int \<Rightarrow> 'w \<Rightarrow> 'w \<times> u8 list"
  ws_shutdown :: "SOCKET \<Rightarrow> 'w \<Rightarrow> 'w"
  ws_closesocket :: "SOCKET \<Rightarrow> 'w \<Rightarrow> 'w"

definition net_init :: "'w winsock \<Rightarrow> 'w \<Rightarrow> 'w \<times> bool" where
  "net_init N w = (case ws_startup N w of (w', r) \<Rightarrow> (w', r = 0))"

text \<open>
  The loopback helpers; the address is always \<open>INADDR_LOOPBACK\<close>, the port is what \<open>htons\<close> is applied to.
  The text is what is stored through \<open>err\<close>, the number what is stored through \<open>bound_port\<close>.
\<close>

definition listen_loopback :: "'w winsock \<Rightarrow> int \<Rightarrow> 'w \<Rightarrow> 'w \<times> SOCKET \<times> int option \<times> string option" where
  "listen_loopback N port w =
    (let (w, s) = ws_socket N w in
     if s = INVALID_SOCKET then (w, INVALID_SOCKET, None, Some ''socket'')
     else
       let w = ws_setsockopt N s ''SO_REUSEADDR'' w;
           w = ws_setsockopt N s ''TCP_NODELAY'' w;
           (w, r) = ws_bind N s (of_int port) w in
       if r \<noteq> 0 then (ws_closesocket N s w, INVALID_SOCKET, None, Some ''bind'')
       else
         let (w, r) = ws_listen N s 8 w in
         if r \<noteq> 0 then (ws_closesocket N s w, INVALID_SOCKET, None, Some ''listen'')
         else let (w, p) = ws_getsockname N s w in (w, s, Some (uint p), None))"

definition connect_loopback :: "'w winsock \<Rightarrow> int \<Rightarrow> 'w \<Rightarrow> 'w \<times> SOCKET \<times> string option" where
  "connect_loopback N port w =
    (let (w, s) = ws_socket N w in
     if s = INVALID_SOCKET then (w, INVALID_SOCKET, Some ''socket'')
     else
       let (w, r) = ws_connect N s (of_int port) w in
       if r \<noteq> 0 then (ws_closesocket N s w, INVALID_SOCKET, Some ''connect'')
       else (ws_setsockopt N s ''TCP_NODELAY'' w, s, None))"

text \<open>\<open>static_cast<int>\<close> of a \<open>std::size_t\<close>.\<close>

definition size_int :: "nat \<Rightarrow> int" where
  "size_int n = sint (of_nat n :: u32)"

text \<open>The loops of \<open>send_exact\<close> and \<open>recv_exact\<close>; \<open>sent\<close> and the length of \<open>got\<close> are \<open>done\<close>.\<close>

function send_loop :: "'w winsock \<Rightarrow> SOCKET \<Rightarrow> u8 list \<Rightarrow> nat \<Rightarrow> 'w \<Rightarrow> 'w \<times> bool" where
  "send_loop N s data sent w =
    (if sent < length data then
       case ws_send N s (drop sent data) (size_int (length data - sent)) w of
         (w', r) \<Rightarrow> if r \<le> 0 then (w', False) else send_loop N s data (sent + nat r) w'
     else (w, True))"
  by pat_completeness auto
termination by (relation "measure (\<lambda>(N, s, data, sent, w). length data - sent)") auto

definition send_exact :: "'w winsock \<Rightarrow> SOCKET \<Rightarrow> u8 list \<Rightarrow> 'w \<Rightarrow> 'w \<times> bool" where
  "send_exact N s data w = send_loop N s data 0 w"

function recv_loop :: "'w winsock \<Rightarrow> SOCKET \<Rightarrow> nat \<Rightarrow> u8 list \<Rightarrow> 'w \<Rightarrow> 'w \<times> u8 list option" where
  "recv_loop N s n got w =
    (if length got < n then
       case ws_recv N s (size_int (n - length got)) w of
         (w', r) \<Rightarrow> if r = [] then (w', None) else recv_loop N s n (got @ r) w'
     else (w, Some got))"
  by pat_completeness auto
termination by (relation "measure (\<lambda>(N, s, n, got, w). n - length got)") (auto simp: neq_Nil_conv)

definition recv_exact :: "'w winsock \<Rightarrow> SOCKET \<Rightarrow> nat \<Rightarrow> 'w \<Rightarrow> 'w \<times> u8 list option" where
  "recv_exact N s n w = recv_loop N s n [] w"

declare send_loop.simps [simp del] recv_loop.simps [simp del]

definition send_frame :: "'w winsock \<Rightarrow> SOCKET \<Rightarrow> Msg \<Rightarrow> u8 list \<Rightarrow> 'w \<Rightarrow> 'w \<times> bool" where
  "send_frame N s type payload w = send_exact N s (encode_frame type payload) w"

text \<open>What the header of a frame says: its payload length, unless \<open>recv_frame\<close> rejects it.\<close>

definition header_length :: "u8 list \<Rightarrow> u32 option" where
  "header_length hb =
    (case take_u32 hb of
       Got magic b1 \<Rightarrow>
         if magic \<noteq> protocol_kMagic then None
         else (case take_u32 b1 of
           Got ver b2 \<Rightarrow>
             if ver \<noteq> protocol_kVersion then None
             else (case take_u8 b2 of
               Got t b3 \<Rightarrow>
                 (case take_u32 b3 of
                   Got len b4 \<Rightarrow> if len > kMaxFrame then None else Some len
                 | _ \<Rightarrow> None)
             | _ \<Rightarrow> None)
         | _ \<Rightarrow> None)
     | _ \<Rightarrow> None)"

definition recv_frame :: "'w winsock \<Rightarrow> SOCKET \<Rightarrow> 'w \<Rightarrow> 'w \<times> Frame option" where
  "recv_frame N s w =
    (case recv_exact N s 13 w of
       (w1, None) \<Rightarrow> (w1, None)
     | (w1, Some hb) \<Rightarrow>
        (case header_length hb of
           None \<Rightarrow> (w1, None)
         | Some len \<Rightarrow>
            (case recv_exact N s (unat len) w1 of
               (w2, None) \<Rightarrow> (w2, None)
             | (w2, Some body) \<Rightarrow>
                (case recv_exact N s 4 w2 of
                   (w3, None) \<Rightarrow> (w3, None)
                 | (w3, Some crcb) \<Rightarrow> (w3, map_option snd (decode_frame (hb @ body @ crcb)))))))"

definition shutdown_sock :: "'w winsock \<Rightarrow> SOCKET \<Rightarrow> 'w \<Rightarrow> 'w" where
  "shutdown_sock N s w = (if s \<noteq> INVALID_SOCKET then ws_closesocket N s (ws_shutdown N s w) else w)"

end
