(* ===== verification/Gms_Text.thy ===== *)
theory Gms_Text
  imports Gms_Prelude
begin

text \<open>
  The text conversions of the C library that the programs use on their arguments and output: \<open>strtoull\<close>,
  \<open>atoi\<close> and C strings, with the proof that a printed number is read back.
\<close>

text \<open>A C string ends at its first null character.\<close>

definition c_str :: "string \<Rightarrow> string" where
  "c_str s = takeWhile (\<lambda>c. c \<noteq> CHR 0x00) s"

definition is_space :: "char \<Rightarrow> bool" where
  "is_space c \<longleftrightarrow> c \<in> {CHR '' '', CHR 0x09, CHR 0x0A, CHR 0x0B, CHR 0x0C, CHR 0x0D}"

definition is_digit :: "char \<Rightarrow> bool" where
  "is_digit c \<longleftrightarrow> 48 \<le> (of_char c :: nat) \<and> (of_char c :: nat) \<le> 57"

definition digit_value :: "char \<Rightarrow> nat" where
  "digit_value c = of_char c - 48"

definition digits_value :: "string \<Rightarrow> nat" where
  "digits_value ds = foldl (\<lambda>n c. 10 * n + digit_value c) 0 ds"

text \<open>The subject sequence of the conversions in base 10: an optional sign and the leading digits.\<close>

definition scan_number :: "string \<Rightarrow> bool \<times> nat" where
  "scan_number s =
    (let t = dropWhile is_space (c_str s);
         neg = (t \<noteq> [] \<and> hd t = CHR ''-'');
         u = (if t \<noteq> [] \<and> hd t \<in> {CHR ''-'', CHR ''+''} then tl t else t)
     in (neg, digits_value (takeWhile is_digit u)))"

text \<open>\<open>strtoull\<close> in base 10: no digits give 0, too large a value gives \<open>ULLONG_MAX\<close>, a minus sign negates in the result type.\<close>

definition strtoull :: "string \<Rightarrow> u64" where
  "strtoull s = (case scan_number s of (neg, n) \<Rightarrow>
     if 2 ^ 64 \<le> n then - 1 else if neg then - of_nat n else of_nat n)"

text \<open>\<open>atoi\<close>, for numbers that an \<open>int\<close> can hold.\<close>

definition atoi :: "string \<Rightarrow> int" where
  "atoi s = (case scan_number s of (neg, n) \<Rightarrow> if neg then - int n else int n)"

definition show_int :: "int \<Rightarrow> string" where
  "show_int i = (if i < 0 then ''-'' @ show_nat (nat (- i)) else show_nat (nat i))"

section \<open>Reading what was printed\<close>

lemma of_char_digit: "d < 10 \<Longrightarrow> (of_char (char_of (48 + d) :: char) :: nat) = 48 + d"
  by simp

lemma digit_char: "d < 10 \<Longrightarrow> is_digit (char_of (48 + d)) \<and> digit_value (char_of (48 + d)) = d"
  by (simp add: is_digit_def digit_value_def)

lemma digits_value_snoc: "digits_value (ds @ [c]) = 10 * digits_value ds + digit_value c"
  by (simp add: digits_value_def)

lemma show_nat_digits: "(\<forall>c\<in>set (show_nat n). is_digit c) \<and> digits_value (show_nat n) = n \<and> show_nat n \<noteq> []"
proof (induction n rule: show_nat.induct)
  case (1 n)
  show ?case
  proof (cases "n < 10")
    case True
    then show ?thesis using digit_char [of n] by (simp add: show_nat.simps [of n] digits_value_def)
  next
    case False
    then show ?thesis using 1 digit_char [of "n mod 10"] by (simp add: show_nat.simps [of n] digits_value_snoc)
  qed
qed

lemma is_digit_facts: "is_digit c \<Longrightarrow> \<not> is_space c \<and> c \<noteq> CHR ''-'' \<and> c \<noteq> CHR ''+'' \<and> c \<noteq> CHR 0x00"
  by (auto simp: is_digit_def is_space_def)

lemma scan_shown:
  assumes "rest = [] \<or> \<not> is_digit (hd rest)" "CHR 0x00 \<notin> set rest"
  shows "scan_number (show_nat n @ rest) = (False, n)"
proof -
  have d: "\<forall>c\<in>set (show_nat n). is_digit c" "digits_value (show_nat n) = n" "show_nat n \<noteq> []" using show_nat_digits by auto
  have "c \<noteq> CHR 0x00" if "c \<in> set (show_nat n @ rest)" for c
    using that assms(2) d(1) is_digit_facts [of c] by auto
  then have "c_str (show_nat n @ rest) = show_nat n @ rest" unfolding c_str_def takeWhile_eq_all_conv by simp
  moreover have "is_digit (hd (show_nat n))" using d by simp
  then have "dropWhile is_space (show_nat n @ rest) = show_nat n @ rest" "hd (show_nat n @ rest) \<notin> {CHR ''-'', CHR ''+''}"
    using is_digit_facts [of "hd (show_nat n)"] d(3) by (cases "show_nat n"; simp)+
  moreover have "takeWhile is_digit (show_nat n @ rest) = show_nat n"
    using d(1) assms(1) by (cases rest) (auto simp: takeWhile_append)
  ultimately show ?thesis using d by (simp add: scan_number_def Let_def)
qed

end
