(* ===== verification/Gms_Coordinator.thy ===== *)
theory Gms_Coordinator
  imports Gms_Protocol Gms_Text Gms_Containers
begin

text \<open>
  The coordinator process (\<^verbatim>\<open>coordinator/coordinator.cpp\<close>): its state is the locals of \<open>main\<close>, one definition per
  phase of an iteration of its loop, on a network \<open>'w winsock\<close>.
\<close>

section \<open>State\<close>

record AllocState =
  as_id :: u64
  as_gen :: u64
  as_boot :: u64
  as_bytes :: u64
  as_current :: bool

text \<open>The locals of \<open>main\<close>, and the lines printed so far.\<close>

record Coordinator =
  co_ctrl :: SOCKET
  co_worker :: SOCKET
  co_worker_boot :: u64
  co_alloc :: "(u64, AllocState) omap"
  co_out :: "string list"

text \<open>A \<open>take_*\<close> call whose result is ignored: on failure the variable keeps its initial value.\<close>

definition take_or :: "'a \<Rightarrow> (u8 list \<Rightarrow> 'a rd) \<Rightarrow> u8 list \<Rightarrow> 'a \<times> u8 list" where
  "take_or v rd b = (case rd b of Got x b' \<Rightarrow> (x, b') | _ \<Rightarrow> (v, b))"

definition take3 :: "u8 list \<Rightarrow> u64 \<times> u64 \<times> u64" where
  "take3 p = (let (a, p) = take_or 0 take_u64 p; (b, p) = take_or 0 take_u64 p; (c, p) = take_or 0 take_u64 p in (a, b, c))"

text \<open>\<open>ALLOCATE_RESULT\<close> and \<open>RELEASE_RESULT\<close> payloads, and how they are read.\<close>

definition result_payload :: "u64 \<Rightarrow> u64 \<Rightarrow> u32 \<Rightarrow> string \<Rightarrow> u8 list" where
  "result_payload i g status e = append_u64 i @ append_u64 g @ append_u32 status @ append_str e"

definition take_result :: "u8 list \<Rightarrow> u32 \<times> string" where
  "take_result p =
    (let (a, p) = take_or 0 take_u64 p; (b, p) = take_or 0 take_u64 p;
         (status, p) = take_or 0 take_u32 p; (e, p) = take_or '''' take_str p in (status, e))"

section \<open>Start\<close>

definition coord_start :: "'w winsock \<Rightarrow> u64 \<Rightarrow> string list \<Rightarrow> 'w \<Rightarrow> 'w \<times> (SOCKET \<times> Coordinator) option \<times> string list" where
  "coord_start N g_epoch args w =
    (let (w, _) = net_init N w;
         port = (if length args > 1 then atoi (args ! 1) else 0);
         (w, ls, bound, err) = listen_loopback N port w in
     if ls = INVALID_SOCKET then
       (w, None, [''coordinator: listen failed '' @ c_str (case err of Some e \<Rightarrow> e | None \<Rightarrow> '''')])
     else
       let out = [''COORDINATOR_READY port='' @ show_int (case bound of Some b \<Rightarrow> b | None \<Rightarrow> 0) @ '' epoch='' @ show_word g_epoch] in
       (w, Some (ls, \<lparr>co_ctrl = INVALID_SOCKET, co_worker = INVALID_SOCKET, co_worker_boot = 0, co_alloc = [], co_out = out\<rparr>), out))"

section \<open>Accepting a connection\<close>

text \<open>What the payload of \<open>REGISTER\<close> holds: name, boot and process id.\<close>

definition take_register :: "u8 list \<Rightarrow> (string \<times> u64 \<times> u64) option" where
  "take_register p =
    (case take_str p of
       Got name p1 \<Rightarrow> (case take_u64 p1 of
           Got boot p2 \<Rightarrow> (case take_u64 p2 of Got pidv p3 \<Rightarrow> Some (name, boot, pidv) | _ \<Rightarrow> None)
         | _ \<Rightarrow> None)
     | _ \<Rightarrow> None)"

text \<open>The handshake on a new socket \<open>c\<close>; \<open>False\<close> is the \<open>continue\<close> of the code.\<close>

definition accept_phase :: "'w winsock \<Rightarrow> SOCKET \<Rightarrow> Coordinator \<Rightarrow> 'w \<Rightarrow> Coordinator \<times> 'w \<times> bool" where
  "accept_phase N ls st w =
    (let (w, c) = ws_accept N ls w in
     if c = INVALID_SOCKET then (st, w, True)
     else case recv_frame N c w of
       (w, None) \<Rightarrow> (st, shutdown_sock N c w, False)
     | (w, Some hello) \<Rightarrow>
        (case take_u8 (fr_payload hello) of
           Got role _ \<Rightarrow>
             if role = 2 then
               (case recv_frame N c w of
                  (w, None) \<Rightarrow> (st, shutdown_sock N c w, False)
                | (w, Some reg) \<Rightarrow>
                   (case take_register (fr_payload reg) of
                      None \<Rightarrow> (st, shutdown_sock N c w, False)
                    | Some (name, boot, pidv) \<Rightarrow>
                       (case recv_frame N c w of
                          (w, None) \<Rightarrow> (st, shutdown_sock N c w, False)
                        | (w, Some cap) \<Rightarrow>
                           let w = (if co_worker st \<noteq> INVALID_SOCKET then shutdown_sock N (co_worker st) w else w) in
                           (st\<lparr>co_worker := c, co_worker_boot := boot,
                               co_out := co_out st @ [''WORKER_REGISTERED name='' @ c_str name @ '' boot='' @ show_word boot @
                                                      '' pid='' @ show_word pidv]\<rparr>, w, True))))
             else
               let w = (if co_ctrl st \<noteq> INVALID_SOCKET then shutdown_sock N (co_ctrl st) w else w) in
               (st\<lparr>co_ctrl := c\<rparr>, w, True)
         | _ \<Rightarrow> (st, shutdown_sock N c w, False)))"

section \<open>Controller requests\<close>

text \<open>The worker is declared dead: everything allocated under its boot stops being current.\<close>

definition fence_worker :: "Coordinator \<Rightarrow> Coordinator" where
  "fence_worker st = st\<lparr>co_worker := INVALID_SOCKET, co_worker_boot := 0, co_out := co_out st @ [''WORKER_DEAD''],
     co_alloc := map (\<lambda>(k, a). (k, if as_boot a = co_worker_boot st then a\<lparr>as_current := False\<rparr> else a)) (co_alloc st)\<rparr>"

definition handle_allocate :: "'w winsock \<Rightarrow> Coordinator \<Rightarrow> u8 list \<Rightarrow> 'w \<Rightarrow> Coordinator \<times> 'w" where
  "handle_allocate N st payload w =
    (let (idv, genv, bytes) = take3 payload in
     if co_worker st = INVALID_SOCKET \<or> co_worker_boot st = 0 then
       (st, fst (send_frame N (co_ctrl st) ALLOCATE_RESULT (result_payload idv genv 0xFFFFFFFE ''no worker'') w))
     else
       let (w, _) = send_frame N (co_worker st) ALLOCATE (append_u64 idv @ append_u64 genv @ append_u64 bytes) w;
           (w, res) = recv_frame N (co_worker st) w in
       case res of
         None \<Rightarrow> (fence_worker st, fst (send_frame N (co_ctrl st) ALLOCATE_RESULT
                    (result_payload idv genv 0xFFFFFFF6 ''worker dead'') (shutdown_sock N (co_worker st) w)))
       | Some res \<Rightarrow>
          if fr_type res \<noteq> ALLOCATE_RESULT then
            (fence_worker st, fst (send_frame N (co_ctrl st) ALLOCATE_RESULT
               (result_payload idv genv 0xFFFFFFF6 ''worker dead'') (shutdown_sock N (co_worker st) w)))
          else
            let (status, e) = take_result (fr_payload res) in
            (st\<lparr>co_alloc := om_assign idv \<lparr>as_id = idv, as_gen = genv, as_boot = co_worker_boot st, as_bytes = bytes,
                                          as_current = (status = 0)\<rparr> (co_alloc st)\<rparr>,
             fst (send_frame N (co_ctrl st) ALLOCATE_RESULT (result_payload idv genv status e) w)))"

definition handle_release :: "'w winsock \<Rightarrow> Coordinator \<Rightarrow> u8 list \<Rightarrow> 'w \<Rightarrow> Coordinator \<times> 'w" where
  "handle_release N st payload w =
    (let (idv, genv, bootv) = take3 payload;
         known = (case om_find (co_alloc st) idv of None \<Rightarrow> False
                  | Some a \<Rightarrow> \<not> (as_gen a \<noteq> genv \<or> as_boot a \<noteq> co_worker_boot st));
         (w, status, e) =
           (if \<not> known then (w, - 1, ''stale or unknown'')
            else
              let (w, _) = send_frame N (co_worker st) RELEASE (append_u64 idv @ append_u64 genv @ append_u64 bootv) w;
                  (w, res) = recv_frame N (co_worker st) w in
              case res of
                None \<Rightarrow> (w, - 10, ''worker dead'')
              | Some res \<Rightarrow> if fr_type res \<noteq> RELEASE_RESULT then (w, - 10, ''worker dead'')
                            else (w, take_result (fr_payload res)))
     in (st, fst (send_frame N (co_ctrl st) RELEASE_RESULT (result_payload idv genv status e) w)))"

definition committed_bytes :: "Coordinator \<Rightarrow> u64 \<times> u64" where
  "committed_bytes st =
     foldl (\<lambda>(committed, current) kv. if as_current (snd kv) then (committed + as_bytes (snd kv), current + 1)
                                      else (committed, current)) (0, 0) (co_alloc st)"

definition handle_query :: "'w winsock \<Rightarrow> Coordinator \<Rightarrow> 'w \<Rightarrow> Coordinator \<times> 'w" where
  "handle_query N st w =
    (let (committed, current) = committed_bytes st in
     (st, fst (send_frame N (co_ctrl st) QUERY_RESULT (append_u64 committed @ append_u64 current) w)))"

text \<open>One request of the controller; the last component says whether \<open>main\<close> returns.\<close>

definition controller_request :: "'w winsock \<Rightarrow> SOCKET \<Rightarrow> Coordinator \<Rightarrow> 'w \<Rightarrow> Coordinator \<times> 'w \<times> bool" where
  "controller_request N ls st w =
    (case recv_frame N (co_ctrl st) w of
       (w, None) \<Rightarrow> (st\<lparr>co_ctrl := INVALID_SOCKET\<rparr>, shutdown_sock N (co_ctrl st) w, False)
     | (w, Some f) \<Rightarrow>
        (case fr_type f of
           ALLOCATE \<Rightarrow> (case handle_allocate N st (fr_payload f) w of (st, w) \<Rightarrow> (st, w, False))
         | RELEASE \<Rightarrow> (case handle_release N st (fr_payload f) w of (st, w) \<Rightarrow> (st, w, False))
         | QUERY \<Rightarrow> (case handle_query N st w of (st, w) \<Rightarrow> (st, w, False))
         | SHUTDOWN \<Rightarrow>
             let w = (if co_worker st \<noteq> INVALID_SOCKET then shutdown_sock N (co_worker st) w else w);
                 w = shutdown_sock N ls (shutdown_sock N (co_ctrl st) w) in
             (st\<lparr>co_out := co_out st @ [''COORDINATOR_SHUTDOWN'']\<rparr>, w, True)
         | _ \<Rightarrow> (st, w, False)))"

section \<open>The main loop\<close>

definition coord_iteration :: "'w winsock \<Rightarrow> SOCKET \<Rightarrow> Coordinator \<Rightarrow> 'w \<Rightarrow> Coordinator \<times> 'w \<times> bool" where
  "coord_iteration N ls st w =
    (let fds = ls # (if co_ctrl st \<noteq> INVALID_SOCKET then [co_ctrl st] else []);
         (w, pr, revents) = ws_poll N fds w;
         ready = (\<lambda>i. i < length revents \<and> revents ! i) in
     if pr \<le> 0 then (st, w, False)
     else
       let (st, w, on) = (if ready 0 then accept_phase N ls st w else (st, w, True)) in
       if on \<and> co_ctrl st \<noteq> INVALID_SOCKET \<and> length fds > 1 \<and> ready 1 then controller_request N ls st w
       else (st, w, False))"

end
