(* ===== verification/Gms_Protocol_Props.thy ===== *)
theory Gms_Protocol_Props
  imports Gms_Protocol
begin

text \<open>
  Properties of the protocol: the decoder accepts exactly the encodings of bounded messages, damaged frames
  are rejected, framing does not depend on how a stream socket cuts its bytes (the locale \<open>stream_socket\<close>
  states what is relied on), and the socket loops end.
\<close>

section \<open>The codec\<close>

lemma Msg_codes [simp]: "Msg_code (Msg_of_code b) = b" "m \<noteq> Unnamed (Msg_code m) \<Longrightarrow> Msg_of_code (Msg_code m) = m"
   apply (simp add: Msg_of_code_def)
  by (cases m) (simp_all add: Msg_of_code_def)

text \<open>
  A message type that a byte can stand for: an enumerator, or a byte that names none.
\<close>

definition msg_ok :: "Msg \<Rightarrow> bool" where
  "msg_ok m \<longleftrightarrow> Msg_of_code (Msg_code m) = m"

text \<open>The layout of the buffers the decoder accepts.\<close>

definition frame_header :: "u8 \<Rightarrow> u32 \<Rightarrow> u8 list" where
  "frame_header t len = append_u32 protocol_kMagic @ append_u32 protocol_kVersion @ append_u8 t @ append_u32 len"

lemma length_header [simp]: "length (frame_header t len) = 13"
  by (simp add: frame_header_def)

lemma drop_header: "drop 4 (frame_header t len @ b) = drop 4 (frame_header t len) @ b"
  by simp

lemma encode_frame_layout:
  "encode_frame m p = frame_header (Msg_code m) (of_nat (length p)) @ p @
     append_u32 (crc32 (drop 4 (frame_header (Msg_code m) (of_nat (length p))) @ p))"
  by (simp add: encode_frame_def frame_header_def Let_def)

lemma length_encode [simp]: "length (encode_frame m p) = length p + 17"
  by (simp add: encode_frame_layout)

lemma le_word_u32_iff: "length b = 4 \<Longrightarrow> le_word b = v \<longleftrightarrow> b = append_u32 v"
  using le_word_inj [of b "append_u32 v"] by (auto simp: le_word_u32)

text \<open>The readers accept exactly what the writers produce.\<close>

lemma take_u32_Got: "take_u32 b = Got v b' \<longleftrightarrow> b = append_u32 v @ b'"
proof
  assume "take_u32 b = Got v b'"
  then have "4 \<le> length b" "le_word (take 4 b) = v" "b' = drop 4 b" by (auto simp: take_u32_def split: if_splits)
  moreover from this have "take 4 b = append_u32 v" by (simp add: le_word_u32_iff)
  ultimately show "b = append_u32 v @ b'" by (metis append_take_drop_id)
qed (simp add: c32.roundtrip)

lemma take_u8_Got: "take_u8 b = Got v b' \<longleftrightarrow> b = append_u8 v @ b'"
  by (cases b) (auto simp: take_u8_def append_u8_def)

lemma header_length_Some:
  "header_length hb = Some len \<longleftrightarrow> (\<exists>t rest. hb = frame_header t len @ rest) \<and> len \<le> kMaxFrame"
proof
  assume "header_length hb = Some len"
  then obtain b1 b2 t b3 b4 where "take_u32 hb = Got protocol_kMagic b1" "take_u32 b1 = Got protocol_kVersion b2"
    "take_u8 b2 = Got t b3" "take_u32 b3 = Got len b4" "len \<le> kMaxFrame"
    by (auto simp: header_length_def not_less split: rd.splits if_splits)
  then show "(\<exists>t rest. hb = frame_header t len @ rest) \<and> len \<le> kMaxFrame"
    by (auto simp: take_u32_Got take_u8_Got frame_header_def)
next
  assume "(\<exists>t rest. hb = frame_header t len @ rest) \<and> len \<le> kMaxFrame"
  then show "header_length hb = Some len"
    by (auto simp: header_length_def frame_header_def c32.roundtrip c8.roundtrip)
qed

definition whole_frame :: "u8 \<Rightarrow> u8 list \<Rightarrow> u8 list" where
  "whole_frame t p = frame_header t (of_nat (length p)) @ p @
     append_u32 (crc32 (drop 4 (frame_header t (of_nat (length p))) @ p))"

lemma encode_whole: "encode_frame m p = whole_frame (Msg_code m) p"
  by (simp add: encode_frame_layout whole_frame_def)

lemma length_whole [simp]: "length (whole_frame t p) = length p + 17"
  by (simp add: whole_frame_def)

lemma le_max_frame: "len \<le> kMaxFrame \<longleftrightarrow> unat len \<le> 2 ^ 20"
  by (simp add: kMaxFrame_def word_le_nat_alt)

text \<open>The decoder accepts exactly the buffers that start with a whole frame of bounded length.\<close>

lemma decode_frame_Some:
  "decode_frame buf = Some (n, f) \<longleftrightarrow>
     (\<exists>t p rest. buf = whole_frame t p @ rest \<and> length p \<le> 2 ^ 20 \<and> n = length p + 17 \<and>
        f = \<lparr>fr_type = Msg_of_code t, fr_payload = p\<rparr>)"
proof
  assume "decode_frame buf = Some (n, f)"
  then obtain b1 b2 t b3 len b4 crcval rest where g: "take_u32 buf = Got protocol_kMagic b1" "take_u32 b1 = Got protocol_kVersion b2"
    "take_u8 b2 = Got t b3" "take_u32 b3 = Got len b4" "len \<le> kMaxFrame" "unat len + 4 \<le> length b4"
    "take_u32 (drop (unat len) b4) = Got crcval rest"
    "crcval = crc32 (take ((length buf - length b4 + unat len) - 4) (drop 4 buf))"
    "n = length buf - length rest" "f = \<lparr>fr_type = Msg_of_code t, fr_payload = take (unat len) (drop (length buf - length b4) buf)\<rparr>"
    by (auto simp: decode_frame_def Let_def not_less split: rd.splits if_splits)
  let ?p = "take (unat len) b4"
  have len: "length ?p = unat len" using g(6) by simp
  have b4: "b4 = ?p @ append_u32 crcval @ rest" using g(7) unfolding take_u32_Got by (metis append_take_drop_id)
  have buf: "buf = frame_header t len @ b4" using g(1-4) by (simp add: take_u32_Got take_u8_Got frame_header_def)
  have w: "of_nat (length ?p) = len" using len by simp
  have c: "crcval = crc32 (drop 4 (frame_header t len) @ ?p)"
    using g(8) by (simp add: buf)
  have "buf = whole_frame t ?p @ rest" unfolding whole_frame_def w c [symmetric] using buf b4 by simp
  moreover have "length ?p \<le> 2 ^ 20" using g(5) len by (simp add: le_max_frame)
  moreover have "n = length ?p + 17" using g(9) calculation(1) by simp
  moreover have "f = \<lparr>fr_type = Msg_of_code t, fr_payload = ?p\<rparr>" using g(10) by (simp add: buf)
  ultimately show "\<exists>t p rest. buf = whole_frame t p @ rest \<and> length p \<le> 2 ^ 20 \<and> n = length p + 17 \<and>
        f = \<lparr>fr_type = Msg_of_code t, fr_payload = p\<rparr>" by blast
next
  assume "\<exists>t p rest. buf = whole_frame t p @ rest \<and> length p \<le> 2 ^ 20 \<and> n = length p + 17 \<and>
        f = \<lparr>fr_type = Msg_of_code t, fr_payload = p\<rparr>"
  then obtain t p rest where a: "buf = whole_frame t p @ rest" "length p \<le> 2 ^ 20" "n = length p + 17"
     "f = \<lparr>fr_type = Msg_of_code t, fr_payload = p\<rparr>" by blast
  let ?len = "of_nat (length p) :: u32" let ?h = "frame_header t ?len" let ?crc = "crc32 (drop 4 ?h @ p)"
  have len: "unat ?len = length p" using a(2) by (simp add: unat_of_nat)
  have "?len \<le> kMaxFrame" using a(2) len by (simp add: le_max_frame)
  moreover have "buf = append_u32 protocol_kMagic @ append_u32 protocol_kVersion @ append_u8 t @ append_u32 ?len @
     p @ append_u32 ?crc @ rest" using a(1) by (simp add: whole_frame_def frame_header_def)
  ultimately show "decode_frame buf = Some (n, f)" unfolding decode_frame_def using a(2-4)
    by (simp add: c32.roundtrip c8.roundtrip len Let_def frame_header_def)
qed

lemma msg_ok_cast [simp]: "msg_ok (Msg_of_code b)"
  by (simp add: msg_ok_def)

lemma decode_encoded:
  "decode_frame buf = Some (n, f) \<longleftrightarrow>
     msg_ok (fr_type f) \<and> length (fr_payload f) \<le> 2 ^ 20 \<and> n = length (encode_frame (fr_type f) (fr_payload f)) \<and>
     (\<exists>rest. buf = encode_frame (fr_type f) (fr_payload f) @ rest)"
proof (cases f)
  case (fields m p)
  show ?thesis unfolding decode_frame_Some encode_whole fields
    by (auto simp: msg_ok_def intro!: exI [of _ "Msg_code m"])
qed

text \<open>
  C31. The wire format is unambiguous: the decoder accepts a buffer exactly when it starts with the encoding of a message
  of at most \<open>2^20\<close> payload bytes, gives back that message, and consumes exactly its bytes.
\<close>

theorem frame_roundtrip:
  "decode_frame buf = Some (n, f) \<longleftrightarrow>
     msg_ok (fr_type f) \<and> length (fr_payload f) \<le> 2 ^ 20 \<and> n = length (encode_frame (fr_type f) (fr_payload f)) \<and>
     (\<exists>rest. buf = encode_frame (fr_type f) (fr_payload f) @ rest)"
  by (rule decode_encoded)

section \<open>Corrupted frames\<close>

lemma whole_crc: "crc_valid (drop 4 (whole_frame t p))"
proof -
  have "drop 4 (whole_frame t p) = (drop 4 (frame_header t (of_nat (length p))) @ p) @
      append_u32 (crc32 (drop 4 (frame_header t (of_nat (length p))) @ p))" by (simp add: whole_frame_def)
  then show ?thesis by (simp add: crc_valid_def le_word_u32)
qed

lemma whole_magic: "take 4 (whole_frame t p) = append_u32 protocol_kMagic"
  by (simp add: whole_frame_def frame_header_def)

lemma whole_length_field: "take 4 (drop 9 (whole_frame t p @ r)) = append_u32 (of_nat (length p))"
  by (simp add: whole_frame_def frame_header_def)

lemma length_field_inj:
  assumes "take 4 (drop 9 (whole_frame t p @ r)) = take 4 (drop 9 (whole_frame u q @ r'))"
    "length p \<le> 2 ^ 20" "length q \<le> 2 ^ 20"
  shows "length p = length q"
proof -
  have "(of_nat (length p) :: u32) = of_nat (length q)" using assms(1) unfolding whole_length_field by (metis le_word_u32)
  then have "unat (of_nat (length p) :: u32) = unat (of_nat (length q) :: u32)" by simp
  then show ?thesis using assms(2,3) by (simp add: unat_of_nat)
qed

text \<open>Two whole frames that differ in a short window away from the length field are the same.\<close>

lemma window_same_length:
  assumes "whole_frame t p = pre @ xs @ post" "whole_frame u q @ rest = pre @ ys @ post" "length xs = length ys"
    "length pre + length xs \<le> 9 \<or> 13 \<le> length pre" "length p \<le> 2 ^ 20" "length q \<le> 2 ^ 20"
  shows "length p = length q \<and> rest = []"
proof -
  have "take 4 (drop 9 (pre @ xs @ post)) = take 4 (drop 9 (pre @ ys @ post))"
    using assms(3,4) by auto
  then have eq: "length p = length q"
    using length_field_inj [of t p "[]" u q rest] assms(5,6) by (simp add: assms(1,2))
  have "length (whole_frame t p) = length (whole_frame u q @ rest)" using assms(1-3) by simp
  then show ?thesis using eq by simp
qed

lemma burst_same:
  assumes "whole_frame t p = pre @ xs @ post" "whole_frame u q = pre @ ys @ post" "length xs = length ys" "length xs \<le> 4"
  shows "xs = ys"
proof (rule ccontr)
  assume ne: "xs \<noteq> ys"
  let ?k = "4 - length pre"
  have "take ?k xs = take ?k ys"
    using arg_cong [OF assms(1), of "take 4"] arg_cong [OF assms(2), of "take 4"] assms(3) by (simp add: whole_magic)
  then have "drop ?k xs \<noteq> drop ?k ys" using ne by (metis append_take_drop_id)
  moreover have "crc_valid (drop 4 pre @ drop ?k xs @ drop (?k - length xs) post)"
    using whole_crc [of t p] by (simp add: assms(1))
  ultimately have "\<not> crc_valid (drop 4 pre @ drop ?k ys @ drop (?k - length xs) post)"
    using assms(3,4) by (intro crc_detects [of _ "drop ?k xs"]) simp_all
  moreover have "crc_valid (drop 4 pre @ drop ?k ys @ drop (?k - length xs) post)"
    using whole_crc [of u q] by (simp add: assms(2,3))
  ultimately show False by contradiction
qed

lemma burst_rejected:
  assumes "decode_frame (pre @ xs @ post) = Some (length (pre @ xs @ post), f)" "length xs = length ys" "length xs \<le> 4" "xs \<noteq> ys"
    "length pre + length xs \<le> 9 \<or> 13 \<le> length pre"
  shows "decode_frame (pre @ ys @ post) = None"
proof (rule ccontr)
  assume "decode_frame (pre @ ys @ post) \<noteq> None"
  then obtain n g where "decode_frame (pre @ ys @ post) = Some (n, g)" by auto
  then obtain u q r2 where q: "pre @ ys @ post = whole_frame u q @ r2" "length q \<le> 2 ^ 20"
    unfolding decode_frame_Some by blast
  obtain t p r1 where p: "pre @ xs @ post = whole_frame t p @ r1" "length p \<le> 2 ^ 20" "length (pre @ xs @ post) = length p + 17"
    using assms(1) unfolding decode_frame_Some by blast
  have "r1 = []" using arg_cong [OF p(1), of length] p(3) by simp
  then have p1: "whole_frame t p = pre @ xs @ post" using p(1) by simp
  have r2: "r2 = []" using window_same_length [OF p1 q(1) [symmetric] assms(2,5) p(2) q(2)] by simp
  then have "xs = ys" using q(1) p1 assms(2,3) by (intro burst_same [of t p pre xs post u q ys]) simp_all
  with assms(4) show False by simp
qed

lemma prefix_rejected:
  assumes "decode_frame buf = Some (n, f)" "k < n"
  shows "decode_frame (take k buf) = None"
proof (rule ccontr)
  assume "decode_frame (take k buf) \<noteq> None"
  then obtain m g where "decode_frame (take k buf) = Some (m, g)" by auto
  then obtain u q r2 where q: "take k buf = whole_frame u q @ r2" "length q \<le> 2 ^ 20" unfolding decode_frame_Some by blast
  obtain t p r1 where p: "buf = whole_frame t p @ r1" "length p \<le> 2 ^ 20" "n = length p + 17"
    using assms(1) unfolding decode_frame_Some by blast
  have "whole_frame t p @ r1 = whole_frame u q @ r2 @ drop k buf" using q(1) p(1) by (metis append.assoc append_take_drop_id)
  then have "length p = length q"
    using length_field_inj [of t p r1 u q "r2 @ drop k buf"] p(2) q(2) by simp
  moreover have "length q + 17 \<le> k" using arg_cong [OF q(1), of length] by simp
  ultimately show False using p(3) assms(2) by simp
qed

text \<open>
  C32. Damaged frames are rejected: a frame that is cut short never decodes, and changing up to four consecutive bytes of
  a frame, outside its length field, makes the decoder reject it.
\<close>

theorem damaged_frame_rejected:
  assumes "decode_frame buf = Some (length buf, f)"
  shows "(\<forall>k<length buf. decode_frame (take k buf) = None) \<and>
    (\<forall>pre xs post ys. buf = pre @ xs @ post \<and> length xs = length ys \<and> length xs \<le> 4 \<and> xs \<noteq> ys \<and>
       (length pre + length xs \<le> 9 \<or> 13 \<le> length pre) \<longrightarrow> decode_frame (pre @ ys @ post) = None)"
  using assms prefix_rejected burst_rejected by blast

theorem damaged_frame_rejected_witness:
  "decode_frame (take 16 (encode_frame QUERY [])) = None \<and>
   decode_frame (take 8 (encode_frame QUERY []) @ [Msg_code SHUTDOWN] @ drop 9 (encode_frame QUERY [])) = None"
proof -
  let ?b = "encode_frame QUERY []"
  have "decode_frame ?b = Some (length ?b, \<lparr>fr_type = QUERY, fr_payload = []\<rparr>)"
    by (simp add: decode_encoded msg_ok_def Msg_of_code_def)
  note t = damaged_frame_rejected [OF this]
  have split: "?b = take 8 ?b @ [Msg_code QUERY] @ drop 9 ?b"
    by (simp add: encode_frame_def Let_def append_u8_def)
  have "decode_frame (take 8 ?b @ [Msg_code SHUTDOWN] @ drop 9 ?b) = None"
    using t split by (elim conjE allE [of _ "take 8 ?b"] allE [of _ "[Msg_code QUERY]"] allE [of _ "drop 9 ?b"]
      allE [of _ "[Msg_code SHUTDOWN]"]) simp
  moreover have "decode_frame (take 16 ?b) = None" using t by simp
  ultimately show ?thesis by blast
qed

section \<open>Frames over a byte stream\<close>

lemma size_int_id: "n < 2 ^ 31 \<Longrightarrow> size_int n = int n"
  by (simp add: size_int_def signed_of_nat take_bit_nat_eq_self signed_take_bit_int_eq_self)

lemma decode_header: "decode_frame b = Some (n, f) \<Longrightarrow> header_length (take 13 b) = Some (of_nat (length (fr_payload f)))"
  unfolding decode_frame_Some header_length_Some
  by (auto simp: whole_frame_def le_max_frame unat_of_nat) (metis append_Nil2)

lemma decode_take:
  assumes "header_length (take 13 b) = Some len" "k = 17 + unat len" "k \<le> length b"
  shows "decode_frame (take k b) = decode_frame b" "decode_frame b = Some (n, f) \<Longrightarrow> n = k"
proof -
  have size: "n = k" if "decode_frame x = Some (n, f)" "take 13 x = take 13 b" for x n f
  proof -
    have "unat (of_nat (length (fr_payload f)) :: u32) = length (fr_payload f)"
      using that(1) by (auto simp: decode_frame_Some unat_of_nat)
    then show "n = k" using decode_header [OF that(1)] that assms(1,2) by (auto simp: decode_frame_Some)
  qed
  show "n = k" if "decode_frame b = Some (n, f)" by (rule size [OF that refl])
  have "decode_frame (take k b) = Some (n, f) \<longleftrightarrow> decode_frame b = Some (n, f)" for n f
  proof
    assume d: "decode_frame (take k b) = Some (n, f)"
    then obtain r where "take k b = encode_frame (fr_type f) (fr_payload f) @ r" by (auto simp: decode_encoded)
    then have "b = encode_frame (fr_type f) (fr_payload f) @ r @ drop k b" by (metis append.assoc append_take_drop_id)
    with d show "decode_frame b = Some (n, f)" unfolding decode_encoded by blast
  next
    assume d: "decode_frame b = Some (n, f)"
    then obtain r where b: "b = encode_frame (fr_type f) (fr_payload f) @ r" "n = length (encode_frame (fr_type f) (fr_payload f))"
      by (auto simp: decode_encoded)
    have "take k b = encode_frame (fr_type f) (fr_payload f)" using size [OF d refl] b by simp
    with d show "decode_frame (take k b) = Some (n, f)" unfolding decode_encoded by simp
  qed
  then show "decode_frame (take k b) = decode_frame b" by (metis option.exhaust prod.exhaust)
qed

text \<open>
  What the code relies on of a connected stream socket: \<open>recv\<close> takes at least one and at most the asked number of the bytes
  that are still to come, in order, and gives nothing only when no more come.  \<open>skip k\<close> is the state after \<open>k\<close> of them were taken.
\<close>

locale stream_socket =
  fixes N :: "'w winsock" and s :: SOCKET and incoming :: "'w \<Rightarrow> u8 list" and skip :: "nat \<Rightarrow> 'w \<Rightarrow> 'w"
  assumes recv: "0 < n \<Longrightarrow> \<exists>k. int k \<le> n \<and> (incoming w \<noteq> [] \<longrightarrow> 0 < k) \<and> k \<le> length (incoming w) \<and>
      ws_recv N s n w = (skip k w, take k (incoming w))"
    and skip_none: "skip 0 w = w"
    and skip_skip: "skip b (skip a w) = skip (a + b) w"
    and incoming_skip: "incoming (skip k w) = drop k (incoming w)"
begin

lemma recv_loop_stream:
  "length got \<le> n \<Longrightarrow> n < 2 ^ 31 \<Longrightarrow>
    (if n \<le> length got + length (incoming w)
     then recv_loop N s n got w = (skip (n - length got) w, Some (got @ take (n - length got) (incoming w)))
     else snd (recv_loop N s n got w) = None)"
proof (induction "n - length got" arbitrary: got w rule: less_induct)
  case less
  show ?case
  proof (cases "length got < n")
    case False
    then show ?thesis using less.prems by (simp add: recv_loop.simps skip_none)
  next
    case True
    have i: "size_int (n - length got) = int (n - length got)" using less.prems by (intro size_int_id) simp
    then have "0 < size_int (n - length got)" using True by simp
    from recv [OF this, of w] i obtain k where k: "k \<le> n - length got" "incoming w \<noteq> [] \<Longrightarrow> 0 < k" "k \<le> length (incoming w)"
      "ws_recv N s (size_int (n - length got)) w = (skip k w, take k (incoming w))" by auto
    let ?r = "take k (incoming w)"
    show ?thesis
    proof (cases "?r = []")
      case True
      then have "incoming w = []" using k(2) by auto
      then show ?thesis using k(4) True \<open>length got < n\<close> by (simp add: recv_loop.simps [of N s n got w])
    next
      case False
      have step: "recv_loop N s n got w = recv_loop N s n (got @ ?r) (skip k w)"
        using k(4) \<open>length got < n\<close> False by (simp add: recv_loop.simps [of N s n got w])
      have "0 < k" using False by (cases k) simp_all
      then have "n - length (got @ ?r) < n - length got" "length (got @ ?r) \<le> n" using k(1,3) \<open>length got < n\<close> by simp_all
      note ih = less.hyps [OF this(1,2) less.prems(2), of "skip k w"]
      have "take (n - length got) (incoming w) = ?r @ take (n - length got - k) (drop k (incoming w))"
        using k(1) by (metis le_add_diff_inverse take_add)
      moreover have "k + (n - (k + length got)) = n - length got" using k(1) by simp
      ultimately show ?thesis unfolding step using ih k(1,3) by (simp add: skip_skip incoming_skip add.commute)
    qed
  qed
qed

lemma recv_exact_stream:
  assumes "n < 2 ^ 31"
  shows "n \<le> length (incoming w) \<Longrightarrow> recv_exact N s n w = (skip n w, Some (take n (incoming w)))"
    "\<not> n \<le> length (incoming w) \<Longrightarrow> snd (recv_exact N s n w) = None"
  using recv_loop_stream [OF _ assms, of "[]" w] by (auto simp: recv_exact_def)

lemma recv_exact_fails:
  "n < 2 ^ 31 \<Longrightarrow> \<not> n \<le> length (incoming w) \<Longrightarrow> \<exists>w'. recv_exact N s n w = (w', None)"
  by (metis recv_exact_stream(2) prod.collapse)

lemma recv_frame_stream:
  "recv_frame N s w = (case decode_frame (incoming w) of Some (n, f) \<Rightarrow> (skip n w, Some f) | None \<Rightarrow> (fst (recv_frame N s w), None))"
proof -
  let ?b = "incoming w"
  have none: ?thesis if "decode_frame ?b = None" "snd (recv_frame N s w) = None"
    using that by (cases "recv_frame N s w") simp
  show ?thesis
  proof (cases "header_length (take 13 ?b)")
    case None
    then have "decode_frame ?b = None" using decode_header by (metis option.exhaust option.discI prod.exhaust)
    moreover have "snd (recv_frame N s w) = None"
      using None recv_exact_stream [of 13 w] recv_exact_fails [of 13 w] by (cases "13 \<le> length ?b") (auto simp: recv_frame_def)
    ultimately show ?thesis by (rule none)
  next
    case (Some len)
    have max: "unat len \<le> 2 ^ 20" using Some by (simp add: header_length_Some le_max_frame)
    show ?thesis
    proof (cases "17 + unat len \<le> length ?b")
      case False
      have "decode_frame ?b = None"
      proof (rule ccontr)
        assume "decode_frame ?b \<noteq> None"
        then obtain n f where d: "decode_frame ?b = Some (n, f)" by auto
        then have "unat (of_nat (length (fr_payload f)) :: u32) = length (fr_payload f)"
          by (auto simp: decode_frame_Some unat_of_nat)
        then show False using decode_header [OF d] Some d False by (auto simp: decode_frame_Some)
      qed
      moreover have "\<not> 4 \<le> length (incoming (skip (13 + unat len) w))" using False by (simp add: incoming_skip)
      then obtain w3 where "recv_exact N s 4 (skip (13 + unat len) w) = (w3, None)" using recv_exact_fails [of 4] by auto
      then have "snd (recv_frame N s w) = None"
        using Some max recv_exact_stream(1) [of 13 w] recv_exact_fails [of 13 w]
          recv_exact_stream(1) [of "unat len" "skip 13 w"] recv_exact_fails [of "unat len" "skip 13 w"]
        by (cases "13 \<le> length ?b"; cases "unat len \<le> length ?b - 13")
          (auto simp: recv_frame_def incoming_skip skip_skip)
      ultimately show ?thesis by (rule none)
    next
      case True
      have "take 13 ?b @ take (unat len) (drop 13 ?b) @ take 4 (drop (13 + unat len) ?b) = take (17 + unat len) ?b"
        using take_add [of 13 "unat len + 4" ?b] take_add [of "unat len" 4 "drop 13 ?b"] by (simp add: add.commute)
      then have "recv_frame N s w = (skip (17 + unat len) w, map_option snd (decode_frame (take (17 + unat len) ?b)))"
        using Some True max recv_exact_stream(1) [of 13 w] recv_exact_stream(1) [of "unat len" "skip 13 w"]
          recv_exact_stream(1) [of 4 "skip (13 + unat len) w"]
        by (simp add: recv_frame_def incoming_skip skip_skip add.commute)
      then show ?thesis using decode_take [OF Some refl True] by (cases "decode_frame ?b") auto
    qed
  qed
qed

end

text \<open>A network for the witnesses: what is to come on each socket, delivered in pieces of at most three bytes.\<close>

definition lift_call :: "('w \<Rightarrow> 'w \<times> 'r) \<Rightarrow> nat \<times> 'w \<Rightarrow> (nat \<times> 'w) \<times> 'r" where
  "lift_call f cw = (case f (snd cw) of (w', r) \<Rightarrow> ((fst cw, w'), r))"

definition demo_net :: "(SOCKET \<Rightarrow> u8 list) winsock" where
  "demo_net = \<lparr>ws_startup = \<lambda>w. (w, 0), ws_socket = \<lambda>w. (w, 1), ws_setsockopt = \<lambda>s opt w. w, ws_bind = \<lambda>s p w. (w, 0),
     ws_listen = \<lambda>s n w. (w, 0), ws_getsockname = \<lambda>s w. (w, 0), ws_connect = \<lambda>s p w. (w, 0), ws_accept = \<lambda>s w. (w, INVALID_SOCKET),
     ws_poll = \<lambda>ss w. (w, 0, []), ws_send = \<lambda>s data n w. (w, min n 3),
     ws_recv = \<lambda>s n w. (w(s := drop (nat (min n 3)) (w s)), take (nat (min n 3)) (w s)),
     ws_shutdown = \<lambda>s w. w, ws_closesocket = \<lambda>s w. w\<rparr>"

lemma chunked_socket:
  assumes recv: "\<And>n w. ws_recv N s n w = (upd (drop (nat (min n 3))) w, take (nat (min n 3)) (get w))"
    and get_upd: "\<And>f w. get (upd f w) = f (get w)" and upd_upd: "\<And>f g w. upd f (upd g w) = upd (\<lambda>x. f (g x)) w"
    and upd_cong: "\<And>f g w. f (get w) = g (get w) \<Longrightarrow> upd f w = upd g w" and upd_id: "\<And>w. upd (\<lambda>x. x) w = w"
  shows "stream_socket N s get (\<lambda>k. upd (drop k))"
proof
  fix n :: int and w assume n: "0 < n"
  let ?k = "min (nat (min n 3)) (length (get w))"
  have "drop (nat (min n 3)) (get w) = drop ?k (get w)" "take (nat (min n 3)) (get w) = take ?k (get w)" by (auto simp: min_def)
  then have "ws_recv N s n w = (upd (drop ?k) w, take ?k (get w))"
    using upd_cong [of "drop (nat (min n 3))" w "drop ?k"] by (simp only: recv)
  then show "\<exists>k. int k \<le> n \<and> (get w \<noteq> [] \<longrightarrow> 0 < k) \<and> k \<le> length (get w) \<and> ws_recv N s n w = (upd (drop k) w, take k (get w))"
    using n by (intro exI [of _ ?k]) auto
next
  show "upd (drop 0) w = w" for w by (simp add: upd_id id_def)
qed (simp_all add: get_upd upd_upd add.commute)

interpretation demo_net: stream_socket demo_net s "\<lambda>w. w s" "\<lambda>k w. w(s := drop k (w s))" for s
  by (rule chunked_socket [where upd = "\<lambda>f w. w(s := f (w s))"]) (simp_all add: demo_net_def)

text \<open>
  C33. Framing does not depend on how the network cuts the stream: on every stream socket, \<open>recv_frame\<close> gives exactly what
  decoding all the bytes to come would give, and on success it takes exactly one frame from the stream.
\<close>

theorem recv_frame_decodes:
  assumes "stream_socket N s incoming skip"
  shows "recv_frame N s w =
    (case decode_frame (incoming w) of Some (n, f) \<Rightarrow> (skip n w, Some f) | None \<Rightarrow> (fst (recv_frame N s w), None))"
  using assms by (rule stream_socket.recv_frame_stream)

theorem recv_frame_decodes_witness:
  "recv_frame demo_net 7 (\<lambda>s. encode_frame QUERY [] @ [1, 2]) =
     ((\<lambda>s. encode_frame QUERY [] @ [1, 2])(7 := [1, 2]), Some \<lparr>fr_type = QUERY, fr_payload = []\<rparr>)"
proof -
  have d: "decode_frame (encode_frame QUERY [] @ [1, 2]) = Some (17, \<lparr>fr_type = QUERY, fr_payload = []\<rparr>)"
    by (simp add: decode_encoded msg_ok_def Msg_of_code_def)
  show ?thesis
    by (subst recv_frame_decodes [OF demo_net.stream_socket_axioms]) (simp add: d)
qed

section \<open>The loops end\<close>

text \<open>The same network with a counter of the calls of \<open>send\<close> and \<open>recv\<close>.\<close>

definition counted :: "'w winsock \<Rightarrow> (nat \<times> 'w) winsock" where
  "counted N =
    \<lparr>ws_startup = lift_call (ws_startup N), ws_socket = lift_call (ws_socket N),
     ws_setsockopt = \<lambda>s opt cw. (fst cw, ws_setsockopt N s opt (snd cw)), ws_bind = \<lambda>s p. lift_call (ws_bind N s p),
     ws_listen = \<lambda>s n. lift_call (ws_listen N s n), ws_getsockname = \<lambda>s. lift_call (ws_getsockname N s),
     ws_connect = \<lambda>s p. lift_call (ws_connect N s p), ws_accept = \<lambda>s. lift_call (ws_accept N s),
     ws_poll = \<lambda>ss. lift_call (ws_poll N ss),
     ws_send = \<lambda>s data n cw. lift_call (ws_send N s data n) (Suc (fst cw), snd cw),
     ws_recv = \<lambda>s n cw. lift_call (ws_recv N s n) (Suc (fst cw), snd cw),
     ws_shutdown = \<lambda>s cw. (fst cw, ws_shutdown N s (snd cw)), ws_closesocket = \<lambda>s cw. (fst cw, ws_closesocket N s (snd cw))\<rparr>"

lemma send_loop_counted:
  "sent \<le> length data \<Longrightarrow> \<exists>k\<le>length data - sent.
     send_loop (counted N) s data sent (c, w) = ((c + k, fst (send_loop N s data sent w)), snd (send_loop N s data sent w))"
proof (induction "length data - sent" arbitrary: sent c w rule: less_induct)
  case less
  obtain w' r where r: "ws_send N s (drop sent data) (size_int (length data - sent)) w = (w', r)" by fastforce
  then have cr: "ws_send (counted N) s (drop sent data) (size_int (length data - sent)) (c, w) = ((Suc c, w'), r)"
    by (simp add: counted_def lift_call_def)
  consider "\<not> sent < length data" | "sent < length data" "r \<le> 0" | "sent < length data" "0 < r" "length data \<le> sent + nat r"
    | "sent + nat r < length data" "0 < r" by linarith
  then show ?case
  proof cases
    case 1
    then show ?thesis by (simp add: send_loop.simps)
  next
    case 2
    then show ?thesis using r cr by (auto simp: send_loop.simps [of _ s data sent] intro!: exI [of _ 1])
  next
    case 3
    then show ?thesis using r cr
      by (auto simp: send_loop.simps [of _ s data sent] send_loop.simps [of _ s data "sent + nat r"] intro!: exI [of _ 1])
  next
    case 4
    then have "length data - (sent + nat r) < length data - sent" by linarith
    with 4 obtain k where "k \<le> length data - (sent + nat r)" "send_loop (counted N) s data (sent + nat r) (Suc c, w') =
       ((Suc c + k, fst (send_loop N s data (sent + nat r) w')), snd (send_loop N s data (sent + nat r) w'))"
      using less.hyps [of "sent + nat r" "Suc c" w'] by auto
    with 4 show ?thesis using r cr by (auto simp: send_loop.simps [of _ s data sent] intro!: exI [of _ "Suc k"])
  qed
qed

lemma recv_loop_counted:
  "\<exists>k\<le>n - length got. recv_loop (counted N) s n got (c, w) = ((c + k, fst (recv_loop N s n got w)), snd (recv_loop N s n got w))"
proof (induction "n - length got" arbitrary: got c w rule: less_induct)
  case less
  obtain w' r where r: "ws_recv N s (size_int (n - length got)) w = (w', r)" by fastforce
  then have cr: "ws_recv (counted N) s (size_int (n - length got)) (c, w) = ((Suc c, w'), r)"
    by (simp add: counted_def lift_call_def)
  consider "\<not> length got < n" | "length got < n" "r = []" | "length got < n" "r \<noteq> []" by blast
  then show ?case
  proof cases
    case 1
    then show ?thesis by (simp add: recv_loop.simps)
  next
    case 2
    then show ?thesis using r cr by (auto simp: recv_loop.simps [of _ s n got] intro!: exI [of _ 1])
  next
    case 3
    then have lt: "n - length (got @ r) < n - length got" by (auto simp: neq_Nil_conv)
    then obtain k where k: "k \<le> n - length (got @ r)" "recv_loop (counted N) s n (got @ r) (Suc c, w') =
       ((Suc c + k, fst (recv_loop N s n (got @ r) w')), snd (recv_loop N s n (got @ r) w'))"
      using less.hyps by blast
    have "Suc k \<le> n - length got" using k(1) lt by linarith
    with 3 k(2) show ?thesis using r cr by (auto simp: recv_loop.simps [of _ s n got] intro!: exI [of _ "Suc k"])
  qed
qed

lemma recv_exact_counted:
  "\<exists>k\<le>n. recv_exact (counted N) s n (c, w) = ((c + k, fst (recv_exact N s n w)), snd (recv_exact N s n w))"
  using recv_loop_counted [of n "[]" N s c w] by (simp add: recv_exact_def)

lemma recv_frame_counted:
  "\<exists>k\<le>2 ^ 20 + 17. recv_frame (counted N) s (c, w) = ((c + k, fst (recv_frame N s w)), snd (recv_frame N s w))"
proof -
  obtain w1 h where h: "recv_exact N s 13 w = (w1, h)" by fastforce
  obtain k1 where k1: "k1 \<le> 13" "recv_exact (counted N) s 13 (c, w) = ((c + k1, w1), h)"
    using recv_exact_counted [of 13 N s c w] h by auto
  show ?thesis
  proof (cases "\<exists>hb len. h = Some hb \<and> header_length hb = Some len")
    case False
    then show ?thesis using h k1 by (auto simp: recv_frame_def split: option.splits intro!: exI [of _ k1])
  next
    case True
    then obtain hb len where hb: "h = Some hb" "header_length hb = Some len" by blast
    then have len: "unat len \<le> 2 ^ 20" by (simp add: header_length_Some le_max_frame)
    obtain w2 body where b: "recv_exact N s (unat len) w1 = (w2, body)" by fastforce
    obtain k2 where k2: "k2 \<le> unat len" "recv_exact (counted N) s (unat len) (c + k1, w1) = ((c + k1 + k2, w2), body)"
      using recv_exact_counted [of "unat len" N s "c + k1" w1] b by auto
    obtain w3 crc where cr: "recv_exact N s 4 w2 = (w3, crc)" by fastforce
    obtain k3 where k3: "k3 \<le> 4" "recv_exact (counted N) s 4 (c + k1 + k2, w2) = ((c + k1 + k2 + k3, w3), crc)"
      using recv_exact_counted [of 4 N s "c + k1 + k2" w2] cr by auto
    show ?thesis
    proof (cases body)
      case None
      then show ?thesis using h k1 hb b k2 len by (auto simp: recv_frame_def intro!: exI [of _ "k1 + k2"])
    next
      case (Some bd)
      then show ?thesis using h k1 hb b k2 cr k3 len
        by (auto simp: recv_frame_def split: option.splits intro!: exI [of _ "k1 + k2 + k3"])
    qed
  qed
qed

text \<open>
  C34. The socket loops end whatever the network does: sending \<open>n\<close> bytes takes at most \<open>n\<close> calls of \<open>send\<close>, and receiving a
  frame at most \<open>2^20 + 17\<close> calls of \<open>recv\<close>, however the peer and the network behave.
\<close>

theorem frame_calls_bounded:
  "fst (fst (send_exact (counted N) s data (c, w))) \<le> c + length data \<and>
   fst (fst (recv_frame (counted N) s (c, w))) \<le> c + (2 ^ 20 + 17) \<and>
   snd (recv_frame (counted N) s (c, w)) = snd (recv_frame N s w)"
  using send_loop_counted [of 0 data N s c w] recv_frame_counted [of N s c w] by (auto simp: send_exact_def)

end
