(* ===== verification/Gms_Coordinator_Props.thy ===== *)
theory Gms_Coordinator_Props
  imports Gms_Coordinator Gms_Protocol_Props
begin

text \<open>
  The allocation table of the coordinator over its reachable states, and the fencing of a dead worker.
\<close>

section \<open>The allocation table\<close>

lemma om_map_values:
  "om_find (map (\<lambda>(k, a). (k, f a)) m) i = map_option f (om_find m i)" "map fst (map (\<lambda>(k, a). (k, f a)) m) = map fst m"
  by (induction m) (auto split: prod.splits)

definition coord_inv :: "Coordinator \<Rightarrow> bool" where
  "coord_inv st \<longleftrightarrow> om_ok (co_alloc st) \<and> (co_worker st = INVALID_SOCKET \<longrightarrow> co_worker_boot st = 0) \<and>
     (\<forall>i a. om_find (co_alloc st) i = Some a \<longrightarrow> as_id a = i \<and> as_boot a \<noteq> 0)"

text \<open>
  How one iteration may change the table: an entry is kept, or stops being current because the worker it was made under is
  dead, or is a new one made under the boot of the registered worker.
\<close>

definition table_step :: "Coordinator \<Rightarrow> Coordinator \<Rightarrow> bool" where
  "table_step st st' \<longleftrightarrow>
     (\<forall>i a'. om_find (co_alloc st') i = Some a' \<longrightarrow>
        om_find (co_alloc st) i = Some a' \<or>
        (\<exists>a. om_find (co_alloc st) i = Some a \<and> a' = a\<lparr>as_current := False\<rparr>) \<or>
        as_boot a' = co_worker_boot st' \<and> co_worker st' \<noteq> INVALID_SOCKET) \<and>
     (\<forall>i. om_find (co_alloc st) i \<noteq> None \<longrightarrow> om_find (co_alloc st') i \<noteq> None)"

lemma table_step_same: "co_alloc st' = co_alloc st \<Longrightarrow> table_step st st'"
  by (simp add: table_step_def)

lemma fence_worker_find:
  "om_find (co_alloc (fence_worker st)) i =
     map_option (\<lambda>a. if as_boot a = co_worker_boot st then a\<lparr>as_current := False\<rparr> else a) (om_find (co_alloc st) i)"
  by (simp add: fence_worker_def om_map_values(1))

lemma fence_worker_inv: "coord_inv st \<Longrightarrow> coord_inv (fence_worker st)"
proof -
  assume inv: "coord_inv st"
  have "om_ok (co_alloc (fence_worker st))" using inv unfolding coord_inv_def fence_worker_def by (simp add: om_map_values(2) del: map_map)
  moreover have "as_id a = i \<and> as_boot a \<noteq> 0" if "om_find (co_alloc (fence_worker st)) i = Some a" for i a
    using that inv unfolding fence_worker_find coord_inv_def by (auto split: if_splits)
  moreover have "co_worker_boot (fence_worker st) = 0" by (simp add: fence_worker_def)
  ultimately show ?thesis unfolding coord_inv_def by simp
qed

lemma fence_worker_table: "table_step st (fence_worker st)"
  unfolding table_step_def fence_worker_find by (auto split: if_splits)

lemma accept_phase_effect:
  "co_alloc (fst (accept_phase N ls st w)) = co_alloc st"
  "(co_worker (fst (accept_phase N ls st w)), co_worker_boot (fst (accept_phase N ls st w))) = (co_worker st, co_worker_boot st) \<or>
     co_worker (fst (accept_phase N ls st w)) \<noteq> INVALID_SOCKET"
   apply (simp add: accept_phase_def Let_def split: prod.split option.split rd.split)
  apply (simp add: accept_phase_def Let_def split: prod.split option.split rd.split)
  done

lemma accept_phase_inv: "coord_inv st \<Longrightarrow> accept_phase N ls st w = (st', w', on) \<Longrightarrow> coord_inv st'"
  using accept_phase_effect [of N ls st w] by (auto simp: coord_inv_def)

lemma handle_allocate_effect:
  assumes "coord_inv st" "handle_allocate N st payload w = (st', w')"
  shows "coord_inv st' \<and> table_step st st'"
proof -
  obtain i g b where p: "take3 payload = (i, g, b)" by (cases "take3 payload")
  obtain w1 b1 where s1: "send_frame N (co_worker st) ALLOCATE (append_u64 i @ append_u64 g @ append_u64 b) w = (w1, b1)" by fastforce
  obtain w2 res where r: "recv_frame N (co_worker st) w1 = (w2, res)" by fastforce
  consider "st' = st" | "st' = fence_worker st" | cur where "co_worker st \<noteq> INVALID_SOCKET" "co_worker_boot st \<noteq> 0"
      "st' = st\<lparr>co_alloc := om_assign i \<lparr>as_id = i, as_gen = g, as_boot = co_worker_boot st, as_bytes = b, as_current = cur\<rparr> (co_alloc st)\<rparr>"
  proof (cases "co_worker st = INVALID_SOCKET \<or> co_worker_boot st = 0")
    case True
    then have "st' = st" using assms(2) p by (simp add: handle_allocate_def)
    then show ?thesis using that(1) by simp
  next
    case False
    then have st': "st' = (case res of None \<Rightarrow> fence_worker st | Some rs \<Rightarrow> if fr_type rs \<noteq> ALLOCATE_RESULT then fence_worker st
        else st\<lparr>co_alloc := om_assign i \<lparr>as_id = i, as_gen = g, as_boot = co_worker_boot st, as_bytes = b,
               as_current = (fst (take_result (fr_payload rs)) = 0)\<rparr> (co_alloc st)\<rparr>)"
      using assms(2) p s1 r by (cases res) (simp_all add: handle_allocate_def Let_def split: if_splits prod.splits)
    show ?thesis
    proof (cases "\<exists>rs. res = Some rs \<and> fr_type rs = ALLOCATE_RESULT")
      case True
      then show ?thesis using st' that(3) False by auto
    next
      case False
      then have "st' = fence_worker st" using st' by (auto split: option.splits)
      then show ?thesis using that(2) by simp
    qed
  qed
  then show ?thesis
  proof cases
    case 1
    then show ?thesis using assms(1) by (simp add: table_step_same)
  next
    case 2
    then show ?thesis using assms(1) by (simp add: fence_worker_inv fence_worker_table)
  next
    case 3
    have f: "om_find (co_alloc st') = (om_find (co_alloc st))(i \<mapsto> \<lparr>as_id = i, as_gen = g, as_boot = co_worker_boot st, as_bytes = b, as_current = cur\<rparr>)"
      using 3(3) assms(1) by (simp add: coord_inv_def om_find_assign)
    have "om_ok (co_alloc st')" using 3(3) assms(1) by (simp add: coord_inv_def om_ok_assign)
    then have "coord_inv st'" using f 3 assms(1) unfolding coord_inv_def by (auto split: if_splits)
    moreover have "table_step st st'" using f 3 unfolding table_step_def by (auto split: if_splits)
    ultimately show ?thesis ..
  qed
qed

lemma handle_release_effect: "handle_release N st payload w = (st', w') \<Longrightarrow> st' = st"
  by (auto simp: handle_release_def Let_def split: prod.splits)

lemma controller_request_effect:
  assumes "coord_inv st" "controller_request N ls st w = (st', w', stop)"
  shows "coord_inv st' \<and> table_step st st'"
proof -
  have same: ?thesis if "co_alloc st' = co_alloc st" "co_worker st' = co_worker st" "co_worker_boot st' = co_worker_boot st"
    using that assms(1) by (simp add: coord_inv_def table_step_same)
  obtain w1 r where r: "recv_frame N (co_ctrl st) w = (w1, r)" by (cases "recv_frame N (co_ctrl st) w")
  show ?thesis
  proof (cases r)
    case None
    then have "co_alloc st' = co_alloc st" "co_worker st' = INVALID_SOCKET \<or> co_worker st' = co_worker st" "co_worker_boot st' = co_worker_boot st"
      using assms(2) r by (auto simp: controller_request_def)
    then show ?thesis using None assms(2) r same by (auto simp: controller_request_def)
  next
    case (Some f)
    show ?thesis
    proof (cases "fr_type f = ALLOCATE")
      case True
      then have "handle_allocate N st (fr_payload f) w1 = (st', w')"
        using assms(2) r Some by (simp add: controller_request_def split: prod.splits)
      then show ?thesis by (rule handle_allocate_effect [OF assms(1)])
    next
      case False
      then have "co_alloc st' = co_alloc st \<and> co_worker st' = co_worker st \<and> co_worker_boot st' = co_worker_boot st"
        using assms(2) r Some
        by (cases "fr_type f") (auto simp: controller_request_def handle_query_def Let_def dest: handle_release_effect split: prod.splits)
      then show ?thesis using same by blast
    qed
  qed
qed

lemma coord_iteration_effect:
  assumes "coord_inv st" "coord_iteration N ls st w = (st', w', stop)"
  shows "coord_inv st' \<and> table_step st st'"
proof -
  obtain w1 pr rv where p: "ws_poll N (ls # (if co_ctrl st \<noteq> INVALID_SOCKET then [co_ctrl st] else [])) w = (w1, pr, rv)"
    by (metis prod_cases3)
  obtain s1 w2 on where a: "(if 0 < length rv \<and> rv ! 0 then accept_phase N ls st w1 else (st, w1, True)) = (s1, w2, on)"
    by (metis prod_cases3)
  have s1: "coord_inv s1" "co_alloc s1 = co_alloc st"
    using a accept_phase_inv [OF assms(1), of N ls w1] accept_phase_effect(1) [of N ls st w1] assms(1) by (auto split: if_splits)
  have "st' = st \<or> st' = s1 \<or> controller_request N ls s1 w2 = (st', w', stop)"
    using assms(2) p a by (auto simp: coord_iteration_def Let_def split: if_splits)
  then show ?thesis
  proof (elim disjE)
    assume "controller_request N ls s1 w2 = (st', w', stop)"
    from controller_request_effect [OF s1(1) this] show ?thesis using s1(2) by (simp add: table_step_def)
  qed (use assms(1) s1 in \<open>auto simp: table_step_same\<close>)
qed

text \<open>The states the coordinator can be in at the start of an iteration, whatever the network does.\<close>

inductive coord_reach :: "'w winsock \<Rightarrow> SOCKET \<Rightarrow> Coordinator \<Rightarrow> bool" for N :: "'w winsock" and ls :: SOCKET where
  start: "coord_start N epoch args w = (w', Some (ls, st), out) \<Longrightarrow> coord_reach N ls st"
| iteration: "coord_reach N ls st \<Longrightarrow> coord_iteration N ls st w = (st', w', False) \<Longrightarrow> coord_reach N ls st'"

lemma coord_start_inv: "coord_start N epoch args w = (w', Some (ls, st), out) \<Longrightarrow> coord_inv st"
  by (auto simp: coord_start_def coord_inv_def Let_def split: prod.splits if_splits)

lemma coord_reach_inv: "coord_reach N ls st \<Longrightarrow> coord_inv st"
  by (induction rule: coord_reach.induct) (auto dest: coord_start_inv coord_iteration_effect)

definition demo_coordinator :: Coordinator where
  "demo_coordinator = snd (the (fst (snd (coord_start demo_net 42 [] (\<lambda>_. [])))))"

lemma demo_coord_reach: "coord_reach demo_net 1 demo_coordinator"
  by (rule coord_reach.start [where epoch = 42 and args = "[]" and w = "\<lambda>_. []"])
    (simp add: demo_coordinator_def coord_start_def net_init_def listen_loopback_def demo_net_def INVALID_SOCKET_def Let_def)

text \<open>
  C35. The allocation table is well formed in every reachable state of the coordinator: entries stand under their own identity,
  carry the boot of a worker, and a coordinator without worker has no boot.  No iteration drops an entry or makes an old
  one current again: an entry is kept, fenced, or newly made under the boot of the worker that is registered.
\<close>

theorem coordinator_table:
  assumes "coord_reach N ls st" "coord_iteration N ls st w = (st', w', stop)"
  shows "coord_inv st \<and> coord_inv st' \<and> table_step st st'"
  using coord_reach_inv [OF assms(1)] coord_iteration_effect [OF _ assms(2)] by blast

theorem coordinator_table_witness: "coord_inv (fst (coord_iteration demo_net 1 demo_coordinator (\<lambda>_. [])))"
  using coordinator_table [OF demo_coord_reach] by (metis prod_cases3 fst_conv)

section \<open>Fencing a dead worker\<close>

lemma no_worker_no_release:
  assumes "coord_inv st" "co_worker st = INVALID_SOCKET" "take3 p = (j, h, d)"
  shows "handle_release N st p w =
    (st, fst (send_frame N (co_ctrl st) RELEASE_RESULT (result_payload j h (- 1) ''stale or unknown'') w))"
proof -
  have "\<not> (case om_find (co_alloc st) j of None \<Rightarrow> False | Some a \<Rightarrow> \<not> (as_gen a \<noteq> h \<or> as_boot a \<noteq> co_worker_boot st))"
    using assms(1,2) by (auto simp: coord_inv_def split: option.splits)
  then show ?thesis using assms(3) by (simp add: handle_release_def Let_def)
qed

text \<open>
  C36. A worker that dies is fenced: when the reply to an ALLOCATE does not arrive or is not an ALLOCATE_RESULT, the worker
  is dropped, the controller is told, nothing allocated under that boot is current any more, other entries are as before, and
  every RELEASE is answered as stale without any worker being asked.
\<close>

theorem dead_worker_fenced:
  assumes "coord_inv st" "co_worker st \<noteq> INVALID_SOCKET" "co_worker_boot st \<noteq> 0" "take3 payload = (i, g, b)"
    "send_frame N (co_worker st) ALLOCATE (append_u64 i @ append_u64 g @ append_u64 b) w = (w1, sent)"
    "recv_frame N (co_worker st) w1 = (w2, res)" "\<forall>f. res = Some f \<longrightarrow> fr_type f \<noteq> ALLOCATE_RESULT"
    "handle_allocate N st payload w = (st', w')"
  shows "co_worker st' = INVALID_SOCKET \<and>
    w' = fst (send_frame N (co_ctrl st) ALLOCATE_RESULT (result_payload i g 0xFFFFFFF6 ''worker dead'')
           (shutdown_sock N (co_worker st) w2)) \<and>
    (\<forall>k a. om_find (co_alloc st) k = Some a \<longrightarrow> om_find (co_alloc st') k =
       Some (if as_boot a = co_worker_boot st then a\<lparr>as_current := False\<rparr> else a)) \<and>
    (\<forall>p j h d v. take3 p = (j, h, d) \<longrightarrow> handle_release N st' p v =
       (st', fst (send_frame N (co_ctrl st') RELEASE_RESULT (result_payload j h (- 1) ''stale or unknown'') v)))"
proof -
  have "handle_allocate N st payload w = (fence_worker st, fst (send_frame N (co_ctrl st) ALLOCATE_RESULT
      (result_payload i g 0xFFFFFFF6 ''worker dead'') (shutdown_sock N (co_worker st) w2)))"
    using assms(2-7) by (cases res) (simp_all add: handle_allocate_def Let_def)
  then have st': "st' = fence_worker st" and w': "w' = fst (send_frame N (co_ctrl st) ALLOCATE_RESULT
      (result_payload i g 0xFFFFFFF6 ''worker dead'') (shutdown_sock N (co_worker st) w2))" using assms(8) by simp_all
  have gone: "co_worker st' = INVALID_SOCKET" unfolding st' by (simp add: fence_worker_def)
  have inv: "coord_inv st'" unfolding st' using assms(1) by (rule fence_worker_inv)
  have table: "\<forall>k a. om_find (co_alloc st) k = Some a \<longrightarrow> om_find (co_alloc st') k =
       Some (if as_boot a = co_worker_boot st then a\<lparr>as_current := False\<rparr> else a)"
    unfolding st' by (simp add: fence_worker_find)
  show ?thesis by (intro conjI gone w' table allI impI no_worker_no_release [OF inv gone])
qed

theorem dead_worker_fenced_witness:
  "as_current (the (om_find (co_alloc (fst (handle_allocate demo_net
     \<lparr>co_ctrl = 1, co_worker = 2, co_worker_boot = 9, co_alloc = [(5, \<lparr>as_id = 5, as_gen = 1, as_boot = 9, as_bytes = 64, as_current = True\<rparr>)],
      co_out = []\<rparr> (append_u64 6 @ append_u64 1 @ append_u64 32) (\<lambda>_. [])))) 5)) = False"
proof -
  let ?st = "\<lparr>co_ctrl = 1, co_worker = 2, co_worker_boot = 9,
    co_alloc = [(5, \<lparr>as_id = 5, as_gen = 1, as_boot = 9, as_bytes = 64, as_current = True\<rparr>)], co_out = []\<rparr>"
  let ?p = "append_u64 6 @ append_u64 1 @ append_u64 32" let ?w = "\<lambda>_ :: SOCKET. [] :: u8 list"
  have inv: "coord_inv ?st" by (simp add: coord_inv_def INVALID_SOCKET_def)
  have t: "take3 ?p = (6, 1, 32)" by (simp add: take3_def take_or_def c64.roundtrip c64.exact)
  obtain w1 sent where s: "send_frame demo_net 2 ALLOCATE ?p ?w = (w1, sent)" by fastforce
  obtain w2 res where r: "recv_frame demo_net 2 w1 = (w2, res)" by fastforce
  have keep: "fst (send_loop demo_net s data k v) = v" for s data k v
    by (induction demo_net s data k v rule: send_loop.induct) (simp add: send_loop.simps demo_net_def)
  have "w1 = ?w" using arg_cong [OF s, of fst] by (simp add: send_frame_def send_exact_def keep)
  then have "res = None" using r demo_net.recv_frame_stream [of 2 w1] by (simp add: decode_frame_def)
  obtain st' w' where h: "handle_allocate demo_net ?st ?p ?w = (st', w')" by fastforce
  have "om_find (co_alloc st') 5 = Some \<lparr>as_id = 5, as_gen = 1, as_boot = 9, as_bytes = 64, as_current = False\<rparr>"
    using dead_worker_fenced [OF inv _ _ t, of demo_net ?w w1 sent w2 res st' w'] s r h \<open>res = None\<close> by (simp add: INVALID_SOCKET_def)
  then show ?thesis using h by simp
qed

end
