(* ===== verification/Gms_Worker.thy ===== *)
theory Gms_Worker
  imports Gms_Coordinator
begin

text \<open>
  The worker process (\<^verbatim>\<open>worker/worker.cpp\<close>), over a network and a CUDA runtime.  The payloads are those of the
  coordinator.
\<close>

section \<open>The CUDA runtime\<close>

text \<open>
  The calls the worker makes, on the state \<open>'w\<close>: the error code and the pointer of \<open>cudaMalloc\<close> (\<open>cudaSuccess\<close> is 0, a
  null pointer 0), what \<open>cudaMemGetInfo\<close> and \<open>cudaGetDeviceProperties\<close> leave in their results.
\<close>

record 'w cuda =
  cu_malloc :: "u64 \<Rightarrow> 'w \<Rightarrow> 'w \<times> int \<times> u64"
  cu_free :: "u64 \<Rightarrow> 'w \<Rightarrow> 'w"
  cu_mem_get_info :: "'w \<Rightarrow> 'w \<times> u64 \<times> u64"
  cu_device_name :: "'w \<Rightarrow> 'w \<times> string"
  cu_error_string :: "int \<Rightarrow> string"

section \<open>State\<close>

text \<open>From the process id (a \<open>DWORD\<close>) and the tick count.\<close>

definition fresh_boot :: "u32 \<Rightarrow> u64 \<Rightarrow> u64" where
  "fresh_boot pid t = push_bit 32 (ucast pid) OR (t AND 0xFFFFFFFF)"

record Alloc =
  al_gen :: u64
  al_bytes :: u64
  al_ptr :: u64

type_synonym worker_allocs = "(u64, Alloc) omap"

section \<open>Start\<close>

definition worker_start ::
  "'w winsock \<Rightarrow> 'w cuda \<Rightarrow> u32 \<Rightarrow> u64 \<Rightarrow> string list \<Rightarrow> 'w \<Rightarrow> 'w \<times> SOCKET option \<times> string list" where
  "worker_start N C pid tick args w =
    (if length args < 3 then (w, None, [''usage: worker <host> <port> <name>''])
     else
       let (w, _) = net_init N w;
           port = atoi (args ! 2);
           name = (if length args > 3 then c_str (args ! 3) else ''worker'');
           boot = fresh_boot pid tick;
           (w, _, warm) = cu_malloc C 1024 w;
           w = (if warm \<noteq> 0 then cu_free C warm w else w);
           (w, s, _) = connect_loopback N port w in
       if s = INVALID_SOCKET then (w, None, [''worker: connect failed''])
       else
         let (w, _) = send_frame N s HELLO (pack_u8 2) w;
             (w, _) = send_frame N s REGISTER (append_str name @ append_u64 boot @ append_u64 (ucast pid)) w;
             (w, freeb, totalb) = cu_mem_get_info C w;
             (w, dev) = cu_device_name C w;
             (w, _) = send_frame N s PUBLISH_CAPACITY (append_u64 freeb @ append_u64 totalb @ append_str (c_str dev)) w in
         (w, Some s, [''WORKER_PUBLISH boot='' @ show_word boot @ '' free='' @ show_word freeb @ '' total='' @ show_word totalb @
                      '' dev='' @ c_str dev]))"

section \<open>Requests\<close>

definition worker_allocate :: "'w winsock \<Rightarrow> 'w cuda \<Rightarrow> SOCKET \<Rightarrow> worker_allocs \<Rightarrow> u8 list \<Rightarrow> 'w \<Rightarrow> worker_allocs \<times> 'w" where
  "worker_allocate N C s allocs payload w =
    (let (i, gen, bytes) = take3 payload;
         (w, err, ptr) = cu_malloc C bytes w;
         (allocs, status, e) =
           (if err \<noteq> 0 then (allocs, - 1, cu_error_string C err)
            else (om_assign i \<lparr>al_gen = gen, al_bytes = bytes, al_ptr = ptr\<rparr> allocs, 0, ''''))
     in (allocs, fst (send_frame N s ALLOCATE_RESULT (result_payload i gen status e) w)))"

definition worker_release :: "'w winsock \<Rightarrow> 'w cuda \<Rightarrow> SOCKET \<Rightarrow> worker_allocs \<Rightarrow> u8 list \<Rightarrow> 'w \<Rightarrow> worker_allocs \<times> 'w" where
  "worker_release N C s allocs payload w =
    (let (i, gen, bootv) = take3 payload;
         stale = (\<lambda>w. (w, allocs, - 1, ''stale or unknown''));
         (w, allocs, status, e) =
           (case om_find allocs i of
              None \<Rightarrow> stale w
            | Some a \<Rightarrow> if al_gen a \<noteq> gen then stale w else (cu_free C (al_ptr a) w, om_erase i allocs, 0, ''''))
     in (allocs, fst (send_frame N s RELEASE_RESULT (result_payload i gen status e) w)))"

text \<open>One round of the loop of \<open>main\<close>; the lines printed and whether \<open>main\<close> returns come last.\<close>

definition worker_iteration ::
  "'w winsock \<Rightarrow> 'w cuda \<Rightarrow> SOCKET \<Rightarrow> worker_allocs \<Rightarrow> 'w \<Rightarrow> worker_allocs \<times> 'w \<times> string list \<times> bool" where
  "worker_iteration N C s allocs w =
    (case recv_frame N s w of
       (w, None) \<Rightarrow> (allocs, w, [''WORKER_DISCONNECT''], True)
     | (w, Some f) \<Rightarrow>
        (case fr_type f of
           ALLOCATE \<Rightarrow> (case worker_allocate N C s allocs (fr_payload f) w of (allocs, w) \<Rightarrow> (allocs, w, [], False))
         | RELEASE \<Rightarrow> (case worker_release N C s allocs (fr_payload f) w of (allocs, w) \<Rightarrow> (allocs, w, [], False))
         | SHUTDOWN \<Rightarrow> (allocs, foldl (\<lambda>w kv. cu_free C (al_ptr (snd kv)) w) w allocs, [], True)
         | _ \<Rightarrow> (allocs, w, [], False)))"

end
