(* ===== verification/Gms_System.thy ===== *)
theory Gms_System
  imports Gms_Coordinator_Props Gms_Worker
begin

text \<open>
  Coordinator and worker together.  Each process runs on its own machine; the network and the CUDA runtime are parameters.  The locales
  state what is relied on: \<open>connected\<close> extends \<open>stream_socket\<close> by what \<open>send\<close> does on a connection that is up,
  \<open>coordinator_host\<close> has the two connections of the coordinator, \<open>worker_host\<close> the connection and the device of the worker.  What
  each process does with one message is proved under its own locale; the two meet only in the assumption that, over the whole exchange,
  each reads what the other sends (\<open>delivered\<close>), in whatever pieces and at whatever time.
\<close>

section \<open>Connections\<close>

text \<open>A view of the machine that \<open>recv\<close> or \<open>send\<close> on a socket does not change.\<close>

definition recv_keeps :: "'w winsock \<Rightarrow> SOCKET \<Rightarrow> ('w \<Rightarrow> 'v) \<Rightarrow> bool" where
  "recv_keeps N s view \<longleftrightarrow> (\<forall>n w. view (fst (ws_recv N s n w)) = view w)"

definition send_keeps :: "'w winsock \<Rightarrow> SOCKET \<Rightarrow> ('w \<Rightarrow> 'v) \<Rightarrow> bool" where
  "send_keeps N s view \<longleftrightarrow> (\<forall>data n w. view (fst (ws_send N s data n w)) = view w)"

lemma recv_loop_keeps: "recv_keeps N s view \<Longrightarrow> view (fst (recv_loop N s n got w)) = view w"
proof (induction N s n got w rule: recv_loop.induct)
  case (1 N s n got w)
  obtain w' r where r: "ws_recv N s (size_int (n - length got)) w = (w', r)" by fastforce
  then have "view w' = view w" using 1(2) unfolding recv_keeps_def by (metis fst_conv)
  then show ?case using 1 r by (subst recv_loop.simps) auto
qed

lemma recv_frame_keeps: "recv_keeps N s view \<Longrightarrow> view (fst (recv_frame N s w)) = view w"
proof -
  assume k: "recv_keeps N s view"
  have e: "view w' = view w" if "recv_exact N s n w = (w', x)" for n w w' x
    using recv_loop_keeps [OF k, of n "[]" w] that by (simp add: recv_exact_def)
  show ?thesis unfolding recv_frame_def by (auto split: prod.split option.split dest!: e)
qed

lemma send_loop_keeps: "send_keeps N s view \<Longrightarrow> view (fst (send_loop N s data n w)) = view w"
proof (induction N s data n w rule: send_loop.induct)
  case (1 N s data n w)
  obtain w' r where r: "ws_send N s (drop n data) (size_int (length data - n)) w = (w', r)" by fastforce
  then have "view w' = view w" using 1(2) unfolding send_keeps_def by (metis fst_conv)
  then show ?case using 1 r by (subst send_loop.simps) auto
qed

lemma send_frame_keeps: "send_keeps N s view \<Longrightarrow> view (fst (send_frame N s m p w)) = view w"
  by (simp add: send_frame_def send_exact_def send_loop_keeps)

text \<open>
  A connection that is up: \<open>sent\<close> is what has been handed to the socket so far; \<open>send\<close> takes at least one of the bytes offered
  and at most as many as asked, in order, and never anything else; it takes nothing from the bytes to come, and \<open>recv\<close> sends nothing.
\<close>

locale connected = stream_socket +
  fixes sent :: "'a \<Rightarrow> u8 list"
  assumes send_some: "0 < n \<Longrightarrow> n \<le> int (length data) \<Longrightarrow>
      \<exists>k. 0 < k \<and> int k \<le> n \<and> snd (ws_send N s data n w) = int k \<and> sent (fst (ws_send N s data n w)) = sent w @ take k data"
    and send_appends: "\<exists>k. sent (fst (ws_send N s data n w)) = sent w @ take k data"
    and send_reads_none: "send_keeps N s incoming"
    and recv_sends_none: "recv_keeps N s sent"
begin

lemma send_loop_whole:
  "i \<le> length data \<Longrightarrow> length data < 2 ^ 31 \<Longrightarrow>
    snd (send_loop N s data i w) \<and> sent (fst (send_loop N s data i w)) = sent w @ drop i data"
proof (induction "length data - i" arbitrary: i w rule: less_induct)
  case less
  show ?case
  proof (cases "i < length data")
    case True
    have n: "size_int (length data - i) = int (length data - i)" using less.prems by (intro size_int_id) simp
    obtain k where k: "0 < k" "int k \<le> int (length data - i)" "snd (ws_send N s (drop i data) (size_int (length data - i)) w) = int k"
      "sent (fst (ws_send N s (drop i data) (size_int (length data - i)) w)) = sent w @ take k (drop i data)"
      using send_some [of "size_int (length data - i)" "drop i data" w] True n by auto
    obtain w' r where r: "ws_send N s (drop i data) (size_int (length data - i)) w = (w', r)" by fastforce
    then have step: "send_loop N s data i w = send_loop N s data (i + k) w'" using True k by (subst send_loop.simps) simp
    have "take k (drop i data) @ drop (i + k) data = drop i data" by (metis append_take_drop_id drop_drop add.commute)
    moreover have "snd (send_loop N s data (i + k) w') \<and> sent (fst (send_loop N s data (i + k) w')) = sent w' @ drop (i + k) data"
      using k(1,2) True less.prems by (intro less.hyps) simp_all
    ultimately show ?thesis using k(4) r by (simp add: step)
  next
    case False
    then show ?thesis using less.prems by (subst send_loop.simps) (simp add: send_loop.simps)
  qed
qed

lemma send_frame_sent: "length p \<le> 2 ^ 20 \<Longrightarrow> sent (fst (send_frame N s m p w)) = sent w @ encode_frame m p"
  using send_loop_whole [of 0 "encode_frame m p" w] by (simp add: send_frame_def send_exact_def)

lemma send_frame_incoming: "incoming (fst (send_frame N s m p w)) = incoming w"
  by (rule send_frame_keeps [OF send_reads_none])

lemma recv_frame_sent: "sent (fst (recv_frame N s w)) = sent w"
  by (rule recv_frame_keeps [OF recv_sends_none])

lemma send_loop_grows: "\<exists>x. sent (fst (send_loop N s data i w)) = sent w @ x"
proof (induction "length data - i" arbitrary: i w rule: less_induct)
  case less
  obtain w' r where r: "ws_send N s (drop i data) (size_int (length data - i)) w = (w', r)" by fastforce
  then obtain k where k: "sent w' = sent w @ take k (drop i data)" using send_appends [of "drop i data" "size_int (length data - i)" w] by auto
  show ?case
  proof (cases "i < length data \<and> 0 < r")
    case True
    then have "length data - (i + nat r) < length data - i" by linarith
    then obtain x where "sent (fst (send_loop N s data (i + nat r) w')) = sent w' @ x" using less.hyps by blast
    then show ?thesis using True r k by (subst send_loop.simps) auto
  next
    case False
    then show ?thesis using r k by (subst send_loop.simps) auto
  qed
qed

text \<open>The next frame, when its bytes come first.\<close>

lemma recv_next:
  assumes "incoming w = encode_frame m p @ rest" "msg_ok m" "length p \<le> 2 ^ 20"
  shows "snd (recv_frame N s w) = Some \<lparr>fr_type = m, fr_payload = p\<rparr>" "incoming (fst (recv_frame N s w)) = rest"
proof -
  have "decode_frame (incoming w) = Some (length p + 17, \<lparr>fr_type = m, fr_payload = p\<rparr>)"
    using assms by (simp add: decode_encoded)
  then show "snd (recv_frame N s w) = Some \<lparr>fr_type = m, fr_payload = p\<rparr>" "incoming (fst (recv_frame N s w)) = rest"
    using recv_frame_stream [of w] assms(1) by (simp_all add: incoming_skip)
qed

end

section \<open>Messages\<close>

abbreviation three :: "u64 \<Rightarrow> u64 \<Rightarrow> u64 \<Rightarrow> u8 list" where
  "three i g b \<equiv> append_u64 i @ append_u64 g @ append_u64 b"

lemma take3_pack [simp]: "take3 (three a b c) = (a, b, c)"
  by (simp add: take3_def take_or_def c64.roundtrip c64.exact)

lemma take_result_pack [simp]: "str_ok e \<Longrightarrow> take_result (result_payload i g st e) = (st, e)"
  by (simp add: take_result_def result_payload_def take_or_def c64.roundtrip c32.roundtrip cstr.exact)

lemma length_result [simp]: "length (result_payload i g st e) = 24 + length e"
  by (simp add: result_payload_def append_str_def)

lemma msg_ok_used [simp]: "msg_ok ALLOCATE" "msg_ok RELEASE" "msg_ok ALLOCATE_RESULT" "msg_ok RELEASE_RESULT"
  by (simp_all add: msg_ok_def Msg_of_code_def)

section \<open>The coordinator\<close>

text \<open>An allocation that the coordinator would ask the worker to release.\<close>

abbreviation releasable :: "Coordinator \<Rightarrow> u64 \<Rightarrow> u64 \<Rightarrow> bool" where
  "releasable st i g \<equiv> \<exists>a. om_find (co_alloc st) i = Some a \<and> as_gen a = g \<and> as_boot a = co_worker_boot st"

text \<open>After an ALLOCATE the worker's socket is as it was, or gone and with it every allocation that could be released.\<close>

lemma allocate_sockets:
  assumes "coord_inv st" "handle_allocate N st p w = (st', w')"
  shows "co_ctrl st' = co_ctrl st"
    "co_worker st' = co_worker st \<or> (\<forall>i a. om_find (co_alloc st') i = Some a \<longrightarrow> as_boot a \<noteq> co_worker_boot st')"
proof -
  have *: "co_ctrl st' = co_ctrl st \<and> (co_worker st' = co_worker st \<or> co_worker st' = INVALID_SOCKET)"
    using assms(2) by (auto simp: handle_allocate_def Let_def fence_worker_def split: prod.splits option.splits if_splits)
  then show "co_ctrl st' = co_ctrl st" by simp
  have "coord_inv st'" using handle_allocate_effect [OF assms] by simp
  then show "co_worker st' = co_worker st \<or> (\<forall>i a. om_find (co_alloc st') i = Some a \<longrightarrow> as_boot a \<noteq> co_worker_boot st')"
    using * by (auto simp: coord_inv_def)
qed

text \<open>
  The machine of the coordinator: a connection to the worker and one to the controller, each untouched by calls on the other;
  closing a socket does not undo what was sent.
\<close>

locale coordinator_host =
  wk: connected N ws inW skipW sentW + ct: connected N cs inC skipC sentC
  for N :: "'w winsock" and ws inW skipW sentW cs inC skipC sentC +
  assumes worker_apart: "send_keeps N ws sentC" "recv_keeps N ws sentC"
    and ctrl_apart: "send_keeps N cs inW" "send_keeps N cs sentW"
    and close_keeps: "sentW (ws_closesocket N x (ws_shutdown N x w)) = sentW w"
begin

lemma to_ctrl: "inW (fst (send_frame N cs m p w)) = inW w" "sentW (fst (send_frame N cs m p w)) = sentW w"
  by (rule send_frame_keeps [OF ctrl_apart(1)]) (rule send_frame_keeps [OF ctrl_apart(2)])

lemma to_worker: "sentC (fst (send_frame N ws m p w)) = sentC w" "sentC (fst (recv_frame N ws w)) = sentC w"
  by (rule send_frame_keeps [OF worker_apart(1)]) (rule recv_frame_keeps [OF worker_apart(2)])

lemma shutdown_sent: "sentW (shutdown_sock N x w) = sentW w"
  by (simp add: shutdown_sock_def close_keeps)

text \<open>What goes to the worker does not depend on what comes back.\<close>

lemma allocate_sends:
  assumes "co_worker st = ws" "co_ctrl st = cs" "ws \<noteq> INVALID_SOCKET" "co_worker_boot st \<noteq> 0"
  shows "sentW (snd (handle_allocate N st (three i g b) w)) = sentW w @ encode_frame ALLOCATE (three i g b)"
proof -
  obtain w1 z where s: "send_frame N ws ALLOCATE (three i g b) w = (w1, z)" by fastforce
  obtain w2 res where r: "recv_frame N ws w1 = (w2, res)" by fastforce
  have "sentW w2 = sentW w @ encode_frame ALLOCATE (three i g b)"
    using wk.send_frame_sent [of "three i g b" ALLOCATE w] wk.recv_frame_sent [of w1] s r by simp
  then show ?thesis using assms s r
    by (cases res) (auto simp: handle_allocate_def Let_def to_ctrl shutdown_sent split: prod.split)
qed

lemma release_sends:
  assumes "co_ctrl st = cs" "co_worker st = ws \<or> (\<forall>i a. om_find (co_alloc st) i = Some a \<longrightarrow> as_boot a \<noteq> co_worker_boot st)"
  shows "sentW (snd (handle_release N st (three i g b) w)) = sentW w @ (if releasable st i g then encode_frame RELEASE (three i g b) else [])"
proof -
  obtain w1 z where s: "send_frame N ws RELEASE (three i g b) w = (w1, z)" by fastforce
  obtain w2 res where r: "recv_frame N ws w1 = (w2, res)" by fastforce
  have w2: "sentW w2 = sentW w @ encode_frame RELEASE (three i g b)"
    using wk.send_frame_sent [of "three i g b" RELEASE w] wk.recv_frame_sent [of w1] s r by simp
  show ?thesis
  proof (cases "releasable st i g")
    case True
    then have "co_worker st = ws" using assms(2) by auto
    then show ?thesis using True assms(1) s r w2
      by (cases res) (auto simp: handle_release_def Let_def to_ctrl split: prod.split)
  next
    case False
    then show ?thesis using assms
      by (auto simp: handle_release_def Let_def to_ctrl split: prod.split option.split)
  qed
qed

lemma exchange_sends:
  assumes "coord_inv st" "co_worker st = ws" "co_ctrl st = cs" "co_worker_boot st \<noteq> 0"
    "handle_allocate N st (three i g b) w = (st1, w1)" "handle_release N st1 (three i g x) w1 = (st2, w2)"
    "handle_release N st2 (three i g y) w2 = (st3, w3)"
  shows "sentW w3 = sentW w @ encode_frame ALLOCATE (three i g b) @
    (if releasable st1 i g then encode_frame RELEASE (three i g x) @ encode_frame RELEASE (three i g y) else [])"
proof -
  have ws: "ws \<noteq> INVALID_SOCKET" using assms(1,2,4) by (auto simp: coord_inv_def)
  have st2: "st2 = st1" by (rule handle_release_effect [OF assms(6)])
  note sock = allocate_sockets [OF assms(1,5), unfolded assms(2,3)]
  have "sentW w1 = sentW w @ encode_frame ALLOCATE (three i g b)"
    using allocate_sends [OF assms(2,3) ws assms(4), of i g b w] assms(5) by simp
  moreover have "sentW w2 = sentW w1 @ (if releasable st1 i g then encode_frame RELEASE (three i g x) else [])"
    "sentW w3 = sentW w2 @ (if releasable st1 i g then encode_frame RELEASE (three i g y) else [])"
    using release_sends [OF sock, of i g x w1] release_sends [OF sock, of i g y w2] assms(6,7) st2 by (simp_all only: snd_conv)
  ultimately show ?thesis by (cases "releasable st1 i g") auto
qed

text \<open>The whole call, when the worker's reply comes.\<close>

lemma allocate_replied:
  assumes "co_worker st = ws" "co_ctrl st = cs" "ws \<noteq> INVALID_SOCKET" "co_worker_boot st \<noteq> 0"
    "inW w = encode_frame ALLOCATE_RESULT (result_payload i g status e) @ rest" "length e \<le> 2 ^ 19"
    "handle_allocate N st (three i g b) w = (st', w')"
  shows "st' = st\<lparr>co_alloc := om_assign i \<lparr>as_id = i, as_gen = g, as_boot = co_worker_boot st, as_bytes = b, as_current = (status = 0)\<rparr> (co_alloc st)\<rparr>"
    "inW w' = rest" "sentC w' = sentC w @ encode_frame ALLOCATE_RESULT (result_payload i g status e)"
proof -
  obtain w1 z where s: "send_frame N ws ALLOCATE (three i g b) w = (w1, z)" by fastforce
  have w1: "inW w1 = encode_frame ALLOCATE_RESULT (result_payload i g status e) @ rest" "sentC w1 = sentC w"
    using wk.send_frame_incoming [of ALLOCATE "three i g b" w] to_worker(1) [of ALLOCATE "three i g b" w] s assms(5) by simp_all
  obtain w2 res where r: "recv_frame N ws w1 = (w2, res)" by fastforce
  have len: "length (result_payload i g status e) \<le> 2 ^ 20" "str_ok e" using assms(6) by simp_all
  have w2: "res = Some \<lparr>fr_type = ALLOCATE_RESULT, fr_payload = result_payload i g status e\<rparr>" "inW w2 = rest" "sentC w2 = sentC w"
    using wk.recv_next [OF w1(1) _ len(1)] to_worker(2) [of w1] r w1(2) by simp_all
  have "st' = st\<lparr>co_alloc := om_assign i \<lparr>as_id = i, as_gen = g, as_boot = co_worker_boot st, as_bytes = b, as_current = (status = 0)\<rparr> (co_alloc st)\<rparr> \<and>
      w' = fst (send_frame N cs ALLOCATE_RESULT (result_payload i g status e) w2)"
    using assms(1-4,7) s r w2(1) len(2) by (auto simp: handle_allocate_def)
  then show "st' = st\<lparr>co_alloc := om_assign i \<lparr>as_id = i, as_gen = g, as_boot = co_worker_boot st, as_bytes = b, as_current = (status = 0)\<rparr> (co_alloc st)\<rparr>"
    "inW w' = rest" "sentC w' = sentC w @ encode_frame ALLOCATE_RESULT (result_payload i g status e)"
    using w2 to_ctrl(1) ct.send_frame_sent [OF len(1)] by simp_all
qed

lemma release_replied:
  assumes "co_worker st = ws" "co_ctrl st = cs" "releasable st i g"
    "inW w = encode_frame RELEASE_RESULT (result_payload i g status e) @ rest" "length e \<le> 2 ^ 19"
    "handle_release N st (three i g b) w = (st', w')"
  shows "st' = st" "inW w' = rest" "sentC w' = sentC w @ encode_frame RELEASE_RESULT (result_payload i g status e)"
proof -
  obtain w1 z where s: "send_frame N ws RELEASE (three i g b) w = (w1, z)" by fastforce
  have w1: "inW w1 = encode_frame RELEASE_RESULT (result_payload i g status e) @ rest" "sentC w1 = sentC w"
    using wk.send_frame_incoming [of RELEASE "three i g b" w] to_worker(1) [of RELEASE "three i g b" w] s assms(4) by simp_all
  obtain w2 res where r: "recv_frame N ws w1 = (w2, res)" by fastforce
  have len: "length (result_payload i g status e) \<le> 2 ^ 20" "str_ok e" using assms(5) by simp_all
  have w2: "res = Some \<lparr>fr_type = RELEASE_RESULT, fr_payload = result_payload i g status e\<rparr>" "inW w2 = rest" "sentC w2 = sentC w"
    using wk.recv_next [OF w1(1) _ len(1)] to_worker(2) [of w1] r w1(2) by simp_all
  have "st' = st \<and> w' = fst (send_frame N cs RELEASE_RESULT (result_payload i g status e) w2)"
    using assms(1-3,6) s r w2(1) len(2) by (auto simp: handle_release_def)
  then show "st' = st" "inW w' = rest" "sentC w' = sentC w @ encode_frame RELEASE_RESULT (result_payload i g status e)"
    using w2 to_ctrl(1) ct.send_frame_sent [OF len(1)] by simp_all
qed

end

section \<open>The worker\<close>

text \<open>
  The machine of the worker: its connection and its device.  \<open>dev\<close> is the state of the device, on which the runtime \<open>C\<close> acts as the
  device \<open>D\<close> does; socket calls do not touch the device, CUDA calls do not touch the connection.
\<close>

locale worker_host = connected +
  fixes C :: "'a cuda" and dev :: "'a \<Rightarrow> 'd" and D :: "'d cuda"
  assumes socket_apart: "send_keeps N s dev" "recv_keeps N s dev"
    and malloc_dev: "cu_malloc C n w = (w', err, ptr) \<Longrightarrow>
      cu_malloc D n (dev w) = (dev w', err, ptr) \<and> incoming w' = incoming w \<and> sent w' = sent w"
    and free_dev: "dev (cu_free C p w) = cu_free D p (dev w)" "incoming (cu_free C p w) = incoming w" "sent (cu_free C p w) = sent w"
    and error_dev: "cu_error_string C = cu_error_string D"
begin

lemma frame_dev: "dev (fst (send_frame N s m p w)) = dev w" "dev (fst (recv_frame N s w)) = dev w"
  by (rule send_frame_keeps [OF socket_apart(1)]) (rule recv_frame_keeps [OF socket_apart(2)])

lemma reply_state:
  assumes "length p \<le> 2 ^ 20" "w' = fst (send_frame N s m p w)"
  shows "incoming w' = incoming w" "sent w' = sent w @ encode_frame m p" "dev w' = dev w"
  using assms by (simp_all add: send_frame_incoming send_frame_sent frame_dev)

text \<open>A round of the worker only adds to what it has sent.\<close>

lemma frees_sent: "sent (foldl (\<lambda>w kv. cu_free C (al_ptr (snd kv)) w) w xs) = sent w"
  by (induction xs arbitrary: w) (simp_all add: free_dev)

lemma iteration_grows:
  assumes "worker_iteration N C s allocs w = (allocs', w', lines, stop)"
  shows "\<exists>x. sent w' = sent w @ x"
proof -
  obtain w1 res where r: "recv_frame N s w = (w1, res)" by fastforce
  have w1: "sent w1 = sent w" using recv_frame_sent [of w] r by simp
  have grow: "\<exists>x. sent (fst (send_frame N s m p v)) = sent v @ x" for m p v
    by (simp add: send_frame_def send_exact_def send_loop_grows)
  have alloc: "\<exists>x. sent (snd (worker_allocate N C s allocs p w1)) = sent w1 @ x" for p
  proof -
    obtain i g b where t: "take3 p = (i, g, b)" by (metis prod_cases3)
    obtain w2 err ptr where m: "cu_malloc C b w1 = (w2, err, ptr)" by (metis prod_cases3)
    have "sent w2 = sent w1" using malloc_dev [OF m] by simp
    then show ?thesis using grow [of _ _ w2] t m by (auto simp: worker_allocate_def)
  qed
  have release: "\<exists>x. sent (snd (worker_release N C s allocs p w1)) = sent w1 @ x" for p
  proof -
    obtain i g b where t: "take3 p = (i, g, b)" by (metis prod_cases3)
    have "\<exists>x. sent (fst (send_frame N s m q (cu_free C ptr w1))) = sent w1 @ x" for m q ptr
      using grow [of m q "cu_free C ptr w1"] by (simp add: free_dev)
    then show ?thesis using grow [of _ _ w1] t by (auto simp: worker_release_def Let_def split: option.splits)
  qed
  show ?thesis
  proof (cases res)
    case None
    then show ?thesis using assms r w1 by (simp add: worker_iteration_def)
  next
    case (Some f)
    then show ?thesis using assms r w1 alloc [of "fr_payload f"] release [of "fr_payload f"] frees_sent [of w1 allocs]
      by (auto simp: worker_iteration_def split: Msg.splits prod.splits)
  qed
qed

text \<open>A round that finds a request.\<close>

lemma iteration_allocate:
  assumes "incoming w = encode_frame ALLOCATE (three i g b) @ rest" "cu_malloc D b (dev w) = (d, err, ptr)"
    "err = 0 \<or> length (cu_error_string D err) \<le> 2 ^ 19" "worker_iteration N C s allocs w = (allocs', w', lines, stop)"
  shows "allocs' = (if err = 0 then om_assign i \<lparr>al_gen = g, al_bytes = b, al_ptr = ptr\<rparr> allocs else allocs)" "incoming w' = rest"
    "sent w' = sent w @ encode_frame ALLOCATE_RESULT
       (result_payload i g (if err = 0 then 0 else - 1) (if err = 0 then '''' else cu_error_string D err))"
    "dev w' = d" "\<not> stop"
proof -
  obtain w1 res where r: "recv_frame N s w = (w1, res)" by fastforce
  have w1: "res = Some \<lparr>fr_type = ALLOCATE, fr_payload = three i g b\<rparr>" "incoming w1 = rest" "sent w1 = sent w" "dev w1 = dev w"
    using recv_next [OF assms(1)] recv_frame_sent [of w] frame_dev(2) [of w] r by simp_all
  obtain w2 err' ptr' where m: "cu_malloc C b w1 = (w2, err', ptr')" by (metis prod_cases3)
  then have w2: "dev w2 = d" "err' = err" "ptr' = ptr" "incoming w2 = rest" "sent w2 = sent w"
    using malloc_dev [OF m] assms(2) w1 by simp_all
  let ?p = "result_payload i g (if err = 0 then 0 else - 1) (if err = 0 then '''' else cu_error_string D err)"
  have p: "length ?p \<le> 2 ^ 20" using assms(3) by auto
  have "allocs' = (if err = 0 then om_assign i \<lparr>al_gen = g, al_bytes = b, al_ptr = ptr\<rparr> allocs else allocs) \<and>
      w' = fst (send_frame N s ALLOCATE_RESULT ?p w2) \<and> \<not> stop"
    using assms(4) r w1(1) m w2(2,3) by (cases "err = 0") (auto simp: worker_iteration_def worker_allocate_def error_dev)
  then show "allocs' = (if err = 0 then om_assign i \<lparr>al_gen = g, al_bytes = b, al_ptr = ptr\<rparr> allocs else allocs)" "incoming w' = rest"
    "sent w' = sent w @ encode_frame ALLOCATE_RESULT ?p" "dev w' = d" "\<not> stop"
    using reply_state [OF p, of w' ALLOCATE_RESULT w2] w2 by simp_all
qed

lemma iteration_release:
  assumes "incoming w = encode_frame RELEASE (three i g b) @ rest"
    "ok \<longleftrightarrow> (\<exists>a. om_find allocs i = Some a \<and> al_gen a = g)" "worker_iteration N C s allocs w = (allocs', w', lines, stop)"
  shows "allocs' = (if ok then om_erase i allocs else allocs)" "incoming w' = rest"
    "sent w' = sent w @ encode_frame RELEASE_RESULT (result_payload i g (if ok then 0 else - 1) (if ok then '''' else ''stale or unknown''))"
    "dev w' = (if ok then cu_free D (al_ptr (the (om_find allocs i))) (dev w) else dev w)" "\<not> stop"
proof -
  obtain w1 res where r: "recv_frame N s w = (w1, res)" by fastforce
  have w1: "res = Some \<lparr>fr_type = RELEASE, fr_payload = three i g b\<rparr>" "incoming w1 = rest" "sent w1 = sent w" "dev w1 = dev w"
    using recv_next [OF assms(1)] recv_frame_sent [of w] frame_dev(2) [of w] r by simp_all
  define w2 where "w2 = (if ok then cu_free C (al_ptr (the (om_find allocs i))) w1 else w1)"
  let ?p = "result_payload i g (if ok then 0 else - 1) (if ok then '''' else ''stale or unknown'')"
  have w2: "incoming w2 = rest" "sent w2 = sent w" "dev w2 = (if ok then cu_free D (al_ptr (the (om_find allocs i))) (dev w) else dev w)"
    using w1 by (simp_all add: w2_def free_dev)
  have "allocs' = (if ok then om_erase i allocs else allocs) \<and> w' = fst (send_frame N s RELEASE_RESULT ?p w2) \<and> \<not> stop"
    using assms(3) r w1(1) by (cases "om_find allocs i") (auto simp: worker_iteration_def worker_release_def w2_def assms(2) Let_def)
  then show "allocs' = (if ok then om_erase i allocs else allocs)" "incoming w' = rest" "sent w' = sent w @ encode_frame RELEASE_RESULT ?p"
    "dev w' = (if ok then cu_free D (al_ptr (the (om_find allocs i))) (dev w) else dev w)" "\<not> stop"
    using reply_state [of ?p w' RELEASE_RESULT w2] w2 by simp_all
qed

end

section \<open>One allocation\<close>

text \<open>What one side sent while its history went from \<open>old\<close> to \<open>new\<close> is what comes first at the other side.\<close>

definition delivered :: "u8 list \<Rightarrow> u8 list \<Rightarrow> u8 list \<Rightarrow> bool" where
  "delivered old new incoming \<longleftrightarrow> (\<exists>x rest. new = old @ x \<and> incoming = x @ rest)"

text \<open>
  C37. One allocation from end to end, for every network whose sockets are stream sockets with connections that stay up, every schedule of
  the two processes and every device.  The coordinator handles an ALLOCATE and two RELEASEs of the controller, the worker runs its
  loop three times, and each side reads what the other sends.  When the device can serve the ALLOCATE, both sides record the allocation
  under the same identity and generation; the RELEASE with that generation frees exactly the pointer the device had given; the second
  RELEASE frees nothing.  The controller gets status 0 twice and then the refusal.
\<close>

theorem allocation_end_to_end:
  assumes "coordinator_host NC ws inW skipW sentW cs inC skipC sentC" "worker_host NW s inM skipM sentM C dev D"
    and "coord_inv st" "om_ok al" "co_worker st = ws" "co_ctrl st = cs" "co_worker_boot st \<noteq> 0" "cu_malloc D b (dev wm) = (d, 0, ptr)"
    and "handle_allocate NC st (three i g b) wc = (st1, wc1)" "handle_release NC st1 (three i g x) wc1 = (st2, wc2)"
      "handle_release NC st2 (three i g y) wc2 = (st3, wc3)"
    and "worker_iteration NW C s al wm = (al1, wm1, lines1, stop1)" "worker_iteration NW C s al1 wm1 = (al2, wm2, lines2, stop2)"
      "worker_iteration NW C s al2 wm2 = (al3, wm3, lines3, stop3)"
    and "delivered (sentW wc) (sentW wc3) (inM wm)" "delivered (sentM wm) (sentM wm3) (inW wc)"
  shows "om_find (co_alloc st1) i = Some \<lparr>as_id = i, as_gen = g, as_boot = co_worker_boot st, as_bytes = b, as_current = True\<rparr> \<and>
    om_find al1 = (om_find al)(i \<mapsto> \<lparr>al_gen = g, al_bytes = b, al_ptr = ptr\<rparr>) \<and> dev wm1 = d \<and>
    om_find al2 = (om_find al)(i := None) \<and> dev wm2 = cu_free D ptr d \<and>
    al3 = al2 \<and> dev wm3 = dev wm2 \<and> \<not> stop1 \<and> \<not> stop2 \<and> \<not> stop3 \<and>
    sentC wc3 = sentC wc @ encode_frame ALLOCATE_RESULT (result_payload i g 0 '''') @
      encode_frame RELEASE_RESULT (result_payload i g 0 '''') @
      encode_frame RELEASE_RESULT (result_payload i g (- 1) ''stale or unknown'')"
proof -
  note ch = assms(1) and wh = assms(2)
  let ?a = "\<lparr>as_id = i, as_gen = g, as_boot = co_worker_boot st, as_bytes = b, as_current = True\<rparr>"
  let ?ok = "result_payload i g 0 ''''" and ?no = "result_payload i g (- 1) ''stale or unknown''"
  have ws: "ws \<noteq> INVALID_SOCKET" using assms(3,5,7) by (auto simp: coord_inv_def)
  have st2: "st2 = st1" by (rule handle_release_effect [OF assms(10)])
  \<comment> \<open>What was sent in the three exchanges, before it is known what came back.\<close>
  define rs where "rs = (if releasable st1 i g then encode_frame RELEASE (three i g x) @ encode_frame RELEASE (three i g y) else [])"
  obtain z restM where "sentW wc3 = sentW wc @ z" "inM wm = z @ restM" using assms(15) unfolding delivered_def by blast
  then have inM: "inM wm = encode_frame ALLOCATE (three i g b) @ rs @ restM"
    using coordinator_host.exchange_sends [OF ch assms(3,5,6,7,9-11)] unfolding rs_def by simp
  \<comment> \<open>The ALLOCATE.\<close>
  have m1: "al1 = om_assign i \<lparr>al_gen = g, al_bytes = b, al_ptr = ptr\<rparr> al" "sentM wm1 = sentM wm @ encode_frame ALLOCATE_RESULT ?ok"
    "dev wm1 = d" "\<not> stop1"
    "inM wm1 = rs @ restM"
    using worker_host.iteration_allocate [OF wh inM assms(8) _ assms(12)] by simp_all
  obtain u v where grow: "sentM wm2 = sentM wm1 @ u" "sentM wm3 = sentM wm2 @ v"
    using worker_host.iteration_grows [OF wh assms(13)] worker_host.iteration_grows [OF wh assms(14)] by blast
  moreover obtain z restW where "sentM wm3 = sentM wm @ z" "inW wc = z @ restW" using assms(16) unfolding delivered_def by blast
  ultimately have inW: "inW wc = encode_frame ALLOCATE_RESULT ?ok @ u @ v @ restW" using m1(2) by simp
  have c1: "st1 = st\<lparr>co_alloc := om_assign i ?a (co_alloc st)\<rparr>" "inW wc1 = u @ v @ restW" "sentC wc1 = sentC wc @ encode_frame ALLOCATE_RESULT ?ok"
    using coordinator_host.allocate_replied [OF ch assms(5,6) ws assms(7) inW _ assms(9)] by simp_all
  have f1: "om_find (co_alloc st1) i = Some ?a" using assms(3) by (simp add: c1 coord_inv_def om_find_assign)
  then have rel: "releasable st1 i g" and st1: "co_worker st1 = ws" "co_ctrl st1 = cs" using assms(5,6) by (simp_all add: c1)
  \<comment> \<open>The first RELEASE.\<close>
  have f2: "om_find al1 = (om_find al)(i \<mapsto> \<lparr>al_gen = g, al_bytes = b, al_ptr = ptr\<rparr>)" using om_find_assign [OF assms(4)] m1(1) by simp
  have "inM wm1 = encode_frame RELEASE (three i g x) @ encode_frame RELEASE (three i g y) @ restM" unfolding m1(5) rs_def if_P [OF rel] by simp
  from worker_host.iteration_release [OF wh this _ assms(13), of True] f2 m1(3) have m2: "al2 = om_erase i al1"
    "inM wm2 = encode_frame RELEASE (three i g y) @ restM" "sentM wm2 = sentM wm1 @ encode_frame RELEASE_RESULT ?ok"
    "dev wm2 = cu_free D ptr d" "\<not> stop2" by simp_all
  have u: "u = encode_frame RELEASE_RESULT ?ok" using grow(1) m2(3) by simp
  have c2: "inW wc2 = v @ restW" "sentC wc2 = sentC wc1 @ encode_frame RELEASE_RESULT ?ok"
    using coordinator_host.release_replied [OF ch st1 rel _ _ assms(10), of 0 "''''" "v @ restW"] c1(2) u by simp_all
  \<comment> \<open>The second RELEASE.\<close>
  have f3: "om_find al2 = (om_find al)(i := None)" by (simp add: m2(1) om_find_erase f2)
  from worker_host.iteration_release [OF wh m2(2) _ assms(14), of False] f3 have m3: "al3 = al2"
    "sentM wm3 = sentM wm2 @ encode_frame RELEASE_RESULT ?no" "dev wm3 = dev wm2" "\<not> stop3" by simp_all
  have v: "v = encode_frame RELEASE_RESULT ?no" using grow(2) m3(2) by simp
  have c3: "sentC wc3 = sentC wc2 @ encode_frame RELEASE_RESULT ?no"
    using coordinator_host.release_replied [OF ch st1 rel _ _ assms(11) [unfolded st2], of "- 1" "''stale or unknown''" restW] c2(1) v by simp
  show ?thesis using f1 f2 f3 m1 m2 m3 c1(3) c2(2) c3 by simp
qed

section \<open>A pair of machines\<close>

text \<open>
  For the witness: a machine on which every socket delivers its bytes in pieces of at most three and takes at most five, and a device
  that hands out the next address each time, whose state is that address and the pointers freed.
\<close>

record 'd machine =
  mc_in :: "SOCKET \<Rightarrow> u8 list"
  mc_sent :: "SOCKET \<Rightarrow> u8 list"
  mc_dev :: 'd

definition machine_net :: "'d machine winsock" where
  "machine_net = \<lparr>ws_startup = \<lambda>w. (w, 0), ws_socket = \<lambda>w. (w, 1), ws_setsockopt = \<lambda>s opt w. w, ws_bind = \<lambda>s p w. (w, 0),
     ws_listen = \<lambda>s n w. (w, 0), ws_getsockname = \<lambda>s w. (w, 0), ws_connect = \<lambda>s p w. (w, 0), ws_accept = \<lambda>s w. (w, INVALID_SOCKET),
     ws_poll = \<lambda>ss w. (w, 0, []),
     ws_send = \<lambda>s data n w. (w\<lparr>mc_sent := (mc_sent w)(s := mc_sent w s @ take (nat (min n 5)) data)\<rparr>, min n 5),
     ws_recv = \<lambda>s n w. (mc_in_update (\<lambda>m. m(s := drop (nat (min n 3)) (m s))) w, take (nat (min n 3)) (mc_in w s)),
     ws_shutdown = \<lambda>s w. w, ws_closesocket = \<lambda>s w. w\<rparr>"

definition machine_cuda :: "'d cuda \<Rightarrow> 'd machine cuda" where
  "machine_cuda D =
    \<lparr>cu_malloc = \<lambda>n w. (case cu_malloc D n (mc_dev w) of (c, err, ptr) \<Rightarrow> (w\<lparr>mc_dev := c\<rparr>, err, ptr)),
     cu_free = \<lambda>p w. w\<lparr>mc_dev := cu_free D p (mc_dev w)\<rparr>,
     cu_mem_get_info = \<lambda>w. (case cu_mem_get_info D (mc_dev w) of (c, fb, tb) \<Rightarrow> (w\<lparr>mc_dev := c\<rparr>, fb, tb)),
     cu_device_name = \<lambda>w. (case cu_device_name D (mc_dev w) of (c, n) \<Rightarrow> (w\<lparr>mc_dev := c\<rparr>, n)),
     cu_error_string = cu_error_string D\<rparr>"

lemma machine_upd: "f (mc_in w) = g (mc_in w) \<Longrightarrow> mc_in_update f w = mc_in_update g w" for w :: "'d machine"
  by (cases w) simp

lemma machine_stream: "stream_socket machine_net s (\<lambda>w. mc_in w s) (\<lambda>k. mc_in_update (\<lambda>m. m(s := drop k (m s))))"
  by (rule chunked_socket [where upd = "\<lambda>f. mc_in_update (\<lambda>m. m(s := f (m s)))"])
    (auto simp: machine_net_def comp_def fun_eq_iff intro!: machine_upd)

interpretation machine: connected machine_net s "\<lambda>w. mc_in w s" "\<lambda>k. mc_in_update (\<lambda>m. m(s := drop k (m s)))" "\<lambda>w. mc_sent w s" for s
proof (rule connected.intro [OF machine_stream], unfold_locales)
  fix n :: int and data :: "u8 list" and w :: "'d machine"
  assume "0 < n" "n \<le> int (length data)"
  then show "\<exists>k. 0 < k \<and> int k \<le> n \<and> snd (ws_send machine_net s data n w) = int k \<and>
      mc_sent (fst (ws_send machine_net s data n w)) s = mc_sent w s @ take k data"
    by (intro exI [of _ "nat (min n 5)"]) (simp add: machine_net_def)
qed (auto simp: machine_net_def send_keeps_def recv_keeps_def)

interpretation machine_coord: coordinator_host machine_net 2 "\<lambda>w. mc_in w 2" "\<lambda>k. mc_in_update (\<lambda>m. m(2 := drop k (m 2)))" "\<lambda>w. mc_sent w 2"
  1 "\<lambda>w. mc_in w 1" "\<lambda>k. mc_in_update (\<lambda>m. m(1 := drop k (m 1)))" "\<lambda>w. mc_sent w 1"
  by unfold_locales (simp_all add: machine_net_def send_keeps_def recv_keeps_def)

interpretation machine_worker: worker_host machine_net s "\<lambda>w. mc_in w s" "\<lambda>k. mc_in_update (\<lambda>m. m(s := drop k (m s)))" "\<lambda>w. mc_sent w s"
  "machine_cuda D" mc_dev D for s D
  by unfold_locales (auto simp: machine_net_def machine_cuda_def send_keeps_def recv_keeps_def split: prod.splits)

definition demo_cuda :: "(u64 \<times> u64 list) cuda" where
  "demo_cuda = \<lparr>cu_malloc = \<lambda>n (p, fs). ((p + n, fs), 0, p), cu_free = \<lambda>q (p, fs). (p, fs @ [q]),
     cu_mem_get_info = \<lambda>c. (c, 0, 0), cu_device_name = \<lambda>c. (c, ''device''), cu_error_string = \<lambda>e. ''error''\<rparr>"

text \<open>The worker after \<open>n\<close> rounds on an ALLOCATE and two RELEASEs, and the coordinator to which its replies come.\<close>

fun demo_worker :: "nat \<Rightarrow> worker_allocs \<times> (u64 \<times> u64 list) machine" where
  "demo_worker 0 = ([], \<lparr>mc_in = \<lambda>_. encode_frame ALLOCATE (three 6 1 32) @ encode_frame RELEASE (three 6 1 9) @ encode_frame RELEASE (three 6 1 9),
     mc_sent = \<lambda>_. [], mc_dev = (4096, [])\<rparr>)"
| "demo_worker (Suc n) = (case worker_iteration machine_net (machine_cuda demo_cuda) 1 (fst (demo_worker n)) (snd (demo_worker n)) of
     (al, w, _, _) \<Rightarrow> (al, w))"

fun demo_coord :: "nat \<Rightarrow> Coordinator \<times> unit machine" where
  "demo_coord 0 = (\<lparr>co_ctrl = 1, co_worker = 2, co_worker_boot = 9, co_alloc = [], co_out = []\<rparr>,
     \<lparr>mc_in = \<lambda>_. mc_sent (snd (demo_worker 3)) 1, mc_sent = \<lambda>_. [], mc_dev = ()\<rparr>)"
| "demo_coord (Suc 0) = handle_allocate machine_net (fst (demo_coord 0)) (three 6 1 32) (snd (demo_coord 0))"
| "demo_coord (Suc n) = handle_release machine_net (fst (demo_coord n)) (three 6 1 9) (snd (demo_coord n))"

lemma demo_worker_step: "\<exists>lines stop. worker_iteration machine_net (machine_cuda demo_cuda) 1 (fst (demo_worker n)) (snd (demo_worker n)) =
    (fst (demo_worker (Suc n)), snd (demo_worker (Suc n)), lines, stop)"
  by (auto split: prod.splits)

theorem allocation_end_to_end_witness:
  "mc_dev (snd (demo_worker 3)) = (4128, [4096]) \<and>
   mc_sent (snd (demo_coord 3)) 1 = encode_frame ALLOCATE_RESULT (result_payload 6 1 0 '''') @
      encode_frame RELEASE_RESULT (result_payload 6 1 0 '''') @ encode_frame RELEASE_RESULT (result_payload 6 1 (- 1) ''stale or unknown'')"
proof -
  have n: "Suc 0 = 1" "Suc 1 = 2" "Suc 2 = 3" by simp_all
  obtain l1 p1 l2 p2 l3 p3 where m:
    "worker_iteration machine_net (machine_cuda demo_cuda) 1 (fst (demo_worker 0)) (snd (demo_worker 0)) = (fst (demo_worker 1), snd (demo_worker 1), l1, p1)"
    "worker_iteration machine_net (machine_cuda demo_cuda) 1 (fst (demo_worker 1)) (snd (demo_worker 1)) = (fst (demo_worker 2), snd (demo_worker 2), l2, p2)"
    "worker_iteration machine_net (machine_cuda demo_cuda) 1 (fst (demo_worker 2)) (snd (demo_worker 2)) = (fst (demo_worker 3), snd (demo_worker 3), l3, p3)"
    using demo_worker_step [of 0] demo_worker_step [of 1] demo_worker_step [of 2] unfolding n by blast
  have c: "handle_allocate machine_net (fst (demo_coord 0)) (three 6 1 32) (snd (demo_coord 0)) = (fst (demo_coord 1), snd (demo_coord 1))"
    "handle_release machine_net (fst (demo_coord 1)) (three 6 1 9) (snd (demo_coord 1)) = (fst (demo_coord 2), snd (demo_coord 2))"
    "handle_release machine_net (fst (demo_coord 2)) (three 6 1 9) (snd (demo_coord 2)) = (fst (demo_coord 3), snd (demo_coord 3))"
    by (simp_all add: numeral_2_eq_2 numeral_3_eq_3)
  have inv: "coord_inv (fst (demo_coord 0))" by (simp add: coord_inv_def INVALID_SOCKET_def)
  have up: "delivered (mc_sent (snd (demo_worker 0)) 1) (mc_sent (snd (demo_worker 3)) 1) (mc_in (snd (demo_coord 0)) 2)"
    by (simp add: delivered_def)
  have "mc_sent (snd (demo_coord 3)) 2 = mc_sent (snd (demo_coord 0)) 2 @ encode_frame ALLOCATE (three 6 1 32) @
      (if releasable (fst (demo_coord 1)) 6 1 then encode_frame RELEASE (three 6 1 9) @ encode_frame RELEASE (three 6 1 9) else [])"
    by (rule machine_coord.exchange_sends [OF inv _ _ _ c]) simp_all
  then have down: "delivered (mc_sent (snd (demo_coord 0)) 2) (mc_sent (snd (demo_coord 3)) 2) (mc_in (snd (demo_worker 0)) 1)"
    by (simp add: delivered_def)
  have "cu_malloc demo_cuda 32 (mc_dev (snd (demo_worker 0))) = ((4128, []), 0, 4096)" by (simp add: demo_cuda_def)
  from allocation_end_to_end [OF machine_coord.coordinator_host_axioms machine_worker.worker_host_axioms inv _ _ _ _ this c m down up]
  show ?thesis by (simp add: demo_cuda_def)
qed

end
