(* ===== verification/Gms_Governor_Recovery.thy ===== *)
theory Gms_Governor_Recovery
  imports Gms_Governor_Props
begin

text \<open>
  Recovery from a snapshot, and the byte accounting of the governor over its histories.
\<close>

section \<open>Recovery\<close>

lemma restore_state:
  "recs (fst (gov_restore g s)) = (\<lambda>_. None)" "g_initialized (fst (gov_restore g s)) = False"
  "g_next_alloc_id (fst (gov_restore g s)) = ps_next_alloc_id s" "g_domain (fst (gov_restore g s)) = restored_domain (ps_domain s)"
  "snd (gov_restore g s) = Ok ()"
  by (simp_all add: gov_restore_def Let_def fun_eq_iff)

lemma fold_find:
  assumes "om_ok m" "distinct (map rec_id rs)" "\<And>r. rec_id (f r) = rec_id r"
  shows "om_ok (foldl (\<lambda>m rec. om_assign (rec_id rec) (f rec) m) m rs)"
    "om_find (foldl (\<lambda>m rec. om_assign (rec_id rec) (f rec) m) m rs) i =
       (case find (\<lambda>r. rec_id r = i) rs of Some r \<Rightarrow> Some (f r) | None \<Rightarrow> om_find m i)"
proof -
  have "om_ok (foldl (\<lambda>m rec. om_assign (rec_id rec) (f rec) m) m rs) \<and>
      om_find (foldl (\<lambda>m rec. om_assign (rec_id rec) (f rec) m) m rs) i =
       (case find (\<lambda>r. rec_id r = i) rs of Some r \<Rightarrow> Some (f r) | None \<Rightarrow> om_find m i)"
    using assms(1,2)
  proof (induction rs arbitrary: m)
    case (Cons q rs)
    have ok: "om_ok (om_assign (rec_id q) (f q) m)" using Cons.prems(1) by (rule om_ok_assign)
    have nq: "rec_id q \<notin> rec_id ` set rs" and d: "distinct (map rec_id rs)" using Cons.prems(2) by simp_all
    have none: "find (\<lambda>r. rec_id r = rec_id q) rs = None"
      unfolding find_None_iff using nq by (metis image_eqI)
    note ih = Cons.IH [OF ok d]
    show ?case
    proof (cases "rec_id q = i")
      case True
      then show ?thesis using ih none by (simp add: om_find_assign [OF Cons.prems(1)])
    next
      case False
      then show ?thesis using ih by (simp add: om_find_assign [OF Cons.prems(1)] split: option.split)
    qed
  qed simp
  then show "om_ok (foldl (\<lambda>m rec. om_assign (rec_id rec) (f rec) m) m rs)"
    "om_find (foldl (\<lambda>m rec. om_assign (rec_id rec) (f rec) m) m rs) i =
       (case find (\<lambda>r. rec_id r = i) rs of Some r \<Rightarrow> Some (f r) | None \<Rightarrow> om_find m i)" by blast+
qed

lemma find_distinct:
  "distinct (map rec_id rs) \<Longrightarrow> r \<in> set rs \<Longrightarrow> find (\<lambda>q. rec_id q = rec_id r) rs = Some r"
  by (induction rs) (auto simp: inj_on_def image_iff)

lemma restored_retired:
  assumes "layout_valid s"
  shows "r \<in> set (ps_records s) \<Longrightarrow> om_find (g_retired (fst (gov_restore g s))) (rec_id r) = Some (stale_record r)"
    "r \<in> set (ps_retired s) \<Longrightarrow> om_find (g_retired (fst (gov_restore g s))) (rec_id r) = Some r"
proof -
  have d: "distinct (map rec_id (ps_records s))" "distinct (map rec_id (ps_retired s))"
    "rec_id ` set (ps_records s) \<inter> rec_id ` set (ps_retired s) = {}"
    using assms by (simp_all add: layout_valid_def)
  let ?m1 = "foldl (\<lambda>m rec. om_assign (rec_id rec) (stale_record rec) m) [] (ps_records s)"
  have m1: "om_ok ?m1" by (rule fold_find(1)) (simp_all add: d)
  have f1: "om_find ?m1 i = (case find (\<lambda>r. rec_id r = i) (ps_records s) of Some r \<Rightarrow> Some (stale_record r) | None \<Rightarrow> None)" for i
    using fold_find(2) [of "[]" "ps_records s" stale_record i] d(1) by (simp split: option.splits)
  have f2: "om_find (g_retired (fst (gov_restore g s))) i =
      (case find (\<lambda>r. rec_id r = i) (ps_retired s) of Some r \<Rightarrow> Some r | None \<Rightarrow> om_find ?m1 i)" for i
    using fold_find(2) [OF m1 d(2), of "\<lambda>r. r" i] by (simp add: gov_restore_def Let_def)
  show "om_find (g_retired (fst (gov_restore g s))) (rec_id r) = Some r" if "r \<in> set (ps_retired s)"
    using that d(2) by (simp add: f2 find_distinct)
  show "om_find (g_retired (fst (gov_restore g s))) (rec_id r) = Some (stale_record r)" if "r \<in> set (ps_records s)"
  proof -
    have "find (\<lambda>q. rec_id q = rec_id r) (ps_retired s) = None" using d(3) that by (auto simp: find_None_iff)
    then show ?thesis using that d(1) by (simp add: f2 f1 find_distinct)
  qed
qed



section \<open>Accounting\<close>

text \<open>
  \<open>current_committed\<close> and \<open>current_resident\<close> follow the arena, provided relocations keep the size (\<open>apply_relocation\<close> does not
  update them).
\<close>

definition accounted :: "MemoryGovernor \<Rightarrow> bool" where
  "accounted g \<longleftrightarrow> (managed g \<noteq> 0 \<longrightarrow> dom_current_committed (g_domain g) = ra_live_bytes (g_arena g) \<and>
     dom_current_resident (g_domain g) = ra_live_bytes (g_arena g))"

definition keeps_size :: "MemoryGovernor \<Rightarrow> gov_call \<Rightarrow> bool" where
  "keeps_size g c \<longleftrightarrow> (case c of Relocate aid gen n sz \<Rightarrow> sz = gov_region_size g aid | _ \<Rightarrow> True)"

lemma new_live_bytes [simp]: "ra_live_bytes (RegionAllocator_new c) = 0"
  by (simp add: RegionAllocator_new_def Let_def index_free_def)

lemma count_fields:
  "dom_current_committed (count_request rec sz d) = dom_current_committed d + sz" "dom_current_resident (count_request rec sz d) = dom_current_resident d + sz"
  "dom_current_committed (count_release rec d) = sub (dom_current_committed d) (rec_region_size rec)"
  "dom_current_resident (count_release rec d) = sub (dom_current_resident d) (rec_region_size rec)"
  "dom_current_committed (count_pin rec d) = dom_current_committed d" "dom_current_resident (count_pin rec d) = dom_current_resident d"
  "dom_current_committed (count_unpin rec d) = dom_current_committed d" "dom_current_resident (count_unpin rec d) = dom_current_resident d"
  by (simp_all add: count_request_def count_release_def count_pin_def count_unpin_def Let_def)

lemma accounted_frame:
  "accounted g \<Longrightarrow> g_domain g' = g_domain g \<Longrightarrow> ra_live_bytes (g_arena g') = ra_live_bytes (g_arena g) \<Longrightarrow> accounted g'"
  by (simp add: accounted_def)

lemma accounted_request:
  assumes "gov_inv g" "g_next_alloc_id g \<noteq> - 1" "accounted g"
  shows "accounted (fst (gov_request g req))"
  using assms(1,2)
proof (cases rule: request_cases [of g req])
  case (ok g' r aid rec)
  have d: "g_domain g' = count_request rec (ri_size r) (g_domain g)" by (subst ok(12)) simp
  have "managed g \<noteq> 0" using d ok(8,9) by (auto elim!: gov_live [of g' aid] simp: count_managed)
  moreover have "ra_live_bytes (g_arena g') = ra_live_bytes (g_arena g) + ri_size r"
    using ok(13) unat_add_lt [of "ra_live_bytes (g_arena g)" "ri_size r"] unat_lt64 [of "ra_live_bytes (g_arena g')"] by (simp add: u64_eq_iff)
  ultimately show ?thesis using assms(3) ok(7) d by (simp add: accounted_def count_fields)
qed (use assms(3) in \<open>simp_all add: accounted_def\<close>)

lemma accounted_release:
  assumes "gov_inv g" "accounted g"
  shows "accounted (fst (release_locked g aid gen wb sb))"
  using assms(1)
proof (cases rule: release_cases [of g aid gen wb sb])
  case (ok g' rec)
  have d: "g_domain g' = count_release (released rec) (g_domain g)" by (subst ok(9)) simp
  have "managed g \<noteq> 0" using assms(1) ok(2) by (auto elim: gov_live)
  moreover have "ra_live_bytes (g_arena g') = sub (ra_live_bytes (g_arena g)) (rec_region_size rec)"
    using ok(10) by (simp add: u64_eq_iff unat_sub_sat)
  ultimately show ?thesis using assms(2) ok(5) d by (simp add: accounted_def count_fields released_def)
qed (use assms(2) in simp)

lemma accounted_move:
  assumes "gov_inv g" "accounted g" "sz = gov_region_size g aid"
  shows "accounted (fst (apply_relocation g aid gen n sz))"
  using assms(1)
proof (cases rule: apply_cases [of g aid gen n sz])
  case (ok g' rec r m)
  have d: "g_domain g' = g_domain g" by (subst ok(11)) simp
  have "sz = rec_region_size rec" using assms(3) ok(1) by (simp add: gov_region_size_def)
  then have "ra_live_bytes (g_arena g') = ra_live_bytes (g_arena g)" using ok(12) by (simp add: u64_eq_iff)
  with d show ?thesis using assms(2) ok(8) by (simp add: accounted_def)
qed (use assms(2) in simp_all)

lemma accounted_pins:
  assumes inv: "gov_inv g" and a: "accounted g"
  shows "accounted (fst (gov_pin g aid gen))" "accounted (fst (gov_unpin g aid gen))"
proof -
  from inv show "accounted (fst (gov_pin g aid gen))"
  proof (cases rule: pin_cases [of g aid gen])
    case (ok g' rec r)
    have "g_domain g' = count_pin (pinned_rec r rec) (g_domain g)" by (subst ok(8)) simp
    then show ?thesis using a ok(5,9) by (simp add: accounted_def count_fields)
  qed (use a in simp)
  from inv show "accounted (fst (gov_unpin g aid gen))"
  proof (cases rule: unpin_cases [of g aid gen])
    case (ok g' rec r)
    have "g_domain g' = count_unpin (unpinned_rec r rec) (g_domain g)" by (subst ok(9)) simp
    then show ?thesis using a ok(6,10) by (simp add: accounted_def count_fields)
  qed (use a in simp_all)
qed

lemma accounted_cache: "only_cache g' g \<Longrightarrow> accounted g \<Longrightarrow> accounted g'"
  by (auto simp: only_cache_def accounted_def)

lemma accounted_restore: "accounted (fst (gov_restore g s))"
  by (simp add: accounted_def gov_restore_def Let_def restored_domain_def)

lemma accounted_load: "accounted g \<Longrightarrow> accounted (fst (gov_load g path fs))"
  using accounted_restore by (auto simp: gov_load_def split: result.splits)

lemma accounted_initialize: "accounted g \<Longrightarrow> accounted (fst (gov_initialize g))"
  by (auto simp: gov_initialize_def accounted_def split: option.splits sum.splits)

lemma exec_accounted: "gov_inv g \<Longrightarrow> call_ok g c \<Longrightarrow> keeps_size g c \<Longrightarrow> accounted g \<Longrightarrow> accounted (gov_exec g c)"
  by (cases c)
    (simp_all add: call_ok_def keeps_size_def accounted_request gov_release_def release_for_worker_def accounted_release accounted_move
      accounted_pins accounted_restore accounted_load accounted_initialize accounted_cache [OF pressure_cache] accounted_cache [OF summary_cache]
      accounted_cache [OF plan_cache] accounted_cache [OF explain_cache])

text \<open>A history, each call made in the state the calls before it left.\<close>

fun history_ok :: "MemoryGovernor \<Rightarrow> gov_call list \<Rightarrow> bool" where
  "history_ok g [] \<longleftrightarrow> True"
| "history_ok g (c # cs) \<longleftrightarrow> call_ok g c \<and> keeps_size g c \<and> history_ok (gov_exec g c) cs"

lemma history_accounted:
  "gov_inv g \<Longrightarrow> accounted g \<Longrightarrow> history_ok g cs \<Longrightarrow> gov_inv (foldl gov_exec g cs) \<and> accounted (foldl gov_exec g cs)"
  by (induction cs arbitrary: g) (simp_all add: exec_inv exec_accounted)

lemma om_sum: "om_ok m \<Longrightarrow> (\<Sum>kv\<in>set m. f (snd kv)) = (\<Sum>v\<leftarrow>map snd m. f v)"
  using om_ok_distinct [of m] by (simp add: sum_list_distinct_conv_sum_set distinct_map comp_def)

text \<open>Each record names its live region, and each live region has its record.\<close>

definition region_entry :: "MemoryGovernor \<Rightarrow> AllocationId \<times> AllocationRecord \<Rightarrow> u64 \<times> RegionInfo" where
  "region_entry g kv = (rec_offset (snd kv), the (arena_live (g_arena g) (fst kv)))"

lemma record_region:
  assumes "gov_inv g" "(i, rec) \<in> set (g_records g)"
  shows "\<exists>r. arena_live (g_arena g) i = Some r \<and> rec_matches rec r \<and> ri_alloc_id r = i"
proof -
  have "recs g i = Some rec" using assms by (simp add: om_find_iff gov_inv_def)
  with assms(1) obtain r where "arena_live (g_arena g) i = Some r" "rec_matches rec r" "rec_id rec = i" by (rule gov_live)
  then show ?thesis by (auto simp: rec_matches_def)
qed

lemma region_entry_bij:
  assumes inv: "gov_inv g" and nz: "managed g \<noteq> 0"
  shows "bij_betw (region_entry g) (set (g_records g)) (live_entries (regs (g_arena g)))"
proof -
  have ar: "arena_inv (g_arena g)" using inv nz by (simp add: gov_inv_def arena_ok_def)
  have ok: "om_ok (g_records g)" using inv by (simp add: gov_inv_def)
  show ?thesis
  proof (rule bij_betwI')
    fix x y assume x: "x \<in> set (g_records g)" and y: "y \<in> set (g_records g)"
    obtain i a where xi: "x = (i, a)" by (cases x)
    obtain j b where yj: "y = (j, b)" by (cases y)
    from record_region [OF inv x [unfolded xi]] obtain r where r: "arena_live (g_arena g) i = Some r" "ri_alloc_id r = i" by blast
    from record_region [OF inv y [unfolded yj]] obtain q where q: "arena_live (g_arena g) j = Some q" "ri_alloc_id q = j" by blast
    show "region_entry g x = region_entry g y \<longleftrightarrow> x = y"
    proof
      assume h: "region_entry g x = region_entry g y"
      have "r = q" using h unfolding xi yj by (simp add: region_entry_def r(1) q(1))
      then have "i = j" using r(2) q(2) by simp
      moreover from this have "a = b" using x y unfolding xi yj by (metis om_find_iff ok option.inject)
      ultimately show "x = y" unfolding xi yj by simp
    qed simp
  next
    fix x assume x: "x \<in> set (g_records g)"
    obtain i a where xi: "x = (i, a)" by (cases x)
    from record_region [OF inv x [unfolded xi]] obtain r where r: "arena_live (g_arena g) i = Some r" "rec_matches a r" by blast
    have "(ri_offset r, r) \<in> regs (g_arena g)" "ri_live r" using r(1) by (simp_all add: arena_live_iff [OF ar])
    then show "region_entry g x \<in> live_entries (regs (g_arena g))" using r xi by (simp add: region_entry_def live_entries_def rec_matches_def)
  next
    fix e assume e: "e \<in> live_entries (regs (g_arena g))"
    obtain k r where kr: "e = (k, r)" by (cases e)
    have k: "k = ri_offset r" using layout_offset [OF arena_layout [OF ar], of k r] e kr by (simp add: live_entries_def)
    then have r: "arena_live (g_arena g) (ri_alloc_id r) = Some r" using e kr by (simp add: arena_live_iff [OF ar] live_entries_def)
    then obtain rec where rec: "recs g (ri_alloc_id r) = Some rec" using gov_dead [OF inv, of "ri_alloc_id r"] by auto
    from inv rec have "rec_matches rec r" by (rule gov_live) (use r in simp)
    then have "e = region_entry g (ri_alloc_id r, rec)" using kr k r by (simp add: region_entry_def rec_matches_def)
    moreover have "(ri_alloc_id r, rec) \<in> set (g_records g)" using rec ok by (simp add: om_find_iff)
    ultimately show "\<exists>x\<in>set (g_records g). e = region_entry g x" by blast
  qed
qed

text \<open>A sum over the live regions of the arena is the sum over the records.\<close>

lemma live_records_sum:
  assumes inv: "gov_inv g" and nz: "managed g \<noteq> 0" and F: "\<And>rec r. rec_matches rec r \<Longrightarrow> F r = G rec"
  shows "(\<Sum>kv\<in>live_entries (regs (g_arena g)). F (snd kv)) = (\<Sum>rec\<leftarrow>gov_allocations g. G rec)"
proof -
  have "(\<Sum>kv\<in>live_entries (regs (g_arena g)). F (snd kv)) = (\<Sum>kv\<in>set (g_records g). F (snd (region_entry g kv)))"
    using region_entry_bij [OF inv nz] by (simp add: sum.reindex_bij_betw [symmetric])
  also have "\<dots> = (\<Sum>kv\<in>set (g_records g). G (snd kv))"
    by (rule sum.cong) (use record_region [OF inv] F in \<open>fastforce simp: region_entry_def\<close>)+
  also have "\<dots> = (\<Sum>rec\<leftarrow>gov_allocations g. G rec)" unfolding gov_allocations_def by (rule om_sum) (use inv in \<open>simp add: gov_inv_def\<close>)
  finally show ?thesis .
qed

lemma live_bytes_records:
  assumes "gov_inv g" "managed g \<noteq> 0"
  shows "unat (ra_live_bytes (g_arena g)) = (\<Sum>rec\<leftarrow>gov_allocations g. unat (rec_region_size rec))"
proof -
  have "arena_inv (g_arena g)" using assms by (simp add: gov_inv_def arena_ok_def)
  then have "unat (ra_live_bytes (g_arena g)) = (\<Sum>kv\<in>live_entries (regs (g_arena g)). unat (ri_size (snd kv)))"
    by (simp add: arena_inv_def live_sum_def)
  also have "\<dots> = (\<Sum>rec\<leftarrow>gov_allocations g. unat (rec_region_size rec))"
    by (rule live_records_sum [OF assms]) (simp add: rec_matches_def)
  finally show ?thesis .
qed

lemma live_count_records:
  assumes "gov_inv g" "managed g \<noteq> 0"
  shows "unat (ra_live_count (g_arena g)) = length (gov_allocations g)"
proof -
  have "arena_inv (g_arena g)" using assms by (simp add: gov_inv_def arena_ok_def)
  then have "unat (ra_live_count (g_arena g)) = (\<Sum>kv\<in>live_entries (regs (g_arena g)). 1)" by (simp add: arena_inv_def)
  also have "\<dots> = (\<Sum>rec\<leftarrow>gov_allocations g. 1)" by (rule live_records_sum [OF assms]) simp
  finally show ?thesis by (simp add: sum_list_triv)
qed

lemma summary_values:
  "ms_committed (snd (gov_summary g)) = ra_live_bytes (g_arena g)" "ms_resident (snd (gov_summary g)) = ra_live_bytes (g_arena g)"
  "ms_free (snd (gov_summary g)) = free_bytes (g_arena g)" "ms_managed_capacity (snd (gov_summary g)) = managed g"
  "ms_live_allocations (snd (gov_summary g)) = ra_live_count (g_arena g)"
  by (simp_all add: gov_summary_def gov_pressure_def Let_def split: prod.splits)

text \<open>
  C30. The books balance: in every history from a domain whose counters are 0 in which relocations keep the size of what they move,
  \<open>current_committed\<close> and \<open>current_resident\<close> are the sum of the region sizes of the records, never exceed the capacity, and are
  what \<open>summary\<close> reports, together with the rest as free and the number of records as live.
\<close>

theorem gov_accounting:
  assumes "dom_current_committed d = 0" "dom_current_resident d = 0" "history_ok (MemoryGovernor_new d be) cs"
    "g = foldl gov_exec (MemoryGovernor_new d be) cs" "managed g \<noteq> 0" "gov_summary g = (g', s)"
  shows "unat (dom_current_committed (g_domain g)) = (\<Sum>rec\<leftarrow>gov_allocations g. unat (rec_region_size rec)) \<and>
    dom_current_resident (g_domain g) = dom_current_committed (g_domain g) \<and>
    unat (dom_current_committed (g_domain g)) \<le> unat (managed g) \<and>
    ms_committed s = dom_current_committed (g_domain g) \<and> ms_resident s = dom_current_resident (g_domain g) \<and>
    unat (ms_free s) + unat (ms_committed s) = unat (ms_managed_capacity s) \<and>
    unat (ms_live_allocations s) = length (gov_allocations g)"
proof -
  have "accounted (MemoryGovernor_new d be)" using assms(1,2) by (simp add: accounted_def MemoryGovernor_new_def)
  from history_accounted [OF new_inv this assms(3)] have g: "gov_inv g" "accounted g" by (simp_all add: assms(4))
  then have a: "arena_inv (g_arena g)" "ra_capacity (g_arena g) = managed g" using assms(5) by (simp_all add: gov_inv_def arena_ok_def)
  have "unat (free_bytes (g_arena g)) + unat (ra_live_bytes (g_arena g)) = unat (managed g)"
    using live_bytes_le [OF a(1)] a(2) by (simp add: free_bytes_def unat_sub_le)
  then show ?thesis
    using g(2) assms(5) live_bytes_records [OF g(1) assms(5)] live_count_records [OF g(1) assms(5)] live_bytes_le [OF a(1)] a(2)
      summary_values [of g, unfolded assms(6) snd_conv] by (simp add: accounted_def)
qed

theorem gov_accounting_witness:
  "unat (dom_current_committed (g_domain (gov_exec demo_start (Request (demo_req 100 64 Reclaimability.BEST_EFFORT))))) \<le> 1024"
proof -
  let ?d = "demo_domain\<lparr>dom_current_committed := 0, dom_current_resident := 0\<rparr>" and ?r = "Request (demo_req 100 64 Reclaimability.BEST_EFFORT)"
  have "g_next_alloc_id demo_start \<noteq> - 1" by code_simp
  then have h: "history_ok (MemoryGovernor_new ?d (Some demo_backend)) [Initialize, ?r]"
    by (simp add: call_ok_def keeps_size_def demo_start_def)
  have g: "gov_exec demo_start ?r = foldl gov_exec (MemoryGovernor_new ?d (Some demo_backend)) [Initialize, ?r]" by (simp add: demo_start_def)
  have m: "managed (gov_exec demo_start ?r) = 1024" by code_simp
  obtain g' s where "gov_summary (gov_exec demo_start ?r) = (g', s)" by fastforce
  from gov_accounting [OF _ _ h g _ this] m show ?thesis by simp
qed

end
