(* ===== verification/Gms_Governor_Durable.thy ===== *)
theory Gms_Governor_Durable
  imports Gms_Governor_Recovery
begin

text \<open>
  What can be saved can be recovered.  A governor is durable when its records pass the checks of the decoder; every history of
  well-formed calls keeps it so (\<open>exec_durable\<close>), its snapshot passes the decoder up to \<open>2^20\<close> records of each kind (\<open>durable_snapshot_ok\<close>, \<open>durable_crowded\<close>), and a
  governor that recovers it is durable again (\<open>restore_durable\<close>).  Together: \<^verbatim>\<open>save\<close> followed by \<^verbatim>\<open>load\<close>.
\<close>

section \<open>What a record must hold to be durable\<close>

text \<open>
  The checks of the decoder that do not concern the place of the record: sizes, enumerations in range, a generation, and strings of
  at most \<open>2^20\<close> bytes.
\<close>

definition enums_durable :: "MemoryClass \<Rightarrow> Reclaimability \<Rightarrow> Movability \<Rightarrow> Provenance \<Rightarrow> bool" where
  "enums_durable mc rc mv pv \<longleftrightarrow>
     MemoryClass_of_code (MemoryClass_code mc) = mc \<and> enum_ok MemoryClass_code mc (MemoryClass_code MemoryClass.INTERNAL) \<and>
     Reclaimability_of_code (Reclaimability_code rc) = rc \<and> enum_ok Reclaimability_code rc (Reclaimability_code Reclaimability.BEST_EFFORT) \<and>
     Movability_of_code (Movability_code mv) = mv \<and> enum_ok Movability_code mv (Movability_code Movability.NONMOVABLE) \<and>
     Provenance_of_code (Provenance_code pv) = pv \<and> enum_ok Provenance_code pv (Provenance_code Provenance.RECONSTRUCTED)"

definition states_durable :: "ResidencyState \<Rightarrow> LifecycleState \<Rightarrow> bool" where
  "states_durable rs lc \<longleftrightarrow>
     ResidencyState_of_code (ResidencyState_code rs) = rs \<and> enum_ok ResidencyState_code rs (ResidencyState_code ResidencyState.REVALIDATION_REQUIRED) \<and>
     LifecycleState_of_code (LifecycleState_code lc) = lc \<and> enum_ok LifecycleState_code lc (LifecycleState_code LifecycleState.RETIRED)"

definition rec_content :: "AllocationRecord \<Rightarrow> bool" where
  "rec_content rec \<longleftrightarrow> rec_requested_bytes rec \<noteq> 0 \<and> rec_requested_bytes rec \<le> rec_region_size rec \<and> gen_value (rec_generation rec) \<noteq> 0 \<and>
     enums_durable (rec_mem_class rec) (rec_reclaimability rec) (rec_movability rec) (rec_provenance rec) \<and>
     states_durable (rec_residency rec) (rec_lifecycle rec) \<and> str_ok (rec_owner rec) \<and> str_ok (rec_backing_ref rec)"

definition rec_placed :: "AllocationRecord \<Rightarrow> u64 \<Rightarrow> bool" where
  "rec_placed rec m \<longleftrightarrow> is_pow2 (rec_alignment rec) \<and> rec_offset rec \<le> m \<and> rec_region_size rec \<le> m - rec_offset rec \<and>
     rec_offset rec mod rec_alignment rec = 0"

lemma durable_record: "rec_content rec \<and> rec_placed rec m \<longleftrightarrow> validate_record rec m \<and> rec_canonical rec"
  unfolding rec_content_def rec_placed_def enums_durable_def states_durable_def validate_record_def rec_canonical_def is_pow2_def
  by (auto simp: not_less)

lemma live_placed:
  assumes "gov_inv g" "recs g i = Some rec"
  shows "rec_placed rec (managed g)"
proof -
  note b = rec_bounds [OF assms]
  have "rec_offset rec \<le> managed g" using b(1) by (simp add: word_le_nat_alt)
  moreover have "rec_region_size rec \<le> managed g - rec_offset rec" using b(1) by (simp add: word_le_nat_alt unat_sub_le)
  ultimately show ?thesis using b(3,4) by (simp add: rec_placed_def)
qed

lemma states_durable_used [simp]:
  "states_durable ResidencyState.RESIDENT LifecycleState.RESIDENT" "states_durable ResidencyState.RESIDENT LifecycleState.PINNED"
  "states_durable ResidencyState.NONRESIDENT LifecycleState.RELEASED"
  "states_durable ResidencyState.REVALIDATION_REQUIRED LifecycleState.REVALIDATION_REQUIRED"
  by (simp_all add: states_durable_def enum_ok_def ResidencyState_of_code_def LifecycleState_of_code_def enum_cast_def)

lemma enums_durable_movability:
  "enums_durable mc rc mv pv \<Longrightarrow> enums_durable mc rc Movability.PINNED pv" "enums_durable mc rc mv pv \<Longrightarrow> enums_durable mc rc Movability.MOVABLE pv"
  by (simp_all add: enums_durable_def enum_ok_def Movability_of_code_def enum_cast_def)

section \<open>Durable states\<close>

definition durable :: "MemoryGovernor \<Rightarrow> bool" where
  "durable g \<longleftrightarrow> gov_inv g \<and> dom_canonical (g_domain g) \<and> wm_valid (dom_watermarks (g_domain g)) \<and>
     (\<forall>i rec. recs g i = Some rec \<longrightarrow> rec_content rec) \<and>
     (\<forall>i rec. om_find (g_retired g) i = Some rec \<longrightarrow>
        rec_content rec \<and> rec_placed rec (managed g) \<and> id_value i < g_next_alloc_id g \<and> recs g i = None)"

lemma durableD:
  assumes "durable g"
  shows "gov_inv g" "dom_canonical (g_domain g)" "wm_valid (dom_watermarks (g_domain g))" "recs g i = Some rec \<Longrightarrow> rec_content rec"
    "om_find (g_retired g) i = Some rec \<Longrightarrow> rec_content rec \<and> rec_placed rec (managed g) \<and> id_value i < g_next_alloc_id g \<and> recs g i = None"
  using assms by (auto simp: durable_def)

text \<open>An operation that replaces one record.\<close>

lemma durable_replace:
  assumes "durable g" "gov_inv g'" "recs g aid \<noteq> None" "recs g' = (recs g)(aid \<mapsto> rec)" "rec_content rec" "g_retired g' = g_retired g"
    "g_next_alloc_id g' = g_next_alloc_id g" "managed g' = managed g" "dom_canonical (g_domain g')" "wm_valid (dom_watermarks (g_domain g'))"
  shows "durable g'"
proof -
  have "om_find (g_retired g) aid = None" using durableD(5) [OF assms(1), of aid] assms(3) by (cases "om_find (g_retired g) aid") auto
  then show ?thesis using assms unfolding durable_def by (auto split: if_splits)
qed

lemma count_canonical [simp]:
  "dom_canonical (count_request rec sz d) = dom_canonical d" "dom_canonical (count_release rec d) = dom_canonical d"
  "dom_canonical (count_pin rec d) = dom_canonical d" "dom_canonical (count_unpin rec d) = dom_canonical d"
  "dom_watermarks (count_request rec sz d) = dom_watermarks d" "dom_watermarks (count_release rec d) = dom_watermarks d"
  "dom_watermarks (count_pin rec d) = dom_watermarks d" "dom_watermarks (count_unpin rec d) = dom_watermarks d"
  by (simp_all add: dom_canonical_def count_request_def count_release_def count_pin_def count_unpin_def Let_def)

definition req_durable :: "AllocationRequest \<Rightarrow> bool" where
  "req_durable req \<longleftrightarrow> enums_durable (req_mem_class req) (req_reclaimability req) (req_movability req) (req_provenance req) \<and>
     str_ok (req_owner req) \<and> str_ok (req_backing_ref req)"

lemma u64_less_succ: "x < y \<Longrightarrow> y \<noteq> - 1 \<Longrightarrow> x < y + 1" for x y :: u64
  by (simp add: word_less_nat_alt u64_succ)

lemma request_durable:
  assumes d: "durable g" and nw: "g_next_alloc_id g \<noteq> - 1" and req: "req_durable req"
  shows "durable (fst (gov_request g req))"
  using durableD(1) [OF d] nw
proof (cases rule: request_cases [of g req])
  case (invalid e)
  then show ?thesis using d by simp
next
  case (rejected why msg)
  have "durable (g\<lparr>g_next_alloc_id := g_next_alloc_id g + 1\<rparr>)"
    using d rejected(4) u64_less_succ [OF _ nw] unfolding durable_def by simp
  then show ?thesis using rejected(3) by simp
next
  case (ok g' r aid rec)
  have eq: "g_domain g' = count_request rec (ri_size r) (g_domain g)" "g_retired g' = g_retired g"
    "g_next_alloc_id g' = g_next_alloc_id g + 1" by (subst ok(12); simp)+
  have v: "req_bytes req \<noteq> 0" "is_pow2 (req_alignment req)" using ok(1) by (auto simp: request_error_def validate_request_ok split: if_splits)
  then have "0 < unat (req_alignment req)" by (auto simp: is_pow2_def unat_pos_iff)
  then have "req_bytes req \<le> ri_size r" using ok(11) round_up_ge by (simp add: word_le_nat_alt)
  moreover have "enums_durable (req_mem_class req) (req_reclaimability req) (ar_movability (the_request g req)) (req_provenance req)"
    using req enums_durable_movability(1) by (auto simp: req_durable_def arena_request_def)
  ultimately have c: "rec_content rec" using v req unfolding ok(5)
    by (simp add: rec_content_def request_record_def req_durable_def gen_first_def)
  have "om_find (g_retired g) aid = None" using durableD(5) [OF d, of aid] ok(3) by (cases "om_find (g_retired g) aid") auto
  then have "durable g'" using d ok(8,9) c u64_less_succ [OF _ nw] unfolding durable_def eq by (auto split: if_splits)
  then show ?thesis using ok(7) by simp
qed

lemma release_durable:
  assumes d: "durable g"
  shows "durable (fst (release_locked g aid gen wb sb))"
  using durableD(1) [OF d]
proof (cases rule: release_cases [of g aid gen wb sb])
  case (rejected why msg)
  then show ?thesis using d by simp
next
  case (ok g' rec)
  have eq: "g_domain g' = count_release (released rec) (g_domain g)" "g_next_alloc_id g' = g_next_alloc_id g" by (subst ok(9); simp)+
  have c: "rec_content (released rec)" using durableD(4) [OF d ok(2)] by (simp add: rec_content_def released_def)
  have p: "rec_placed (released rec) (managed g)" using live_placed [OF durableD(1) [OF d] ok(2)] by (simp add: rec_placed_def released_def)
  have lt: "id_value aid < g_next_alloc_id g" using durableD(1) [OF d] ok(2) by (auto elim: gov_live)
  have "durable g'" using d ok(6,7,8) c p lt unfolding durable_def eq by (auto split: if_splits)
  then show ?thesis using ok(5) by simp
qed

lemma pin_durable:
  assumes d: "durable g"
  shows "durable (fst (gov_pin g aid gen))"
  using durableD(1) [OF d]
proof (cases rule: pin_cases [of g aid gen])
  case (stale msg)
  then show ?thesis using d by simp
next
  case (ok g' rec r)
  have eq: "g_domain g' = count_pin (pinned_rec r rec) (g_domain g)" "g_next_alloc_id g' = g_next_alloc_id g" "g_retired g' = g_retired g"
    by (subst ok(8); simp)+
  have "rec_residency rec = ResidencyState.RESIDENT" using ok(4) by (simp add: rec_matches_def)
  then have c: "rec_content (pinned_rec r rec)"
    using durableD(4) [OF d ok(1)] enums_durable_movability(1) by (auto simp: rec_content_def pinned_rec_def)
  have "durable g'" by (rule durable_replace [OF d ok(6) _ ok(7) c]) (use ok(1) durableD [OF d] in \<open>simp_all add: eq\<close>)
  then show ?thesis using ok(5) by simp
qed

lemma unpin_durable:
  assumes d: "durable g"
  shows "durable (fst (gov_unpin g aid gen))"
  using durableD(1) [OF d]
proof (cases rule: unpin_cases [of g aid gen])
  case (ok g' rec r)
  have eq: "g_domain g' = count_unpin (unpinned_rec r rec) (g_domain g)" "g_next_alloc_id g' = g_next_alloc_id g" "g_retired g' = g_retired g"
    by (subst ok(9); simp)+
  have m: "rec_residency rec = ResidencyState.RESIDENT" "ri_movability r = rec_movability rec" using ok(4) by (simp_all add: rec_matches_def)
  have "ri_movability (unpinned_region r) \<in> {Movability.MOVABLE, rec_movability rec}"
    using m by (simp add: unpinned_region_def)
  then have c: "rec_content (unpinned_rec r rec)"
    using durableD(4) [OF d ok(1)] enums_durable_movability(2) m(1) by (auto simp: rec_content_def unpinned_rec_def)
  have "durable g'" by (rule durable_replace [OF d ok(7) _ ok(8) c]) (use ok(1) durableD [OF d] in \<open>simp_all add: eq\<close>)
  then show ?thesis using ok(6) by simp
qed (use d in simp_all)

lemma move_durable:
  assumes d: "durable g" and sz: "sz = gov_region_size g aid" and gen: "gen_value gen \<noteq> - 1"
  shows "durable (fst (apply_relocation g aid gen n sz))"
  using durableD(1) [OF d]
proof (cases rule: apply_cases [of g aid gen n sz])
  case (ok g' rec r m)
  have eq: "g_domain g' = g_domain g" "g_next_alloc_id g' = g_next_alloc_id g" "g_retired g' = g_retired g" by (subst ok(11); simp)+
  have res: "rec_residency rec = ResidencyState.RESIDENT" using ok(6) by (simp add: rec_matches_def)
  have s: "sz = rec_region_size rec" using sz ok(1) by (simp add: gov_region_size_def)
  have nz: "gen_value (gen_next gen) \<noteq> 0" using gen_next_set [OF gen] by (metis nat.distinct(1) unsigned_0)
  have c: "rec_content (moved_rec m rec)"
    using durableD(4) [OF d ok(1)] res s nz by (simp add: rec_content_def moved_rec_def ok(7) moved_region_def)
  have "durable g'" by (rule durable_replace [OF d ok(9) _ ok(10) c]) (use ok(1) durableD [OF d] in \<open>simp_all add: eq\<close>)
  then show ?thesis using ok(8) by simp
qed (use d in simp_all)

lemma pressure_canonical: "PressureState_of_code (PressureState_code (evaluate_pressure ev p)) = evaluate_pressure ev p"
proof -
  have "evaluate_pressure ev p \<in> {PressureState.UNKNOWN, PressureState.LOW, PressureState.NORMAL, PressureState.HIGH, PressureState.CRITICAL}"
    by (simp add: evaluate_pressure_def classify_pressure_def)
  then show ?thesis by (auto simp: PressureState_of_code_def enum_cast_def)
qed

lemma durable_cache:
  assumes "only_cache g' g" "durable g" "PressureState_of_code (PressureState_code (dom_pressure (g_domain g'))) = dom_pressure (g_domain g')"
  shows "durable g'"
proof -
  from assms(1) obtain p where g': "g' = g\<lparr>g_arena := ensure_summary (g_arena g), g_domain := (g_domain g)\<lparr>dom_pressure := p\<rparr>\<rparr>"
    by (auto simp: only_cache_def)
  have "gov_inv g'" using assms(1) durableD(1) [OF assms(2)] by (rule cache_inv)
  then show ?thesis using assms(2,3) unfolding durable_def g' by (simp add: dom_canonical_def)
qed

lemma cached_pressure:
  "PressureState_of_code (PressureState_code (dom_pressure (g_domain (fst (gov_pressure g))))) = dom_pressure (g_domain (fst (gov_pressure g)))"
  by (simp add: gov_pressure_def Let_def pressure_canonical split: prod.split)

lemma summary_durable: "durable g \<Longrightarrow> durable (fst (gov_summary g))"
proof (rule durable_cache [OF summary_cache])
  have "\<exists>g1. fst (gov_summary g) = fst (gov_pressure g1)" by (simp add: gov_summary_def Let_def split: prod.split) (metis fst_conv)
  then obtain g1 where "fst (gov_summary g) = fst (gov_pressure g1)" ..
  then show "PressureState_of_code (PressureState_code (dom_pressure (g_domain (fst (gov_summary g))))) = dom_pressure (g_domain (fst (gov_summary g)))"
    using cached_pressure [of g1] by simp
qed

lemma pressure_durable: "durable g \<Longrightarrow> durable (fst (gov_pressure g))"
  using durable_cache [OF pressure_cache] cached_pressure by blast

lemma explain_durable: "durable g \<Longrightarrow> durable (fst (gov_explain g))"
  using summary_durable [of g] by (auto simp: gov_explain_def split: prod.splits)

lemma plan_durable: "durable g \<Longrightarrow> durable (fst (plan_compaction g))"
proof (rule durable_cache [OF plan_cache])
  assume "durable g"
  moreover have "g_domain (fst (plan_compaction g)) = g_domain g" by (simp add: plan_compaction_def Let_def split: prod.split)
  ultimately show "PressureState_of_code (PressureState_code (dom_pressure (g_domain (fst (plan_compaction g))))) = dom_pressure (g_domain (fst (plan_compaction g)))"
    by (simp add: durable_def dom_canonical_def)
qed

lemma initialize_durable: "durable g \<Longrightarrow> durable (fst (gov_initialize g))"
proof -
  assume d: "durable g"
  have "gov_inv (fst (gov_initialize g))" using durableD(1) [OF d] by (rule initialize_inv)
  moreover have "dom_canonical ((g_domain g)\<lparr>dom_health := DeviceHealth.HEALTHY\<rparr>)"
    using durableD(2) [OF d] by (simp add: dom_canonical_def DeviceHealth_of_code_def enum_cast_def)
  ultimately show ?thesis using d unfolding durable_def by (auto simp: gov_initialize_def split: option.splits sum.splits)
qed

text \<open>Recovery from a snapshot that was decoded and whose identities are all below its counter.\<close>

definition ids_below :: "PersistSnapshot \<Rightarrow> bool" where
  "ids_below s \<longleftrightarrow> (\<forall>r\<in>set (ps_records s @ ps_retired s). id_value (rec_id r) < ps_next_alloc_id s)"

lemma restored_find:
  assumes "layout_valid s" "om_find (g_retired (fst (gov_restore g s))) i = Some r"
  shows "(\<exists>q\<in>set (ps_records s). r = stale_record q \<and> rec_id q = i) \<or> r \<in> set (ps_retired s) \<and> rec_id r = i"
proof -
  have d: "distinct (map rec_id (ps_records s))" "distinct (map rec_id (ps_retired s))" using assms(1) by (simp_all add: layout_valid_def)
  let ?m1 = "foldl (\<lambda>m rec. om_assign (rec_id rec) (stale_record rec) m) [] (ps_records s)"
  have m1: "om_ok ?m1" by (rule fold_find(1)) (simp_all add: d)
  have f1: "om_find ?m1 i = (case find (\<lambda>r. rec_id r = i) (ps_records s) of Some r \<Rightarrow> Some (stale_record r) | None \<Rightarrow> None)"
    using fold_find(2) [of "[]" "ps_records s" stale_record i] d(1) by (simp split: option.splits)
  have f2: "om_find (g_retired (fst (gov_restore g s))) i =
      (case find (\<lambda>r. rec_id r = i) (ps_retired s) of Some r \<Rightarrow> Some r | None \<Rightarrow> om_find ?m1 i)"
    using fold_find(2) [OF m1 d(2), of "\<lambda>r. r" i] by (simp add: gov_restore_def Let_def)
  have mem: "find P xs = Some x \<Longrightarrow> x \<in> set xs \<and> P x" for P and xs :: "AllocationRecord list" and x
    by (auto simp: find_Some_iff)
  show ?thesis using assms(2) unfolding f2 f1 by (auto split: option.splits dest!: mem)
qed

lemma restore_durable:
  assumes "snapshot_ok s" "ids_below s"
  shows "durable (fst (gov_restore g s))"
  unfolding durable_def
proof (intro conjI allI impI)
  note st = restore_state [of g s]
  show "gov_inv (fst (gov_restore g s))" by (rule restore_inv)
  show "dom_canonical (g_domain (fst (gov_restore g s)))" "wm_valid (dom_watermarks (g_domain (fst (gov_restore g s))))"
    using assms(1) by (simp_all add: st snapshot_ok_def restored_domain_def dom_canonical_def PressureState_of_code_def DeviceHealth_of_code_def enum_cast_def)
  show "rec_content rec" if "recs (fst (gov_restore g s)) i = Some rec" for i rec using that by (simp add: st)
  fix i rec assume f: "om_find (g_retired (fst (gov_restore g s))) i = Some rec"
  have v: "rec_content q \<and> rec_placed q (dom_managed_capacity (ps_domain s)) \<and> id_value (rec_id q) < ps_next_alloc_id s"
    if "q \<in> set (ps_records s @ ps_retired s)" for q
    using assms that durable_record unfolding snapshot_ok_def layout_valid_def ids_below_def by blast
  have m: "managed (fst (gov_restore g s)) = dom_managed_capacity (ps_domain s)" by (simp add: st restored_domain_def)
  have lv: "layout_valid s" using assms(1) by (simp add: snapshot_ok_def)
  show "recs (fst (gov_restore g s)) i = None" by (simp add: st)
  from restored_find [OF lv f] have *: "rec_content rec \<and> rec_placed rec (dom_managed_capacity (ps_domain s)) \<and> id_value i < ps_next_alloc_id s"
  proof (elim disjE bexE conjE)
    fix q assume "q \<in> set (ps_records s)" "rec = stale_record q" "rec_id q = i"
    then show ?thesis using v [of q] by (simp add: rec_content_def rec_placed_def stale_record_def)
  next
    assume "rec \<in> set (ps_retired s)" "rec_id rec = i"
    then show ?thesis using v [of rec] by simp
  qed
  show "rec_content rec" "rec_placed rec (managed (fst (gov_restore g s)))" "id_value i < g_next_alloc_id (fst (gov_restore g s))"
    using * by (simp_all add: m st(3))
qed

lemma load_durable:
  assumes "durable g" "case read_file path fs of Ok s \<Rightarrow> ids_below s | _ \<Rightarrow> True"
  shows "durable (fst (gov_load g path fs))"
proof (cases "read_file path fs")
  case (Ok s)
  then show ?thesis using restore_durable [OF read_file_Ok [OF Ok]] assms(2) by (simp add: gov_load_def)
qed (use assms(1) in \<open>simp_all add: gov_load_def\<close>)

section \<open>Durable histories\<close>

definition durable_call :: "MemoryGovernor \<Rightarrow> gov_call \<Rightarrow> bool" where
  "durable_call g c \<longleftrightarrow> (case c of
      Request req \<Rightarrow> g_next_alloc_id g \<noteq> - 1 \<and> req_durable req
    | Relocate aid gen n sz \<Rightarrow> sz = gov_region_size g aid \<and> gen_value gen \<noteq> - 1
    | Restore s \<Rightarrow> snapshot_ok s \<and> ids_below s
    | Load path fs \<Rightarrow> (case read_file path fs of Ok s \<Rightarrow> ids_below s | _ \<Rightarrow> True)
    | _ \<Rightarrow> True)"

fun durable_history :: "MemoryGovernor \<Rightarrow> gov_call list \<Rightarrow> bool" where
  "durable_history g [] \<longleftrightarrow> True"
| "durable_history g (c # cs) \<longleftrightarrow> durable_call g c \<and> durable_history (gov_exec g c) cs"

lemma exec_durable: "durable g \<Longrightarrow> durable_call g c \<Longrightarrow> durable (gov_exec g c)"
  by (cases c)
    (simp_all add: durable_call_def request_durable gov_release_def release_for_worker_def release_durable pin_durable unpin_durable move_durable
      pressure_durable summary_durable plan_durable explain_durable restore_durable load_durable initialize_durable)

lemma history_durable: "durable g \<Longrightarrow> durable_history g cs \<Longrightarrow> durable (foldl gov_exec g cs)"
  by (induction cs arbitrary: g) (simp_all add: exec_durable)

lemma new_durable: "dom_canonical d \<Longrightarrow> wm_valid (dom_watermarks d) \<Longrightarrow> durable (MemoryGovernor_new d be)"
  using new_inv [of d be] by (simp add: durable_def MemoryGovernor_new_def)

text \<open>The snapshot of a durable governor passes every check of the decoder but the ones on the counts.\<close>

lemma durable_snapshot:
  assumes d: "durable g"
  shows "layout_valid (gov_snapshot g)" "ids_below (gov_snapshot g)"
    "\<forall>r\<in>set (ps_records (gov_snapshot g) @ ps_retired (gov_snapshot g)). rec_canonical r"
proof -
  have ok: "om_ok (g_records g)" "om_ok (g_retired g)" using durableD(1) [OF d] by (simp_all add: gov_inv_def)
  have live: "recs g i = Some r \<and> rec_id r = i \<and> rec_content r \<and> rec_placed r (managed g) \<and> id_value i < g_next_alloc_id g"
    if "(i, r) \<in> set (g_records g)" for i r
  proof -
    have f: "recs g i = Some r" using that ok(1) by (simp add: om_find_iff)
    moreover have "rec_id r = i \<and> id_value i < g_next_alloc_id g" using durableD(1) [OF d] f by (simp add: gov_inv_def)
    ultimately show ?thesis using live_placed [OF durableD(1) [OF d] f] durableD(4) [OF d f] by blast
  qed
  have ret: "om_find (g_retired g) i = Some r \<and> rec_id r = i \<and> rec_content r \<and> rec_placed r (managed g) \<and> id_value i < g_next_alloc_id g \<and> recs g i = None"
    if "(i, r) \<in> set (g_retired g)" for i r
  proof -
    have f: "om_find (g_retired g) i = Some r" using that ok(2) by (simp add: om_find_iff)
    moreover have "rec_id r = i" using durableD(1) [OF d] f by (simp add: gov_inv_def)
    ultimately show ?thesis using durableD(5) [OF d f] by blast
  qed
  have all: "rec_content r \<and> rec_placed r (managed g) \<and> id_value (rec_id r) < g_next_alloc_id g"
    if "r \<in> set (map snd (g_records g) @ map snd (g_retired g))" for r
    using that live ret by fastforce
  have keys: "map rec_id (map snd (g_records g)) = map fst (g_records g)" "map rec_id (map snd (g_retired g)) = map fst (g_retired g)"
    using live ret by (auto simp: map_eq_conv)
  have "distinct (map rec_id (map snd (g_records g) @ map snd (g_retired g)))"
  proof -
    have "fst ` set (g_records g) \<inter> fst ` set (g_retired g) = {}" using live ret by fastforce
    then show ?thesis unfolding map_append keys using om_ok_distinct [OF ok(1)] om_ok_distinct [OF ok(2)] by simp
  qed
  moreover have "sorted_wrt (\<lambda>r r'. rec_bytes r \<inter> rec_bytes r' = {}) (map snd (g_records g))"
  proof -
    have "sorted_wrt (\<lambda>x y. fst x < fst y) (g_records g)" using ok(1) by (simp add: sorted_wrt_map)
    then have "sorted_wrt (\<lambda>x y. rec_bytes (snd x) \<inter> rec_bytes (snd y) = {}) (g_records g)"
    proof (rule sorted_wrt_mono_rel [rotated])
      fix x y assume xy: "x \<in> set (g_records g)" "y \<in> set (g_records g)" "fst x < fst y"
      have "recs g (fst x) = Some (snd x)" "recs g (fst y) = Some (snd y)" using live xy(1,2) by (metis prod.collapse)+
      then have "disjoint_recs (snd x) (snd y)" using xy(3) by (intro recs_disjoint [OF durableD(1) [OF d]]) auto
      then show "rec_bytes (snd x) \<inter> rec_bytes (snd y) = {}" by (auto simp: disjoint_recs_def rec_bytes_def)
    qed
    then show ?thesis by (simp add: sorted_wrt_map)
  qed
  moreover have "\<forall>r\<in>set (map snd (g_records g) @ map snd (g_retired g)). validate_record r (managed g) \<and> rec_canonical r"
    using all durable_record by blast
  ultimately show "layout_valid (gov_snapshot g)" "\<forall>r\<in>set (ps_records (gov_snapshot g) @ ps_retired (gov_snapshot g)). rec_canonical r"
    unfolding layout_valid_def gov_snapshot_def by simp_all
  show "ids_below (gov_snapshot g)" using all unfolding ids_below_def gov_snapshot_def by simp
qed

lemma durable_snapshot_ok:
  assumes "durable g" "length (g_records g) \<le> 2 ^ 20" "length (g_retired g) \<le> 2 ^ 20"
  shows "snapshot_ok (gov_snapshot g)"
  using durable_snapshot(1,3) [OF assms(1)] durableD(2,3) [OF assms(1)] assms(2,3) by (simp add: snapshot_ok_def gov_snapshot_def)

lemma durable_crowded:
  assumes "durable g" "length (g_records g) < 2 ^ 32" "length (g_retired g) < 2 ^ 32" "2 ^ 20 < length (g_records g) \<or> 2 ^ 20 < length (g_retired g)"
  shows "persist_decode (persist_encode (gov_snapshot g)) =
    persist_fail (if 2 ^ 20 < length (g_records g) then ''hostile record count'' else ''hostile retired count'')"
  using decode_crowded [of "gov_snapshot g"] durable_snapshot(3) [OF assms(1)] durableD(2,3) [OF assms(1)] assms(2-4)
  by (simp add: gov_snapshot_def)

text \<open>What a governor holds that was restored from the snapshot of a durable one.\<close>

lemma restored_snapshot:
  assumes du: "durable g" and s: "snapshot_ok (gov_snapshot g)" and g3: "g3 = fst (gov_restore g2 (gov_snapshot g))"
  shows "recs g i = Some rec \<Longrightarrow> om_find (g_retired g3) i = Some (stale_record rec)"
    "om_find (g_retired g) i = Some rec \<Longrightarrow> om_find (g_retired g3) i = Some rec"
    "gov_allocations g3 = []" "g_next_alloc_id g3 = g_next_alloc_id g" "durable g3"
proof -
  have lv: "layout_valid (gov_snapshot g)" using s by (simp add: snapshot_ok_def)
  show "om_find (g_retired g3) i = Some (stale_record rec)" if f: "recs g i = Some rec"
  proof -
    have "rec \<in> set (ps_records (gov_snapshot g))" using map_of_SomeD [OF f] by (force simp: gov_snapshot_def)
    moreover have "rec_id rec = i" using durableD(1) [OF du] f by (simp add: gov_inv_def)
    ultimately show ?thesis using restored_retired(1) [OF lv, of rec g2] by (simp add: g3)
  qed
  show "om_find (g_retired g3) i = Some rec" if f: "om_find (g_retired g) i = Some rec"
  proof -
    have "rec \<in> set (ps_retired (gov_snapshot g))" using map_of_SomeD [OF f] by (force simp: gov_snapshot_def)
    moreover have "rec_id rec = i" using durableD(1) [OF du] f by (simp add: gov_inv_def)
    ultimately show ?thesis using restored_retired(2) [OF lv, of rec g2] by (simp add: g3)
  qed
  show "gov_allocations g3 = []" "g_next_alloc_id g3 = g_next_alloc_id g"
    by (simp_all add: g3 gov_allocations_def gov_restore_def gov_snapshot_def Let_def)
  show "durable g3" unfolding g3 by (rule restore_durable [OF s durable_snapshot(2) [OF du]])
qed

text \<open>
  C14. What a governor saves, on a disk that stores what is written, after a history of well-formed calls (\<open>durable_history\<close>) from a
  well-formed domain: \<open>save\<close> always succeeds.  With at most \<open>2^20\<close> live and at most \<open>2^20\<close> retired records, \<open>load\<close> into any
  governor succeeds; what was live is then known and stale, what was retired is as it was, and no identity of either is given out again.
  With more (fewer than \<open>2^32\<close> of each), \<open>load\<close> refuses the file that \<open>save\<close> wrote and the governor is left as it was.
\<close>

theorem save_load_recovers:
  assumes "dom_canonical d" "wm_valid (dom_watermarks d)" "durable_history (MemoryGovernor_new d be) cs"
    "g = foldl gov_exec (MemoryGovernor_new d be) cs" "length (g_records g) < 2 ^ 32" "length (g_retired g) < 2 ^ 32"
    "fs_can_write fs path" "fs_can_read fs path" "\<forall>bytes. fs_write fs path bytes = (bytes, True)"
    "gov_save g path fs = (fs', saved)" "gov_load g2 path fs' = (g3, loaded)"
  shows "saved = Ok () \<and>
    (if length (g_records g) \<le> 2 ^ 20 \<and> length (g_retired g) \<le> 2 ^ 20 then
       loaded = Ok () \<and>
       (\<forall>i rec. recs g i = Some rec \<longrightarrow> om_find (g_retired g3) i = Some (stale_record rec)) \<and>
       (\<forall>i rec. om_find (g_retired g) i = Some rec \<longrightarrow> om_find (g_retired g3) i = Some rec) \<and>
       gov_allocations g3 = [] \<and> g_next_alloc_id g3 = g_next_alloc_id g \<and>
       (\<forall>i rec. om_find (g_retired g3) i = Some rec \<longrightarrow> id_value i < g_next_alloc_id g3)
     else g3 = g2 \<and>
       loaded = persist_fail (if 2 ^ 20 < length (g_records g) then ''hostile record count'' else ''hostile retired count''))"
proof -
  have du: "durable g" using history_durable [OF new_durable [OF assms(1,2)] assms(3)] assms(4) by simp
  note wr = write_read_file [OF assms(7) assms(9) [rule_format] assms(8), of "gov_snapshot g"]
  have sv: "saved = Ok ()" and rd: "read_file path fs' = persist_decode (persist_encode (gov_snapshot g))"
    using wr assms(10) by (simp_all add: gov_save_def)
  show ?thesis
  proof (cases "length (g_records g) \<le> 2 ^ 20 \<and> length (g_retired g) \<le> 2 ^ 20")
    case True
    then have s: "snapshot_ok (gov_snapshot g)" by (intro durable_snapshot_ok [OF du]) simp_all
    have "g3 = fst (gov_restore g2 (gov_snapshot g))" "loaded = Ok ()"
      using assms(11) rd decode_encode [OF s] restore_state(5) [of g2 "gov_snapshot g"] by (auto simp: gov_load_def prod_eq_iff)
    then show ?thesis using True sv restored_snapshot [OF du s] durableD(5) by (metis (no_types, lifting))
  next
    case False
    then have f: "2 ^ 20 < length (g_records g) \<or> 2 ^ 20 < length (g_retired g)" by auto
    show ?thesis unfolding if_not_P [OF False]
      using sv rd durable_crowded [OF du assms(5,6) f] assms(11) by (simp add: gov_load_def persist_fail_def)
  qed
qed

definition demo_disk :: file_system where
  "demo_disk = \<lparr>fs_files = \<lambda>_. None, fs_can_write = \<lambda>_. True, fs_write = \<lambda>p b. (b, True), fs_can_read = \<lambda>_. True\<rparr>"

lemma demo_gov_history:
  "demo_gov = foldl gov_exec (MemoryGovernor_new (demo_domain\<lparr>dom_current_committed := 0, dom_current_resident := 0\<rparr>) (Some demo_backend))
     (Initialize # [Request (demo_req 100 64 Reclaimability.BEST_EFFORT), Request (demo_req 256 64 Reclaimability.RECLAIM_IF_COLD),
      Request (demo_req 64 64 Reclaimability.BEST_EFFORT), Release (TypedId 2) (TypedGeneration 1)])"
  by (simp add: demo_gov_def demo_start_def)

theorem save_load_recovers_witness:
  "om_find (g_retired (fst (gov_load demo_start ''gms.bin'' (fst (gov_save demo_gov ''gms.bin'' demo_disk))))) (TypedId 1) =
     Some (stale_record (the (recs demo_gov (TypedId 1))))"
proof -
  let ?d = "demo_domain\<lparr>dom_current_committed := 0, dom_current_resident := 0\<rparr>"
  have req: "req_durable (demo_req b al rc)" if "enums_durable MemoryClass.UNKNOWN rc Movability.MOVABLE Provenance.DERIVED" for b al rc
    using that by (simp add: req_durable_def demo_req_def AllocationRequest_default_def)
  have en: "enums_durable MemoryClass.UNKNOWN Reclaimability.BEST_EFFORT Movability.MOVABLE Provenance.DERIVED"
    "enums_durable MemoryClass.UNKNOWN Reclaimability.RECLAIM_IF_COLD Movability.MOVABLE Provenance.DERIVED"
    by (simp_all add: enums_durable_def enum_ok_def MemoryClass_of_code_def Reclaimability_of_code_def Movability_of_code_def Provenance_of_code_def enum_cast_def)
  let ?r1 = "Request (demo_req 100 64 Reclaimability.BEST_EFFORT)" let ?r2 = "Request (demo_req 256 64 Reclaimability.RECLAIM_IF_COLD)"
  have n: "g_next_alloc_id demo_start \<noteq> - 1" "g_next_alloc_id (gov_exec demo_start ?r1) \<noteq> - 1"
    "g_next_alloc_id (gov_exec (gov_exec demo_start ?r1) ?r2) \<noteq> - 1" by code_simp+
  have h: "durable_history (MemoryGovernor_new ?d (Some demo_backend))
      (Initialize # [?r1, ?r2, Request (demo_req 64 64 Reclaimability.BEST_EFFORT), Release (TypedId 2) (TypedGeneration 1)])"
    unfolding durable_history.simps demo_start_def [symmetric] durable_call_def gov_call.case
    by (intro conjI TrueI n req en)
  have ok: "dom_canonical ?d" "wm_valid (dom_watermarks ?d)"
    using demo_snapshot_ok by (simp_all add: snapshot_ok_def demo_snapshot_def dom_canonical_def)
  have n2: "length (g_records demo_gov) = 2" "length (g_retired demo_gov) = 1" by code_simp+
  then have len: "length (g_records demo_gov) < 2 ^ 32" "length (g_retired demo_gov) < 2 ^ 32" by simp_all
  have one: "recs demo_gov (TypedId 1) \<noteq> None" by code_simp
  obtain fs' saved where s: "gov_save demo_gov ''gms.bin'' demo_disk = (fs', saved)" by fastforce
  obtain g3 loaded where l: "gov_load demo_start ''gms.bin'' fs' = (g3, loaded)" by fastforce
  from save_load_recovers [OF ok h demo_gov_history len _ _ _ s l] one n2 s l show ?thesis by (auto simp: demo_disk_def)
qed

end
