(* ===== verification/Gms_Cli.thy ===== *)
theory Gms_Cli
  imports Gms_Text Gms_Governor
begin

text \<open>
  The command line tool (\<^verbatim>\<open>tools/gms.cpp\<close>): sizes, arguments, and \<open>main\<close> over the governor with a host backend.
\<close>

definition parse_cap :: "string \<Rightarrow> u64" where
  "parse_cap s =
    (let t = c_str s;
         (mult, t) =
           (if t \<noteq> [] \<and> last t = CHR ''M'' then (1024 * 1024, butlast t)
            else if t \<noteq> [] \<and> last t = CHR ''G'' then (1024 * 1024 * 1024, butlast t)
            else if t \<noteq> [] \<and> last t = CHR ''K'' then (1024, butlast t)
            else (1, t))
     in strtoull t * mult)"

record CliOptions =
  cli_cap :: u64
  cli_summary :: bool
  cli_dump :: bool
  cli_alloc_spec :: string

text \<open>The loop over \<open>argv\<close>; an option without its argument, and anything unknown, is skipped.\<close>

fun parse_args :: "string list \<Rightarrow> CliOptions \<Rightarrow> CliOptions" where
  "parse_args [] opts = opts"
| "parse_args [a] opts =
     (if a = ''--summary'' then opts\<lparr>cli_summary := True\<rparr>
      else if a = ''--dump'' then opts\<lparr>cli_dump := True\<rparr> else opts)"
| "parse_args (a # v # as) opts =
     (if a = ''--cap'' then parse_args as (opts\<lparr>cli_cap := parse_cap v\<rparr>)
      else if a = ''--summary'' then parse_args (v # as) (opts\<lparr>cli_summary := True\<rparr>)
      else if a = ''--dump'' then parse_args (v # as) (opts\<lparr>cli_dump := True\<rparr>)
      else if a = ''--alloc'' then parse_args as (opts\<lparr>cli_alloc_spec := v\<rparr>)
      else parse_args (v # as) opts)"

definition MemoryDomain_default :: MemoryDomain where
  "MemoryDomain_default =
    \<lparr>dom_domain_id = TypedId 0, dom_domain_generation = gen_first, dom_device_id = TypedId 0, dom_device_generation = gen_first,
     dom_total_capacity = 0, dom_allocator_visible_capacity = 0, dom_reserved_headroom = 0, dom_managed_capacity = 0,
     dom_current_committed = 0, dom_current_physically_allocated = 0, dom_current_resident = 0, dom_current_reclaimable = 0,
     dom_current_movable = 0, dom_current_pinned = 0, dom_external_fragmentation = d_lit 0 1, dom_pressure = PressureState.UNKNOWN,
     dom_health = DeviceHealth.UNKNOWN, dom_watermarks = WatermarkConfig_default, dom_provenance = Provenance.UNKNOWN\<rparr>"

definition cli_domain :: "u64 \<Rightarrow> MemoryDomain" where
  "cli_domain cap = MemoryDomain_default\<lparr>dom_domain_id := TypedId 1, dom_domain_generation := TypedGeneration 1,
     dom_device_id := TypedId 0, dom_device_generation := TypedGeneration 1, dom_managed_capacity := cap,
     dom_provenance := Provenance.MEASURED\<rparr>"

text \<open>\<open>bytes[,align]\<close> of \<open>--alloc\<close>.\<close>

definition cli_request :: "string \<Rightarrow> AllocationRequest" where
  "cli_request spec =
    (let head = takeWhile (\<lambda>c. c \<noteq> CHR '','') spec;
         align = (if head = spec then 4096 else strtoull (drop (length head + 1) spec))
     in AllocationRequest_default\<lparr>req_bytes := parse_cap head, req_alignment := align, req_mem_class := MemoryClass.USER_BUFFER,
          req_reclaimability := Reclaimability.RECLAIM_IF_COLD, req_owner := ''cli''\<rparr>)"

text \<open>\<open>%.<d>f\<close> of \<open>printf\<close>.\<close>

definition show_fixed :: "nat \<Rightarrow> double \<Rightarrow> string" where
  "show_fixed d v = (if d_sign v then ''-'' else '''') @
    (if is_nan v then ''nan'' else if is_inf v then ''inf''
     else let m = nat (rne (d_mag v * 10 ^ d) (2 ^ 1074)); f = show_nat (m mod 10 ^ d)
          in if d = 0 then show_nat m else show_nat (m div 10 ^ d) @ ''.'' @ replicate (d - length f) CHR ''0'' @ f)"

definition show_handle :: "AllocationHandle \<Rightarrow> string" where
  "show_handle h = ''allocated id='' @ show_word (id_value (ah_id h)) @ '' gen='' @ show_word (gen_value (ah_generation h)) @
     '' off='' @ show_word (ah_offset h) @ '' size='' @ show_word (ah_size h) @ '' align='' @ show_word (ah_alignment h)"

definition show_summary :: "MemorySummary \<Rightarrow> string" where
  "show_summary s = ''summary: managed='' @ show_word (ms_managed_capacity s) @ '' free='' @ show_word (ms_free s) @
     '' committed='' @ show_word (ms_committed s) @ '' largest='' @ show_word (ms_largest_free s) @
     '' free_regions='' @ show_word (ms_free_regions s) @ '' live='' @ show_word (ms_live_allocations s) @
     '' frag='' @ show_fixed 3 (ms_external_fragmentation s) @ '' pressure='' @ PressureState_to_string (ms_pressure s)"

definition show_record :: "AllocationRecord \<Rightarrow> string" where
  "show_record a = ''  alloc id='' @ show_word (id_value (rec_id a)) @ '' gen='' @ show_word (gen_value (rec_generation a)) @
     '' off='' @ show_word (rec_offset a) @ '' size='' @ show_word (rec_region_size a) @ '' pin='' @ show_word (rec_pin_count a) @
     '' mov='' @ Movability_to_string (rec_movability a) @ '' class='' @ MemoryClass_to_string (rec_mem_class a) @
     '' owner='' @ c_str (rec_owner a)"

text \<open>What \<open>main\<close> prints after the request, and the release of the handle at the end.\<close>

definition cli_report :: "CliOptions \<Rightarrow> MemoryGovernor \<Rightarrow> AllocationHandle option \<Rightarrow> string list \<times> MemoryGovernor" where
  "cli_report opts g handle =
    (let out1 = (case handle of Some h \<Rightarrow> [show_handle h] | None \<Rightarrow> []);
         (g, out2) = (if cli_summary opts then case gov_summary g of (g, s) \<Rightarrow> (g, [show_summary s]) else (g, []));
         out3 = (if cli_dump opts then map show_record (gov_allocations g) else [])
     in (out1 @ out2 @ out3, case handle of Some h \<Rightarrow> fst (gov_release g (ah_id h) (ah_generation h)) | None \<Rightarrow> g))"

text \<open>\<open>main\<close>: the exit status, the lines printed, and the governor at the end; \<open>None\<close> if the request had undefined behaviour.\<close>

definition cli_main :: "(u64 \<Rightarrow> u64 \<Rightarrow> u64) \<Rightarrow> string list \<Rightarrow> (int \<times> string list \<times> MemoryGovernor) option" where
  "cli_main aligned_malloc args =
    (let opts = parse_args (tl args) \<lparr>cli_cap = push_bit 20 16, cli_summary = False, cli_dump = False, cli_alloc_spec = []\<rparr>;
         (g, started) = gov_initialize (MemoryGovernor_new (cli_domain (cli_cap opts)) (Some (HostBackend aligned_malloc))) in
     if \<not> has_value started then Some (1, [''init failed''], g)
     else if cli_alloc_spec opts = [] then Some (0, cli_report opts g None)
     else case gov_request g (cli_request (cli_alloc_spec opts)) of
         (g, Ok h) \<Rightarrow> Some (0, cli_report opts g (Some h))
       | (g, Err e) \<Rightarrow> Some (1, [''request failed: '' @ RejectReason_to_string (Failure.reason e)], g)
       | (g, Fault) \<Rightarrow> None)"

section \<open>Sizes on the command line\<close>

lemma last_not_digit: "c \<in> {CHR ''K'', CHR ''M'', CHR ''G''} \<Longrightarrow> \<not> is_digit c"
  by (auto simp: is_digit_def)

lemma c_str_shown: "CHR 0x00 \<notin> set r \<Longrightarrow> c_str (show_nat n @ r) = show_nat n @ r"
  using show_nat_digits [of n] is_digit_facts unfolding c_str_def takeWhile_eq_all_conv by auto

lemma strtoull_shown: "n < 2 ^ 64 \<Longrightarrow> strtoull (show_nat n) = of_nat n"
  using scan_shown [of "[]" n] by (simp add: strtoull_def)

text \<open>A size that was printed is read back; the suffixes multiply by the power of 1024, in 64 bits.\<close>

lemma parse_cap_shown:
  assumes "n < 2 ^ 64"
  shows "parse_cap (show_nat n) = of_nat n" "parse_cap (show_nat n @ ''K'') = of_nat n * 2 ^ 10"
    "parse_cap (show_nat n @ ''M'') = of_nat n * 2 ^ 20" "parse_cap (show_nat n @ ''G'') = of_nat n * 2 ^ 30"
proof -
  have "is_digit (last (show_nat n))" using show_nat_digits [of n] last_in_set by blast
  then have "last (show_nat n) \<notin> {CHR ''K'', CHR ''M'', CHR ''G''}" using last_not_digit by blast
  then show "parse_cap (show_nat n) = of_nat n"
    using assms c_str_shown [of "[]" n] by (auto simp: parse_cap_def strtoull_shown Let_def)
qed (use assms in \<open>simp_all add: parse_cap_def c_str_shown strtoull_shown Let_def\<close>)

end
