(* ===== verification/Gms_Clients.thy ===== *)
theory Gms_Clients
  imports Gms_Governor_Durable Gms_Cli
begin

text \<open>
  The programs that use the library: \<^verbatim>\<open>consumer/main.cpp\<close>, \<^verbatim>\<open>examples/basic.cpp\<close> and \<^verbatim>\<open>examples/recovery.cpp\<close>.  Each
  \<open>main\<close> is a function of the C runtime's allocator, and of the file system where it has one.
\<close>

section \<open>What the programs share\<close>

text \<open>The domain and the request of all three programs; they differ in the identity, the capacity, the size and the owner.\<close>

definition client_domain :: "u64 \<Rightarrow> u64 \<Rightarrow> MemoryDomain" where
  "client_domain did cap = MemoryDomain_default\<lparr>dom_domain_id := TypedId did, dom_domain_generation := TypedGeneration 1,
     dom_device_id := TypedId 0, dom_device_generation := TypedGeneration 1, dom_managed_capacity := cap,
     dom_provenance := Provenance.MEASURED\<rparr>"

definition client_request :: "u64 \<Rightarrow> string \<Rightarrow> AllocationRequest" where
  "client_request bytes owner = AllocationRequest_default\<lparr>req_bytes := bytes, req_alignment := 4096,
     req_mem_class := MemoryClass.USER_BUFFER, req_reclaimability := Reclaimability.RECLAIM_IF_COLD, req_owner := owner\<rparr>"

definition client_governor :: "(u64 \<Rightarrow> u64 \<Rightarrow> u64) \<Rightarrow> u64 \<Rightarrow> u64 \<Rightarrow> MemoryGovernor" where
  "client_governor aligned_malloc did cap = MemoryGovernor_new (client_domain did cap) (Some (HostBackend aligned_malloc))"

text \<open>
  The end of \<open>main\<close>: exit status, lines printed, and the address that the destructor of the governor gives back, if any.
  \<open>None\<close> is undefined behaviour.
\<close>

type_synonym program_end = "(int \<times> string list \<times> u64 option) option"

abbreviation ends :: "MemoryGovernor \<Rightarrow> int \<Rightarrow> string list \<Rightarrow> program_end" where
  "ends g status out \<equiv> Some (status, out, snd (MemoryGovernor_destroy g))"

section \<open>The consumer\<close>

definition consumer_line :: "AllocationHandle \<Rightarrow> MemorySummary \<Rightarrow> string" where
  "consumer_line h s = ''requested='' @ show_word (ah_size h) @ '' committed='' @ show_word (ms_committed s) @
     '' free='' @ show_word (ms_free s) @ '' largest='' @ show_word (ms_largest_free s) @
     '' pressure='' @ PressureState_to_string (ms_pressure s)"

definition consumer_main :: "(u64 \<Rightarrow> u64 \<Rightarrow> u64) \<Rightarrow> program_end" where
  "consumer_main aligned_malloc =
    (let (g, started) = gov_initialize (client_governor aligned_malloc 1 (push_bit 20 4)) in
     if \<not> has_value started then ends g 1 [''init failed'']
     else case gov_request g (client_request (push_bit 20 2) ''consumer'') of
         (g, Fault) \<Rightarrow> None
       | (g, Err e) \<Rightarrow> ends g 1 [''request failed: '' @ RejectReason_to_string (Failure.reason e)]
       | (g, Ok h) \<Rightarrow>
           let (g, s) = gov_summary g in
           if ms_committed s \<noteq> push_bit 20 2 then ends g 1 [consumer_line h s, ''committed mismatch'']
           else (case gov_release g (ah_id h) (ah_generation h) of
               (g, Fault) \<Rightarrow> None
             | (g, Err e) \<Rightarrow> ends g 1 [consumer_line h s, ''release failed'']
             | (g, Ok rel) \<Rightarrow>
                 let (g, s2) = gov_summary g in
                 if ms_committed s2 \<noteq> 0 \<or> ms_free s2 \<noteq> ms_managed_capacity s2
                 then ends g 1 [consumer_line h s, ''accounting mismatch after release'']
                 else ends g 0 [consumer_line h s, ''consumer: PASS'']))"

section \<open>The examples\<close>

text \<open>\<open>static_cast<unsigned>\<close> keeps the low 32 bits.\<close>

definition show_unsigned :: "u64 \<Rightarrow> string" where
  "show_unsigned v = show_word (ucast v :: u32)"

text \<open>\<open>examples/basic.cpp\<close> does not look at the result of \<open>initialize\<close>, and reads \<open>h->size\<close> whether or not there is a value.\<close>

definition basic_main :: "(u64 \<Rightarrow> u64 \<Rightarrow> u64) \<Rightarrow> program_end" where
  "basic_main aligned_malloc =
    (let (g, _) = gov_initialize (client_governor aligned_malloc 7 (push_bit 20 8)) in
     case gov_request g (client_request (push_bit 20 2) ''example'') of
         (g, Fault) \<Rightarrow> None
       | (g, Err e) \<Rightarrow> None
       | (g, Ok h) \<Rightarrow>
           let (g, s) = gov_summary g;
               out = [''alloc ok=1 size='' @ show_unsigned (ah_size h),
                      ''committed='' @ show_unsigned (ms_committed s) @ '' free='' @ show_unsigned (ms_free s) @
                      '' pressure='' @ PressureState_to_string (ms_pressure s)] in
           (case gov_release g (ah_id h) (ah_generation h) of
               (g, Fault) \<Rightarrow> None
             | (g, rel) \<Rightarrow> ends g 0 (out @ [''release ok='' @ (if has_value rel then ''1'' else ''0'')])))"

text \<open>
  \<open>examples/recovery.cpp\<close>: two governors one after the other over the same file, which is removed at the end.  Each
  destructor's address is part of the result.
\<close>

definition recovery_path :: string where
  "recovery_path = ''gms_recovery_example.bin''"

definition recovery_first :: "(u64 \<Rightarrow> u64 \<Rightarrow> u64) \<Rightarrow> file_system \<Rightarrow> (file_system \<times> string \<times> u64 option) option" where
  "recovery_first aligned_malloc fs =
    (let (g, _) = gov_initialize (client_governor aligned_malloc 9 (push_bit 20 4)) in
     case gov_request g (client_request (push_bit 20 1) ''recovery'') of
         (g, Fault) \<Rightarrow> None
       | (g, h) \<Rightarrow>
           let (g, s) = gov_summary g; (fs, _) = gov_save g recovery_path fs in
           Some (fs, ''saved, committed='' @ show_unsigned (ms_committed s), snd (MemoryGovernor_destroy g)))"

definition recovery_second :: "(u64 \<Rightarrow> u64 \<Rightarrow> u64) \<Rightarrow> file_system \<Rightarrow> string \<times> u64 option" where
  "recovery_second aligned_malloc fs =
    (let (g, _) = gov_load (client_governor aligned_malloc 9 (push_bit 20 4)) recovery_path fs;
         (g, s) = gov_summary g in
     (''recovered committed='' @ show_unsigned (ms_committed s) @ '' (conservative, physical bytes are not silently current)'',
      snd (MemoryGovernor_destroy g)))"

definition recovery_main :: "(u64 \<Rightarrow> u64 \<Rightarrow> u64) \<Rightarrow> file_system \<Rightarrow> (file_system \<times> string list \<times> u64 option \<times> u64 option) option" where
  "recovery_main aligned_malloc fs =
    (case recovery_first aligned_malloc fs of
       None \<Rightarrow> None
     | Some (fs, out1, freed1) \<Rightarrow>
         let (out2, freed2) = recovery_second aligned_malloc fs in
         Some (fs\<lparr>fs_files := (fs_files fs)(recovery_path := None)\<rparr>, [out1, out2], freed1, freed2))"

section \<open>A session of request and release\<close>

text \<open>
  \<open>request\<close> and then \<open>release\<close> of the handle it gave, with queries in between: the release succeeds, and the records and the
  bytes of the arena are what they were.
\<close>

lemma cache_facts:
  assumes "only_cache g' g"
  shows "g_records g' = g_records g" "g_retired g' = g_retired g" "managed g' = managed g" "g_arena_base g' = g_arena_base g" "g_backend g' = g_backend g"
    "g_initialized g' = g_initialized g" "ra_live_bytes (g_arena g') = ra_live_bytes (g_arena g)" "ra_capacity (g_arena g') = ra_capacity (g_arena g)"
  using assms by (auto simp: only_cache_def)

lemma request_then_release:
  assumes inv: "gov_inv g" and n: "g_next_alloc_id g \<noteq> - 1" and pin: "\<not> req_requires_pin req"
    and rq: "gov_request g req = (g1, Ok h)" and c: "only_cache g2 g1"
  obtains g3 rec where "gov_release g2 (ah_id h) (ah_generation h) = (g3, Ok rec)" "gov_inv g2" "gov_inv g3" "recs g3 = recs g"
    "unat (ah_size h) = round_up (unat (req_bytes req)) (unat (req_alignment req))"
    "unat (ra_live_bytes (g_arena g2)) = unat (ra_live_bytes (g_arena g)) + unat (ah_size h)" "ra_live_bytes (g_arena g3) = ra_live_bytes (g_arena g)"
    "managed g1 = managed g" "managed g3 = managed g" "g_arena_base g3 = g_arena_base g" "g_backend g3 = g_backend g" "g_initialized g3 = g_initialized g"
    "g_arena_base g1 = g_arena_base g" "g_backend g1 = g_backend g" "g_initialized g1 = g_initialized g"
  using inv n
proof (cases rule: request_cases [of g req])
  case (invalid e)
  then show thesis using rq by simp
next
  case (rejected why msg)
  then show thesis using rq by simp
next
  case (ok g' r aid rec)
  have g1: "g1 = g'" and h: "ah_id h = aid" "ah_generation h = gen_first" "ah_size h = ri_size r" using rq ok(7) by auto
  note k = cache_facts [OF c]
  have inv2: "gov_inv g2" using cache_inv [OF c] ok(8) g1 by simp
  have rec: "recs g2 aid = Some rec" using ok(9) g1 k by simp
  have "rec_generation rec = gen_first" "rec_pin_count rec = 0" "rec_region_size rec = ri_size r"
    using pin by (simp_all add: ok(5) request_record_def)
  note rf = this
  then have re: "release_error g2 aid gen_first (TypedGeneration 0) (TypedGeneration 0) = None"
    using rec by (simp add: release_error_def is_set_def)
  have m: "managed g1 = managed g" "g_arena_base g1 = g_arena_base g" "g_backend g1 = g_backend g" "g_initialized g1 = g_initialized g"
    unfolding g1 by (subst ok(12), simp add: count_managed)+
  from inv2 show thesis
  proof (cases rule: release_cases [of g2 aid gen_first "TypedGeneration 0" "TypedGeneration 0"])
    case (rejected why msg)
    then show thesis using re by simp
  next
    case R: (ok g3 rec')
    have e: "rec' = rec" using R(2) rec by simp
    have m3: "managed g3 = managed g2" "g_arena_base g3 = g_arena_base g2" "g_backend g3 = g_backend g2" "g_initialized g3 = g_initialized g2"
      by (subst R(9), simp add: count_managed)+
    have "recs g3 = recs g" using R(7) ok(4,9) g1 k(1) by auto
    moreover have "unat (ra_live_bytes (g_arena g2)) = unat (ra_live_bytes (g_arena g)) + unat (ah_size h)" using k(7) ok(13) g1 h by simp
    moreover from this have "ra_live_bytes (g_arena g3) = ra_live_bytes (g_arena g)" using R(10) e rf(3) h by (simp add: u64_eq_iff)
    moreover have "gov_release g2 (ah_id h) (ah_generation h) = (g3, Ok (released rec'))" using R(5) h by (simp add: gov_release_def)
    ultimately show thesis using that R(6) inv2 ok(11) h m m3 k by simp
  qed
qed

lemma client_started:
  assumes "cap \<noteq> 0"
  shows "gov_initialize (client_governor m did cap) =
    (if m cap 256 = 0 then (client_governor m did cap, Err (Failure RejectReason.PHYSICAL_OOM ''''))
     else ((client_governor m did cap)\<lparr>g_arena_base := m cap 256, g_initialized := True,
             g_domain := (client_domain did cap)\<lparr>dom_health := DeviceHealth.HEALTHY\<rparr>\<rparr>, Ok ()))"
  using assms by (simp add: gov_initialize_def client_governor_def MemoryGovernor_new_def client_domain_def HostBackend_def Let_def)

text \<open>A client gets its memory: the request of \<open>b\<close> bytes on an arena of \<open>cap\<close> bytes.\<close>

definition client_fits :: "u64 \<Rightarrow> u64 \<Rightarrow> string \<Rightarrow> bool" where
  "client_fits cap b owner \<longleftrightarrow> Failure_ok (validate_request (client_request b owner) cap) \<and> detail_align_up b 4096 \<noteq> 0 \<and> b \<le> detail_align_up b 4096 \<and>
     has_value (snd (arena_allocate (RegionAllocator_new cap) (arena_request (client_request b owner) (TypedId 1) gen_first)))"

lemma clients_fit:
  "client_fits (push_bit 20 4) (push_bit 20 2) ''consumer''" "client_fits (push_bit 20 8) (push_bit 20 2) ''example''"
  "client_fits (push_bit 20 4) (push_bit 20 1) ''recovery''"
  by code_simp+

lemma client_session:
  assumes "client_fits cap b owner" "cap \<noteq> 0" "m cap 256 \<noteq> 0" "gov_initialize (client_governor m did cap) = (g, started)"
  obtains g1 h where "started = Ok ()" "gov_request g (client_request b owner) = (g1, Ok h)" "gov_inv g" "g_next_alloc_id g = 1"
    "ra_live_bytes (g_arena g) = 0" "managed g = cap" "recs g = Map.empty" "g_arena_base g = m cap 256" "g_initialized g" "g_backend g \<noteq> None"
proof -
  have g: "g = (client_governor m did cap)\<lparr>g_arena_base := m cap 256, g_initialized := True,
             g_domain := (client_domain did cap)\<lparr>dom_health := DeviceHealth.HEALTHY\<rparr>\<rparr>" "started = Ok ()"
    using client_started [OF assms(2), where m = m and did = did] assms(3,4) by simp_all
  have inv: "gov_inv g" using initialize_inv [OF new_inv, of "client_domain did cap" "Some (HostBackend m)"] assms(4) by (simp add: client_governor_def)
  have f: "g_next_alloc_id g = 1" "g_initialized g" "managed g = cap" "g_arena g = RegionAllocator_new cap" "g_arena_base g = m cap 256" "g_backend g \<noteq> None"
    "recs g = Map.empty"
    by (simp_all add: g client_governor_def MemoryGovernor_new_def client_domain_def)
  let ?req = "client_request b owner"
  have rq: "req_bytes ?req = b" "req_alignment ?req = 4096" by (simp_all add: client_request_def)
  have "has_value (snd (gov_request g ?req))"
    using assms(1) unfolding client_fits_def
    by (auto simp: gov_request_def Let_def f rq next_id_locked_def has_value_def not_less split: prod.splits result.splits)
  then obtain g1 h where "gov_request g ?req = (g1, Ok h)" by (cases "gov_request g ?req") (auto simp: has_value_def split: result.splits)
  then show thesis using that g(2) inv f by simp
qed

lemma client_pinless: "\<not> req_requires_pin (client_request b owner)"
  by (simp add: client_request_def AllocationRequest_default_def)

lemma client_request_simps [simp]: "req_bytes (client_request b owner) = b" "req_alignment (client_request b owner) = 4096"
  by (simp_all add: client_request_def)

lemma client_destroy: "g_arena_base g \<noteq> 0 \<Longrightarrow> g_initialized g \<Longrightarrow> g_backend g \<noteq> None \<Longrightarrow> snd (MemoryGovernor_destroy g) = Some (g_arena_base g)"
  by (simp add: MemoryGovernor_destroy_def)

text \<open>A client on a fresh governor: it requests, asks for a summary, releases, and the arena is free again.\<close>

lemma client_round:
  assumes "client_fits cap b owner" "cap \<noteq> 0" "m cap 256 \<noteq> 0" "round_up (unat b) 4096 = unat b"
  obtains g g1 h g2 s g3 rec where "gov_initialize (client_governor m did cap) = (g, Ok ())" "gov_request g (client_request b owner) = (g1, Ok h)"
    "gov_summary g1 = (g2, s)" "gov_release g2 (ah_id h) (ah_generation h) = (g3, Ok rec)"
    "ah_size h = b" "ms_committed s = b" "ms_free s = cap - b" "ra_live_bytes (g_arena g3) = 0" "ra_capacity (g_arena g3) = cap" "managed g3 = cap"
    "g_arena_base g2 = m cap 256" "g_initialized g2" "g_backend g2 \<noteq> None"
    "g_arena_base g3 = m cap 256" "g_initialized g3" "g_backend g3 \<noteq> None"
proof -
  obtain g started where i: "gov_initialize (client_governor m did cap) = (g, started)" by fastforce
  from client_session [OF assms(1-3) i] obtain g1 h where
    s: "started = Ok ()" "gov_request g (client_request b owner) = (g1, Ok h)" "gov_inv g" "g_next_alloc_id g = 1"
    "ra_live_bytes (g_arena g) = 0" "managed g = cap" "g_arena_base g = m cap 256" "g_initialized g" "g_backend g \<noteq> None" by metis
  obtain g2 s where sm: "gov_summary g1 = (g2, s)" by fastforce
  then have c: "only_cache g2 g1" using summary_cache [of g1] by simp
  have n: "g_next_alloc_id g \<noteq> - 1" by (simp add: s(4))
  from request_then_release [OF s(3) n client_pinless s(2) c] obtain g3 rec where
    r: "gov_release g2 (ah_id h) (ah_generation h) = (g3, Ok rec)" "gov_inv g2" "gov_inv g3" "unat (ah_size h) = unat b"
    "unat (ra_live_bytes (g_arena g2)) = unat (ah_size h)" "ra_live_bytes (g_arena g3) = 0" "managed g1 = managed g" "managed g3 = managed g"
    "g_arena_base g3 = g_arena_base g" "g_backend g3 = g_backend g" "g_initialized g3 = g_initialized g"
    "g_arena_base g1 = g_arena_base g" "g_backend g1 = g_backend g" "g_initialized g1 = g_initialized g"
    using s(5) assms(4) by simp metis
  note k = cache_facts [OF c]
  have cap: "ra_capacity (g_arena g1) = cap" "ra_capacity (g_arena g3) = cap"
    using r(2,3,7,8) s(6) k(3,8) assms(2) by (simp_all add: gov_inv_def arena_ok_def)
  have "ah_size h = b" "ra_live_bytes (g_arena g1) = b" using r(4,5) k(7) by (simp_all add: u64_eq_iff)
  moreover from this have "ms_committed s = b" "ms_free s = cap - b"
    using summary_values [of g1] sm cap by (simp_all add: free_bytes_def)
  ultimately show thesis using that i s sm r cap k by simp
qed

lemma client_refused:
  assumes "m cap 256 = 0" "cap \<noteq> 0" "Failure_ok (validate_request (client_request b owner) cap)"
  shows "gov_request (client_governor m did cap) (client_request b owner) =
    (client_governor m did cap, Err (Failure RejectReason.INTERNAL_ERROR ''governor not initialized''))"
  using assms by (simp add: gov_request_def client_governor_def MemoryGovernor_new_def client_domain_def Let_def)

lemma client_not_started: "snd (MemoryGovernor_destroy (client_governor m did cap)) = None"
  by (simp add: MemoryGovernor_destroy_def client_governor_def MemoryGovernor_new_def)

lemma digit_chars:
  "char_of (48 :: nat) = CHR ''0''" "char_of (49 :: nat) = CHR ''1''" "char_of (50 :: nat) = CHR ''2''" "char_of (51 :: nat) = CHR ''3''"
  "char_of (52 :: nat) = CHR ''4''" "char_of (53 :: nat) = CHR ''5''" "char_of (54 :: nat) = CHR ''6''" "char_of (55 :: nat) = CHR ''7''"
  "char_of (56 :: nat) = CHR ''8''" "char_of (57 :: nat) = CHR ''9''"
  by code_simp+

lemmas show_numeral = show_unsigned_def show_word_def show_nat.simps digit_chars

text \<open>The basic example prints what it got and gives it back; if the arena cannot be had, it reads a value that is not there.\<close>

lemma basic_behaviour:
  assumes "m (push_bit 20 8) 256 \<noteq> 0"
  shows "\<exists>p. basic_main m = Some (0, [''alloc ok=1 size=2097152'', ''committed=2097152 free=6291456 pressure='' @ PressureState_to_string p,
    ''release ok=1''], Some (m (push_bit 20 8) 256))"
proof -
  have "push_bit 20 8 \<noteq> (0 :: u64)" "round_up (unat (push_bit 20 2 :: u64)) 4096 = unat (push_bit 20 2 :: u64)" by (simp_all add: round_up_def)
  from client_round [where m = m and did = 7, OF clients_fit(2) this(1) assms this(2)] obtain g g1 h g2 s g3 rec where
    r: "gov_initialize (client_governor m 7 (push_bit 20 8)) = (g, Ok ())" "gov_request g (client_request (push_bit 20 2) ''example'') = (g1, Ok h)"
    "gov_summary g1 = (g2, s)" "gov_release g2 (ah_id h) (ah_generation h) = (g3, Ok rec)"
    "ah_size h = push_bit 20 2" "ms_committed s = push_bit 20 2" "ms_free s = push_bit 20 8 - push_bit 20 2"
    "g_arena_base g3 = m (push_bit 20 8) 256" "g_initialized g3" "g_backend g3 \<noteq> None" by metis
  have "snd (MemoryGovernor_destroy g3) = Some (m (push_bit 20 8) 256)" using client_destroy [of g3] assms r by simp
  then show ?thesis
    unfolding basic_main_def r(1) prod.case Let_def r(2-4) r(5-7) result.case
    by (auto simp: has_value_def show_numeral)
qed

lemma basic_undefined: "m (push_bit 20 8) 256 = 0 \<Longrightarrow> basic_main m = None"
  using client_started [of "push_bit 20 8" m 7] client_refused [of m "push_bit 20 8" "push_bit 20 2" "''example''" 7] clients_fit(2)
  by (simp add: basic_main_def client_fits_def)

text \<open>
  The recovery example: whatever the disk does, the second governor reports nothing as committed, and has no arena to give
  back.
\<close>

lemma recovered_nothing:
  "ra_live_bytes (g_arena (fst (gov_load (client_governor m did cap) path fs))) = 0"
  "snd (MemoryGovernor_destroy (fst (gov_summary (fst (gov_load (client_governor m did cap) path fs))))) = None"
proof -
  let ?g = "fst (gov_load (client_governor m did cap) path fs)"
  show "ra_live_bytes (g_arena ?g) = 0"
    by (auto simp: gov_load_def gov_restore_def Let_def client_governor_def MemoryGovernor_new_def split: result.splits)
  have "\<not> g_initialized ?g"
    by (auto simp: gov_load_def gov_restore_def Let_def client_governor_def MemoryGovernor_new_def split: result.splits)
  then show "snd (MemoryGovernor_destroy (fst (gov_summary ?g))) = None"
    using cache_facts(6) [OF summary_cache [of ?g]] by (simp add: MemoryGovernor_destroy_def)
qed

lemma recovery_behaviour:
  assumes "m (push_bit 20 4) 256 \<noteq> 0"
  shows "\<exists>fs'. recovery_main m fs = Some (fs', [''saved, committed=1048576'',
      ''recovered committed=0 (conservative, physical bytes are not silently current)''], Some (m (push_bit 20 4) 256), None) \<and>
    fs_files fs' recovery_path = None"
proof -
  have "push_bit 20 4 \<noteq> (0 :: u64)" "round_up (unat (push_bit 20 1 :: u64)) 4096 = unat (push_bit 20 1 :: u64)" by (simp_all add: round_up_def)
  from client_round [where m = m and did = 9, OF clients_fit(3) this(1) assms this(2)] obtain g g1 h g2 s where
    r: "gov_initialize (client_governor m 9 (push_bit 20 4)) = (g, Ok ())" "gov_request g (client_request (push_bit 20 1) ''recovery'') = (g1, Ok h)"
    "gov_summary g1 = (g2, s)" "ms_committed s = push_bit 20 1" "g_arena_base g2 = m (push_bit 20 4) 256" "g_initialized g2" "g_backend g2 \<noteq> None" by metis
  have "snd (MemoryGovernor_destroy g2) = Some (m (push_bit 20 4) 256)" using client_destroy [of g2] assms r by simp
  then have one: "\<exists>fs'. recovery_first m fs = Some (fs', ''saved, committed=1048576'', Some (m (push_bit 20 4) 256))"
    unfolding recovery_first_def r(1) prod.case Let_def r(2,3) result.case r(4)
    by (cases "gov_save g2 recovery_path fs") (simp add: show_numeral)
  have "recovery_second m fs' = (''recovered committed=0 (conservative, physical bytes are not silently current)'', None)" for fs'
    using recovered_nothing [of m 9 "push_bit 20 4" recovery_path fs'] summary_values(1) [of "fst (gov_load (client_governor m 9 (push_bit 20 4)) recovery_path fs')"]
    unfolding recovery_second_def
    by (cases "gov_load (client_governor m 9 (push_bit 20 4)) recovery_path fs'", cases "gov_summary (fst (gov_load (client_governor m 9 (push_bit 20 4)) recovery_path fs'))")
      (simp add: show_numeral)
  with one show ?thesis by (auto simp: recovery_main_def)
qed

text \<open>
  C39. The consumer passes: whenever the runtime has memory for the arena, it prints a summary that accounts for its request, then
  PASS, exits with 0 and gives the arena back; without memory it says so and exits with 1, with nothing to give back.
\<close>

theorem consumer_passes:
  "if m (push_bit 20 4) 256 = 0 then consumer_main m = Some (1, [''init failed''], None)
   else \<exists>largest p. consumer_main m = Some (0, [''requested=2097152 committed=2097152 free=2097152 largest='' @ show_word (largest :: u64) @
      '' pressure='' @ PressureState_to_string p, ''consumer: PASS''], Some (m (push_bit 20 4) 256))"
proof (cases "m (push_bit 20 4) 256 = 0")
  case True
  then show ?thesis
    using client_started [of "push_bit 20 4" m 1] client_not_started [of m 1 "push_bit 20 4"] by (simp add: consumer_main_def has_value_def)
next
  case False
  have "push_bit 20 4 \<noteq> (0 :: u64)" "round_up (unat (push_bit 20 2 :: u64)) 4096 = unat (push_bit 20 2 :: u64)" by (simp_all add: round_up_def)
  from client_round [where m = m and did = 1, OF clients_fit(1) this(1) False this(2)] obtain g g1 h g2 s g3 rec where
    r: "gov_initialize (client_governor m 1 (push_bit 20 4)) = (g, Ok ())" "gov_request g (client_request (push_bit 20 2) ''consumer'') = (g1, Ok h)"
    "gov_summary g1 = (g2, s)" "gov_release g2 (ah_id h) (ah_generation h) = (g3, Ok rec)"
    "ah_size h = push_bit 20 2" "ms_committed s = push_bit 20 2" "ms_free s = push_bit 20 4 - push_bit 20 2"
    "ra_live_bytes (g_arena g3) = 0" "ra_capacity (g_arena g3) = push_bit 20 4" "managed g3 = push_bit 20 4"
    "g_arena_base g3 = m (push_bit 20 4) 256" "g_initialized g3" "g_backend g3 \<noteq> None" by metis
  obtain g4 s2 where sm: "gov_summary g3 = (g4, s2)" by fastforce
  have v: "ms_committed s2 = 0" "ms_free s2 = ms_managed_capacity s2" using summary_values [of g3] sm r by (simp_all add: free_bytes_def)
  have d: "snd (MemoryGovernor_destroy g4) = Some (m (push_bit 20 4) 256)"
    using client_destroy [of g4] cache_facts [OF summary_cache [of g3]] False sm r by simp
  have l: "consumer_line h s = ''requested=2097152 committed=2097152 free=2097152 largest='' @ show_word (ms_largest_free s) @
      '' pressure='' @ PressureState_to_string (ms_pressure s)"
    unfolding consumer_line_def r(5-7) by (simp add: show_numeral)
  have "consumer_main m = Some (0, [consumer_line h s, ''consumer: PASS''], Some (m (push_bit 20 4) 256))"
    unfolding consumer_main_def r(1) prod.case Let_def r(2-4) result.case sm using r(6) v d by (simp add: has_value_def)
  with l False show ?thesis by auto
qed

end
