(* ===== verification/Gms_Benchmark.thy ===== *)
theory Gms_Benchmark
  imports Gms_Clients
begin

text \<open>
  The benchmark (\<^verbatim>\<open>benchmarks/benchmark.cpp\<close>), over the C runtime's allocator and a clock.  Requests of one size fill an empty arena
  from the front without a gap (\<open>packed_allocate\<close>), so every round that fits by its total size succeeds.
\<close>

section \<open>Packed arenas\<close>

text \<open>
  An arena is packed when its live bytes are the front of it: the only free region, if any, begins where they end.  Best fit on
  a packed arena has no choice, and requests of one size fill it from the front to the last block.
\<close>

definition packed :: "RegionAllocator \<Rightarrow> bool" where
  "packed ra \<longleftrightarrow> (\<forall>kv\<in>free_entries (regs ra). lo_of kv = unat (ra_live_bytes ra))"

lemma packed_free:
  assumes inv: "arena_inv ra" and p: "packed ra" and room: "unat (ra_live_bytes ra) < unat (ra_capacity ra)"
  obtains kv where "free_entries (regs ra) = {kv}" "lo_of kv = unat (ra_live_bytes ra)" "hi_of kv = unat (ra_capacity ra)"
proof -
  note lay = arena_layout [OF inv]
  have sum: "unat (ra_live_bytes ra) + (\<Sum>kv\<in>free_entries (regs ra). unat (ri_size (snd kv))) = unat (ra_capacity ra)" by (rule arena_sum [OF inv])
  have "free_entries (regs ra) \<noteq> {}" using sum room by auto
  then obtain kv where kv: "kv \<in> free_entries (regs ra)" by blast
  have "x = kv" if "x \<in> free_entries (regs ra)" for x
  proof (rule ccontr)
    assume ne: "x \<noteq> kv"
    have m: "x \<in> regs ra" "kv \<in> regs ra" using that kv by (simp_all add: free_entries_def)
    have "0 < unat (ri_size (snd x))" "0 < unat (ri_size (snd kv))" using lay m by (auto simp: layout_ok_def unat_pos_iff)
    then show False using layout_sep [OF lay m ne] p that kv by (auto simp: packed_def)
  qed
  with kv have one: "free_entries (regs ra) = {kv}" by blast
  then show thesis using that p sum by (simp add: packed_def)
qed

lemma empty_packed:
  assumes inv: "arena_inv ra" and live: "ra_live_bytes ra = 0"
  shows "packed ra"
  unfolding packed_def
proof
  fix kv assume kv: "kv \<in> free_entries (regs ra)"
  note lay = arena_layout [OF inv]
  have nolive: "live_entries (regs ra) = {}"
  proof (rule ccontr)
    assume "live_entries (regs ra) \<noteq> {}"
    then obtain x where x: "x \<in> live_entries (regs ra)" by blast
    have "finite (live_entries (regs ra))" by (simp add: live_entries_def)
    then have "unat (ri_size (snd x)) \<le> live_sum (regs ra)"
      unfolding live_sum_def using x by (intro member_le_sum [where f = "\<lambda>kv. unat (ri_size (snd kv))"]) simp_all
    moreover have "live_sum (regs ra) = 0" using inv live by (simp add: arena_inv_def)
    moreover have "ri_size (snd x) \<noteq> 0" using lay x by (simp add: layout_ok_def live_entries_def)
    ultimately show False by (simp add: unat_eq_0)
  qed
  have "lo_of kv = 0"
  proof (rule ccontr)
    assume pos: "lo_of kv \<noteq> 0"
    have m: "kv \<in> regs ra" using kv by (simp add: free_entries_def)
    have "lo_of kv - 1 < unat (ra_capacity ra)" using layout_hi_le [OF lay m] pos by simp
    then obtain x where x: "x \<in> regs ra" "lo_of kv - 1 \<in> bytes_of x" using layout_cover [OF lay, of "lo_of kv - 1"] by auto
    then have ne: "x \<noteq> kv" using pos by (auto simp: bytes_of_def)
    have "hi_of x = lo_of kv" using layout_sep [OF lay x(1) m ne] x(2) pos by (auto simp: bytes_of_def)
    moreover have "x \<in> free_entries (regs ra)" using x(1) nolive by (cases x) (auto simp: free_entries_def live_entries_def)
    ultimately show False using inv kv by (auto simp: arena_inv_def no_adjacent_free_def)
  qed
  then show "lo_of kv = unat (ra_live_bytes ra)" by (simp add: live)
qed

lemma round_up_multiple: "0 < a \<Longrightarrow> a dvd v \<Longrightarrow> round_up v a = v"
  by (simp add: antisym round_up_ge round_up_least)

text \<open>One more block of the size \<open>s\<close> that everything so far has had.\<close>

lemma packed_allocate:
  assumes inv: "arena_inv ra" and p: "packed ra" and fresh: "arena_live ra (ar_alloc_id req) = None"
    and req: "ar_bytes req \<noteq> 0" "is_pow2 (ar_alignment req)" and al: "unat (ar_alignment req) dvd unat (ra_live_bytes ra)"
    and room: "unat (ra_live_bytes ra) + alloc_size req \<le> unat (ra_capacity ra)"
  shows "alloc_reject ra req = None" "packed (fst (arena_allocate ra req))"
    "unat (ra_live_bytes (fst (arena_allocate ra req))) = unat (ra_live_bytes ra) + alloc_size req"
proof -
  have al0: "0 < unat (ar_alignment req)" using req(2) by (simp add: is_pow2_def unat_gt_0)
  have sz: "unat (ar_bytes req) \<le> alloc_size req" unfolding alloc_size_def by (rule round_up_ge [OF al0])
  moreover have "0 < unat (ar_bytes req)" using req(1) by (simp add: unat_gt_0)
  ultimately have "unat (ra_live_bytes ra) < unat (ra_capacity ra)" using room by simp
  from packed_free [OF inv p this] obtain kv where kv: "free_entries (regs ra) = {kv}" "lo_of kv = unat (ra_live_bytes ra)" "hi_of kv = unat (ra_capacity ra)" by metis
  have ru: "round_up (unat (ra_live_bytes ra)) (unat (ar_alignment req)) = unat (ra_live_bytes ra)"
    by (rule round_up_multiple [OF al0 al])
  have "can_fit ra req" using room kv ru by (simp add: can_fit_def)
  moreover have "alloc_size req < 2 ^ 64" using room unat_lt64 [of "ra_capacity ra"] by simp
  moreover have "\<not> ra_capacity ra < ar_bytes req" using sz room by (simp add: word_less_nat_alt)
  ultimately show none: "alloc_reject ra req = None"
    using req al0 room by (auto simp: alloc_reject_def)
  from allocate_success [OF inv none fresh] obtain ra' fx rid off where
    s: "arena_allocate ra req = (ra', Ok (live_region req rid off (of_nat (alloc_size req))))"
    "split_ok (regs ra) fx (off, live_region req rid off (of_nat (alloc_size req))) (regs ra')"
    "unat off = round_up (lo_of fx) (unat (ar_alignment req))" "unat (ra_live_bytes ra') = unat (ra_live_bytes ra) + alloc_size req"
    "arena_inv ra'" by metis
  let ?x = "(off, live_region req rid off (of_nat (alloc_size req)))"
  from s(2) have fx: "fx \<in> free_entries (regs ra)" by (simp add: split_ok_def)
  then have "fx = kv" using kv(1) by simp
  then have off: "unat off = unat (ra_live_bytes ra)" "lo_of fx = unat off" using s(3) kv(2) ru by simp_all
  have hx: "hi_of ?x = unat (ra_live_bytes ra')"
    using off(1) s(4) room unat_lt64 [of "ra_capacity ra"] by (simp add: live_region_def unat_of_nat)
  have "lo_of y = unat (ra_live_bytes ra')" if y: "y \<in> free_entries (regs ra')" for y
  proof -
    from s(2) obtain pads where pads: "regs ra' = (regs ra - {fx}) \<union> pads \<union> {?x}" "ri_live (snd ?x)"
      "\<forall>p\<in>pads. lo_of p = lo_of fx \<and> hi_of p = lo_of ?x \<or> lo_of p = hi_of ?x \<and> hi_of p = hi_of fx" by (auto simp: split_ok_def)
    have "y \<notin> regs ra - {fx}" using y kv(1) \<open>fx = kv\<close> by (auto simp: free_entries_def)
    moreover have "y \<noteq> ?x" using y pads(2) by (auto simp: free_entries_def)
    ultimately have "y \<in> pads" using y pads(1) by (auto simp: free_entries_def)
    moreover have "0 < unat (ri_size (snd y))" using arena_layout [OF s(5)] y by (auto simp: layout_ok_def free_entries_def unat_pos_iff)
    ultimately have "lo_of y = hi_of ?x" using pads(3) off(2) by auto
    then show ?thesis using hx by simp
  qed
  then show "packed (fst (arena_allocate ra req))" by (simp add: packed_def s(1))
  show "unat (ra_live_bytes (fst (arena_allocate ra req))) = unat (ra_live_bytes ra) + alloc_size req" by (simp add: s(1,4))
qed

section \<open>The program\<close>

text \<open>The requests of a round, which stop at the first failure, and its releases, whose results are ignored.\<close>

definition bench_request :: "u64 \<Rightarrow> u64 \<Rightarrow> AllocationRequest" where
  "bench_request bytes align = AllocationRequest_default\<lparr>req_bytes := bytes, req_alignment := align, req_mem_class := MemoryClass.USER_BUFFER,
     req_reclaimability := Reclaimability.RECLAIM_IF_COLD, req_owner := ''bench''\<rparr>"

fun bench_requests :: "nat \<Rightarrow> AllocationRequest \<Rightarrow> MemoryGovernor \<Rightarrow> AllocationHandle list \<Rightarrow>
    (MemoryGovernor \<times> AllocationHandle list \<times> RejectReason option) option" where
  "bench_requests 0 r g v = Some (g, v, None)"
| "bench_requests (Suc k) r g v =
    (case gov_request g r of
       (g, Ok h) \<Rightarrow> bench_requests k r g (v @ [h])
     | (g, Err e) \<Rightarrow> Some (g, v, Some (Failure.reason e))
     | (g, Fault) \<Rightarrow> None)"

fun bench_releases :: "MemoryGovernor \<Rightarrow> AllocationHandle list \<Rightarrow> MemoryGovernor option" where
  "bench_releases g [] = Some g"
| "bench_releases g (h # v) =
    (case gov_release g (ah_id h) (ah_generation h) of (g, Fault) \<Rightarrow> None | (g, rx) \<Rightarrow> bench_releases g v)"

text \<open>
  The readings \<open>t0\<close>, \<open>t1\<close>, \<open>t2\<close> of the steady clock, in nanoseconds; the clock never goes back.  Durations and rates are computed
  in doubles.
\<close>

definition elapsed_ms :: "u64 \<Rightarrow> u64 \<Rightarrow> double" where
  "elapsed_ms t0 t1 = d_div (d_of_u64 (t1 - t0)) (d_lit 1000000 1)"

definition bench_rate :: "u64 \<Rightarrow> double \<Rightarrow> double" where
  "bench_rate n ms = (if d_less (d_lit 0 1) ms then d_div (d_of_u64 n) (d_div ms (d_lit 1000 1)) else d_lit 0 1)"

definition bench_line :: "u64 \<Rightarrow> u64 \<Rightarrow> u64 \<Rightarrow> u64 \<times> u64 \<times> u64 \<Rightarrow> string" where
  "bench_line n bytes align ticks =
    (let (t0, t1, t2) = ticks; alloc_ms = elapsed_ms t0 t1; free_ms = elapsed_ms t1 t2 in
     ''n='' @ show_word n @ '' bytes='' @ show_word bytes @ '' align='' @ show_word align @
     ''  alloc='' @ show_fixed 2 alloc_ms @ '' ms ('' @ show_fixed 0 (bench_rate n alloc_ms) @ '' ops/s)  free='' @
     show_fixed 2 free_ms @ '' ms ('' @ show_fixed 0 (bench_rate n free_ms) @ '' ops/s)'')"

definition bench :: "u64 \<Rightarrow> u64 \<Rightarrow> u64 \<Rightarrow> u64 \<times> u64 \<times> u64 \<Rightarrow> MemoryGovernor \<Rightarrow> (MemoryGovernor \<times> string) option" where
  "bench n bytes align ticks g =
    (case bench_requests (unat n) (bench_request bytes align) g [] of
       None \<Rightarrow> None
     | Some (g, v, Some why) \<Rightarrow> Some (g, ''  unexpected failure at '' @ show_nat (length v) @ '': '' @ RejectReason_to_string why)
     | Some (g, v, None) \<Rightarrow> (case bench_releases g v of None \<Rightarrow> None | Some g \<Rightarrow> Some (g, bench_line n bytes align ticks)))"

text \<open>\<open>main\<close>: four rounds; the clock gives the readings of each.\<close>

definition bench_rounds :: "(u64 \<times> u64 \<times> u64) list" where
  "bench_rounds = [(100, 64 * 1024, 256), (1000, 16 * 1024, 256), (10000, 4096, 256), (100000, 512, 64)]"

fun bench_run :: "(u64 \<times> u64 \<times> u64) list \<Rightarrow> (nat \<Rightarrow> u64 \<times> u64 \<times> u64) \<Rightarrow> nat \<Rightarrow> MemoryGovernor \<Rightarrow> (MemoryGovernor \<times> string list) option" where
  "bench_run [] clock i g = Some (g, [])"
| "bench_run ((n, bytes, align) # rounds) clock i g =
    (case bench n bytes align (clock i) g of
       None \<Rightarrow> None
     | Some (g, line) \<Rightarrow> (case bench_run rounds clock (Suc i) g of None \<Rightarrow> None | Some (g, out) \<Rightarrow> Some (g, line # out)))"

definition bench_title :: string where
  "bench_title = ''--- allocation/free benchmark (governed, host backend) ---''"

definition bench_main :: "(u64 \<Rightarrow> u64 \<Rightarrow> u64) \<Rightarrow> (nat \<Rightarrow> u64 \<times> u64 \<times> u64) \<Rightarrow> program_end" where
  "bench_main aligned_malloc clock =
    (let (g, _) = gov_initialize (client_governor aligned_malloc 1 (push_bit 26 1)) in
     case bench_run bench_rounds clock 0 g of
       None \<Rightarrow> None
     | Some (g, out) \<Rightarrow> ends g 0 (bench_title # out))"

section \<open>A round\<close>

text \<open>What no request or release changes.\<close>

definition same_host :: "MemoryGovernor \<Rightarrow> MemoryGovernor \<Rightarrow> bool" where
  "same_host g' g \<longleftrightarrow> managed g' = managed g \<and> g_initialized g' = g_initialized g \<and> g_arena_base g' = g_arena_base g \<and> g_backend g' = g_backend g"

lemma same_host_refl [simp]: "same_host g g"
  by (simp add: same_host_def)

lemma same_host_trans [trans]: "same_host c b \<Longrightarrow> same_host b a \<Longrightarrow> same_host c a"
  by (simp add: same_host_def)

text \<open>Every handle names a record that may be released, and no two the same one.\<close>

definition held :: "MemoryGovernor \<Rightarrow> AllocationHandle list \<Rightarrow> bool" where
  "held g v \<longleftrightarrow> distinct (map ah_id v) \<and>
     (\<forall>h\<in>set v. \<exists>rec. recs g (ah_id h) = Some rec \<and> rec_generation rec = ah_generation h \<and> rec_pin_count rec = 0)"

text \<open>A request of a round, from a packed arena with room for it.\<close>

lemma request_held:
  assumes inv: "gov_inv g" and n: "g_next_alloc_id g \<noteq> - 1" and pin: "\<not> req_requires_pin r" and held: "held g v"
    and on: "g_initialized g" and valid: "Failure_ok (validate_request r (managed g))" and p: "packed (g_arena g)"
    and al: "unat (req_alignment r) dvd unat (ra_live_bytes (g_arena g))"
    and room: "unat (ra_live_bytes (g_arena g)) + round_up (unat (req_bytes r)) (unat (req_alignment r)) \<le> unat (managed g)"
  obtains g' h where "gov_request g r = (g', Ok h)" "gov_inv g'" "held g' (v @ [h])" "recs g' |` (- {ah_id h}) = recs g"
    "g_next_alloc_id g' = g_next_alloc_id g + 1" "same_host g' g" "packed (g_arena g')"
    "unat (ra_live_bytes (g_arena g')) = unat (ra_live_bytes (g_arena g)) + round_up (unat (req_bytes r)) (unat (req_alignment r))"
proof -
  have v: "req_bytes r \<noteq> 0" "is_pow2 (req_alignment r)" using valid by (simp_all add: validate_request_ok)
  have nz: "managed g \<noteq> 0" using inv on by (auto simp: gov_inv_def arena_ok_def split: if_splits)
  then have ar: "arena_inv (g_arena g)" "ra_capacity (g_arena g) = managed g" using inv by (simp_all add: gov_inv_def arena_ok_def)
  have fresh: "arena_live (g_arena g) (TypedId (g_next_alloc_id g)) = None" using gov_fresh [OF inv] gov_dead [OF inv] by simp
  let ?a = "the_request g r"
  have a: "ar_bytes ?a = req_bytes r" "ar_alignment ?a = req_alignment r" by (simp_all add: arena_request_def)
  have sz: "alloc_size ?a = round_up (unat (req_bytes r)) (unat (req_alignment r))" by (simp add: alloc_size_def a)
  have re: "request_error g r = None" using valid on room unat_lt64 [of "managed g"] by (simp add: request_error_def)
  have P: "alloc_reject (g_arena g) ?a = None" "packed (fst (arena_allocate (g_arena g) ?a))"
    "unat (ra_live_bytes (fst (arena_allocate (g_arena g) ?a))) = unat (ra_live_bytes (g_arena g)) + alloc_size ?a"
    using packed_allocate [OF ar(1) p, of ?a] fresh v al room ar(2) sz a by simp_all
  from inv n show thesis
  proof (cases rule: request_cases [of g r])
    case R: (ok g' reg aid rec)
    have "rec_generation rec = gen_first" "rec_pin_count rec = 0" using pin by (simp_all add: R(5) request_record_def)
    moreover have "aid \<notin> ah_id ` set v" using held R(4) by (auto simp: held_def)
    ultimately have "held g' (v @ [\<lparr>ah_id = aid, ah_generation = gen_first, ah_offset = ri_offset reg, ah_size = ri_size reg,
         ah_alignment = req_alignment r\<rparr>])" using held R(9) by (auto simp: held_def)
    moreover have "recs g' |` (- {aid}) = recs g" using R(4,9) by (auto simp: restrict_map_def)
    moreover have "g_next_alloc_id g' = g_next_alloc_id g + 1" by (subst R(12)) simp
    moreover have "same_host g' g" unfolding same_host_def by (subst (1 2 3 4) R(12)) (simp add: count_managed)
    moreover have "g_arena g' = fst (arena_allocate (g_arena g) ?a)"
      using R(7) re by (auto simp: gov_request_unfold Let_def split: prod.splits result.splits)
    ultimately show thesis using that [OF R(7)] R(8) P sz by simp
  qed (use re P(1) in simp_all)
qed

lemma requests_fill:
  assumes "gov_inv g" "held g v" "\<not> req_requires_pin r" "unat (g_next_alloc_id g) + k < 2 ^ 64"
    "g_initialized g" "Failure_ok (validate_request r (managed g))" "packed (g_arena g)"
    "unat (req_alignment r) dvd unat (ra_live_bytes (g_arena g))"
    "unat (ra_live_bytes (g_arena g)) + k * round_up (unat (req_bytes r)) (unat (req_alignment r)) \<le> unat (managed g)"
  shows "\<exists>g' w. bench_requests k r g v = Some (g', v @ w, None) \<and> gov_inv g' \<and> held g' (v @ w) \<and> recs g' |` (- ah_id ` set w) = recs g \<and>
    same_host g' g \<and> unat (g_next_alloc_id g') = unat (g_next_alloc_id g) + k"
  using assms
proof (induction k arbitrary: g v)
  case 0
  then show ?case by (intro exI [of _ g] exI [of _ "[]"]) (simp add: restrict_map_def)
next
  case (Suc k)
  let ?s = "round_up (unat (req_bytes r)) (unat (req_alignment r))"
  have n: "g_next_alloc_id g \<noteq> - 1" using Suc.prems(4) unat_max64 by auto
  have room: "unat (ra_live_bytes (g_arena g)) + ?s \<le> unat (managed g)" using Suc.prems(9) by simp
  from request_held [OF Suc.prems(1) n Suc.prems(3,2,5-8) room] obtain g' h where
    q: "gov_request g r = (g', Ok h)" "gov_inv g'" "held g' (v @ [h])" "recs g' |` (- {ah_id h}) = recs g"
    "g_next_alloc_id g' = g_next_alloc_id g + 1" "same_host g' g" "packed (g_arena g')" "unat (ra_live_bytes (g_arena g')) = unat (ra_live_bytes (g_arena g)) + ?s"
    by metis
  have nx: "unat (g_next_alloc_id g') = Suc (unat (g_next_alloc_id g))" using q(5) n by (simp add: u64_succ)
  have f: "managed g' = managed g" "g_initialized g'" using q(6) Suc.prems(5) by (simp_all add: same_host_def)
  have "unat (req_alignment r) dvd unat (ra_live_bytes (g_arena g'))" using q(8) Suc.prems(8) by simp
  moreover have "unat (ra_live_bytes (g_arena g')) + k * ?s \<le> unat (managed g')" using q(8) f Suc.prems(9) by simp
  moreover have "unat (g_next_alloc_id g') + k < 2 ^ 64" using nx Suc.prems(4) by simp
  ultimately obtain g2 w where
    g2: "bench_requests k r g' (v @ [h]) = Some (g2, (v @ [h]) @ w, None)" "gov_inv g2" "held g2 ((v @ [h]) @ w)" "recs g2 |` (- ah_id ` set w) = recs g'"
    "same_host g2 g'" "unat (g_next_alloc_id g2) = unat (g_next_alloc_id g') + k"
    using Suc.IH [OF q(2,3) Suc.prems(3) _ f(2) _ q(7)] f(1) Suc.prems(6) by auto
  have "recs g2 |` (- ah_id ` set (h # w)) = recs g' |` (- {ah_id h})" unfolding g2(4) [symmetric] by (auto simp: restrict_map_def)
  then show ?case using g2 q(1,4,6) nx same_host_trans by (intro exI [of _ g2] exI [of _ "h # w"]) auto
qed

lemma releases_held:
  assumes "gov_inv g" "held g v"
  shows "\<exists>g'. bench_releases g v = Some g' \<and> gov_inv g' \<and> recs g' = recs g |` (- ah_id ` set v) \<and> same_host g' g \<and> g_next_alloc_id g' = g_next_alloc_id g"
  using assms
proof (induction v arbitrary: g)
  case Nil
  then show ?case by simp
next
  case (Cons h v)
  obtain rec where rec: "recs g (ah_id h) = Some rec" "rec_generation rec = ah_generation h" "rec_pin_count rec = 0"
    using Cons.prems(2) by (auto simp: held_def)
  from Cons.prems(1) show ?case
  proof (cases rule: release_cases [of g "ah_id h" "ah_generation h" "TypedGeneration 0" "TypedGeneration 0"])
    case (rejected why msg)
    then show ?thesis using rec by (simp add: release_error_def is_set_def)
  next
    case (ok g' rec')
    have "ah_id h \<notin> ah_id ` set v" using Cons.prems(2) by (simp add: held_def)
    then have "\<forall>x\<in>set v. ah_id x \<noteq> ah_id h" by (metis image_eqI)
    then have "held g' v" using Cons.prems(2) ok(7) by (simp add: held_def)
    from Cons.IH [OF ok(6) this] obtain g2 where g2: "bench_releases g' v = Some g2" "gov_inv g2" "recs g2 = recs g' |` (- ah_id ` set v)"
      "same_host g2 g'" "g_next_alloc_id g2 = g_next_alloc_id g'" by blast
    have "recs g' |` (- ah_id ` set v) = recs g |` (- ah_id ` set (h # v))" using ok(7) by (auto simp: restrict_map_def)
    moreover have "g_next_alloc_id g' = g_next_alloc_id g" by (subst ok(9)) simp
    moreover have "same_host g' g" unfolding same_host_def by (subst (1 2 3 4) ok(9)) (simp add: count_managed)
    ultimately show ?thesis using ok(5) g2 same_host_trans by (auto simp: gov_release_def)
  qed
qed

text \<open>A round on a governor without allocations, whose requests fit together: all succeed, and all is given back.\<close>

lemma bench_round:
  assumes inv: "gov_inv g" and empty: "recs g = Map.empty" and on: "g_initialized g" and ids: "unat (g_next_alloc_id g) + unat n < 2 ^ 64"
    and valid: "Failure_ok (validate_request (bench_request bytes align) (managed g))"
    and room: "unat n * round_up (unat bytes) (unat align) \<le> unat (managed g)"
  shows "\<exists>g'. bench n bytes align ticks g = Some (g', bench_line n bytes align ticks) \<and> gov_inv g' \<and> recs g' = Map.empty \<and> same_host g' g \<and>
    unat (g_next_alloc_id g') = unat (g_next_alloc_id g) + unat n"
proof -
  let ?r = "bench_request bytes align"
  have r: "\<not> req_requires_pin ?r" "req_bytes ?r = bytes" "req_alignment ?r = align" by (simp_all add: bench_request_def AllocationRequest_default_def)
  have nz: "managed g \<noteq> 0" using inv on by (auto simp: gov_inv_def arena_ok_def split: if_splits)
  then have ar: "arena_inv (g_arena g)" using inv by (simp add: gov_inv_def arena_ok_def)
  have "g_records g = []" using empty by simp
  then have z: "ra_live_bytes (g_arena g) = 0" using live_bytes_records [OF inv nz] by (simp add: gov_allocations_def unat_eq_0)
  have "held g []" by (simp add: held_def)
  from requests_fill [OF inv this r(1) ids on valid empty_packed [OF ar z]] z room r obtain g1 w where
    q: "bench_requests (unat n) ?r g [] = Some (g1, w, None)" "gov_inv g1" "held g1 w" "recs g1 |` (- ah_id ` set w) = recs g" "same_host g1 g"
    "unat (g_next_alloc_id g1) = unat (g_next_alloc_id g) + unat n" by auto
  from releases_held [OF q(2,3)] obtain g2 where "bench_releases g1 w = Some g2" "gov_inv g2" "recs g2 = recs g" "same_host g2 g1"
    "g_next_alloc_id g2 = g_next_alloc_id g1" using q(4) by auto
  then show ?thesis using q empty same_host_trans by (auto simp: bench_def)
qed

text \<open>Rounds that each fit, one after the other.\<close>

fun bench_lines :: "(u64 \<times> u64 \<times> u64) list \<Rightarrow> (nat \<Rightarrow> u64 \<times> u64 \<times> u64) \<Rightarrow> nat \<Rightarrow> string list" where
  "bench_lines [] clock i = []"
| "bench_lines ((n, bytes, align) # rounds) clock i = bench_line n bytes align (clock i) # bench_lines rounds clock (Suc i)"

definition round_fits :: "u64 \<Rightarrow> u64 \<times> u64 \<times> u64 \<Rightarrow> bool" where
  "round_fits cap rnd \<longleftrightarrow> (case rnd of (n, bytes, align) \<Rightarrow> Failure_ok (validate_request (bench_request bytes align) cap) \<and>
     unat n * round_up (unat bytes) (unat align) \<le> unat cap)"

lemma rounds_complete:
  assumes "gov_inv g" "recs g = Map.empty" "g_initialized g" "\<forall>rnd\<in>set rounds. round_fits (managed g) rnd"
    "unat (g_next_alloc_id g) + (\<Sum>rnd\<leftarrow>rounds. unat (fst rnd)) < 2 ^ 64"
  shows "\<exists>g'. bench_run rounds clock i g = Some (g', bench_lines rounds clock i) \<and> recs g' = Map.empty \<and> same_host g' g"
  using assms
proof (induction rounds arbitrary: i g)
  case (Cons rnd rounds)
  obtain n bytes align where rnd: "rnd = (n, bytes, align)" by (cases rnd)
  have fit: "Failure_ok (validate_request (bench_request bytes align) (managed g))" "unat n * round_up (unat bytes) (unat align) \<le> unat (managed g)"
    using Cons.prems(4) by (simp_all add: rnd round_fits_def)
  have ids: "unat (g_next_alloc_id g) + unat n < 2 ^ 64" using Cons.prems(5) by (simp add: rnd)
  from bench_round [OF Cons.prems(1-3) ids fit, of "clock i"] obtain g1 where
    g1: "bench n bytes align (clock i) g = Some (g1, bench_line n bytes align (clock i))" "gov_inv g1" "recs g1 = Map.empty" "same_host g1 g"
    "unat (g_next_alloc_id g1) = unat (g_next_alloc_id g) + unat n" by metis
  have "g_initialized g1" "managed g1 = managed g" using g1(4) Cons.prems(3) by (simp_all add: same_host_def)
  moreover from this have "\<exists>g'. bench_run rounds clock (Suc i) g1 = Some (g', bench_lines rounds clock (Suc i)) \<and> recs g' = Map.empty \<and> same_host g' g1"
    using Cons.prems(4,5) g1 by (intro Cons.IH) (simp_all add: rnd)
  ultimately show ?case using g1(1,4) same_host_trans by (auto simp: rnd)
qed simp

lemma bench_not_started:
  assumes "n \<noteq> 0" "Failure_ok (validate_request (bench_request bytes align) cap)"
  shows "bench n bytes align ticks (client_governor m did cap) =
    Some (client_governor m did cap, ''  unexpected failure at 0: INTERNAL_ERROR'')"
proof -
  from assms(1) obtain k where k: "unat n = Suc k" by (metis not0_implies_Suc unat_eq_0)
  have "gov_request (client_governor m did cap) (bench_request bytes align) =
    (client_governor m did cap, Err (Failure RejectReason.INTERNAL_ERROR ''governor not initialized''))"
    using assms(2) by (simp add: gov_request_def client_governor_def MemoryGovernor_new_def client_domain_def Let_def)
  then show ?thesis by (simp add: bench_def k show_nat.simps digit_chars)
qed

lemma rounds_not_started:
  assumes "\<forall>rnd\<in>set rounds. fst rnd \<noteq> 0 \<and> round_fits cap rnd"
  shows "bench_run rounds clock i (client_governor m did cap) =
    Some (client_governor m did cap, replicate (length rounds) ''  unexpected failure at 0: INTERNAL_ERROR'')"
  using assms by (induction rounds arbitrary: i) (auto simp: bench_not_started round_fits_def)

lemma rounds_fit: "rnd \<in> set bench_rounds \<Longrightarrow> round_fits (push_bit 26 1) rnd"
  by (auto simp: bench_rounds_def round_fits_def validate_request_ok bench_request_def AllocationRequest_default_def round_up_def is_pow2_def)


end
