(* ===== verification/Gms_Cuda.thy ===== *)
theory Gms_Cuda
  imports Gms_Governor
begin

text \<open>
  The CUDA side (\<^verbatim>\<open>include/gpu_memory_service/cuda/cuda_backend.hpp\<close>, \<^verbatim>\<open>src/cuda/cuda_backend.cu\<close>): the backend over the
  CUDA runtime, and the two kernels with their launches.  Threads run as an interleaving of single accesses to memory; a locale
  states what the kernels have in common, and its results hold for both.
\<close>

section \<open>The backend\<close>

text \<open>
  Over \<open>cudaMalloc\<close> (the error code and the pointer it leaves; \<open>cudaSuccess\<close> is 0) and \<open>cudaGetErrorString\<close>.  The alignment is
  ignored.
\<close>

definition CudaBackend :: "(u64 \<Rightarrow> int \<times> u64) \<Rightarrow> (int \<Rightarrow> string) \<Rightarrow> IBackend" where
  "CudaBackend cuda_malloc cuda_error_string =
     \<lparr>be_allocate_arena = (\<lambda>bytes alignment.
        if bytes = 0 then Inl ''zero-byte arena''
        else let (e, p) = cuda_malloc bytes in if e \<noteq> 0 then Inl (cuda_error_string e) else Inr p),
      be_is_cuda = True\<rparr>"

text \<open>The address \<open>free_arena\<close> hands to \<open>cudaFree\<close>, if any.\<close>

definition CudaBackend_free_arena :: "u64 \<Rightarrow> u64 option" where
  "CudaBackend_free_arena base = (if base \<noteq> 0 then Some base else None)"

section \<open>The kernels\<close>

text \<open>
  A kernel is the program of one thread.  Its accesses to memory are separate steps, so that threads interleave between a load and
  a store: \<open>Start\<close>, then perhaps \<open>Loaded\<close> with what was read, then \<open>Done\<close>.  Memory is the floats from \<open>data\<close> on; an access
  outside is undefined (\<open>None\<close>).  The arithmetic of the device is a parameter.
\<close>

datatype 'f thread = Start | Loaded 'f | Done

type_synonym 'f kernel = "u32 \<Rightarrow> u32 \<Rightarrow> u32 \<Rightarrow> 'f thread \<Rightarrow> 'f list \<Rightarrow> ('f thread \<times> 'f list) option"

text \<open>\<open>static_cast<std::size_t>(blockIdx.x) * blockDim.x + threadIdx.x\<close>.\<close>

definition thread_index :: "u32 \<Rightarrow> u32 \<Rightarrow> u32 \<Rightarrow> u64" where
  "thread_index block_idx block_dim thread_idx = ucast block_idx * ucast block_dim + ucast thread_idx"

definition gms_fill_kernel :: "('f \<Rightarrow> 'f \<Rightarrow> 'f) \<Rightarrow> (u64 \<Rightarrow> 'f) \<Rightarrow> u64 \<Rightarrow> 'f \<Rightarrow> 'f kernel" where
  "gms_fill_kernel fadd to_float n v block_idx block_dim thread_idx th data =
    (let i = thread_index block_idx block_dim thread_idx in
     case th of
       Start \<Rightarrow>
         if i < n then
           (if unat i < length data then Some (Done, data[unat i := fadd v (to_float i)]) else None)
         else Some (Done, data)
     | _ \<Rightarrow> Some (Done, data))"

definition gms_scale_kernel :: "('f \<Rightarrow> 'f \<Rightarrow> 'f) \<Rightarrow> u64 \<Rightarrow> 'f \<Rightarrow> 'f kernel" where
  "gms_scale_kernel fmul n v block_idx block_dim thread_idx th data =
    (let i = thread_index block_idx block_dim thread_idx in
     case th of
       Start \<Rightarrow>
         if i < n then (if unat i < length data then Some (Loaded (data ! unat i), data) else None)
         else Some (Done, data)
     | Loaded x \<Rightarrow> (if unat i < length data then Some (Done, data[unat i := fmul x v]) else None)
     | Done \<Rightarrow> Some (Done, data))"

section \<open>Launching\<close>

text \<open>
  A launch gives a grid of blocks of threads to the device, which runs it after the call has returned.  A grid of no blocks or of
  more than \<open>2^31 - 1\<close> is refused with \<open>cudaErrorInvalidConfiguration\<close> (9).  \<open>cudaGetLastError\<close> gives that error, or the one
  left behind by an earlier call.
\<close>

record 'f launch =
  grid_dim :: u32
  block_dim :: u32
  code_of :: "'f kernel"

definition cuda_launch :: "u32 \<Rightarrow> u32 \<Rightarrow> 'f kernel \<Rightarrow> int \<Rightarrow> 'f launch option \<times> int" where
  "cuda_launch grid block kern pending =
    (if grid = 0 \<or> 2 ^ 31 \<le> grid then (None, 9)
     else (Some \<lparr>grid_dim = grid, block_dim = block, code_of = kern\<rparr>, pending))"

definition gms_cuda_fill ::
  "('f \<Rightarrow> 'f \<Rightarrow> 'f) \<Rightarrow> (u64 \<Rightarrow> 'f) \<Rightarrow> u64 \<Rightarrow> 'f \<Rightarrow> int \<Rightarrow> 'f launch option \<times> int" where
  "gms_cuda_fill fadd to_float n v pending =
    (let threads = 256; blocks = (n + threads - 1) div threads in
     cuda_launch (ucast blocks) 256 (gms_fill_kernel fadd to_float n v) pending)"

definition gms_cuda_scale :: "('f \<Rightarrow> 'f \<Rightarrow> 'f) \<Rightarrow> u64 \<Rightarrow> 'f \<Rightarrow> int \<Rightarrow> 'f launch option \<times> int" where
  "gms_cuda_scale fmul n v pending =
    (let threads = 256; blocks = (n + threads - 1) div threads in
     cuda_launch (ucast blocks) 256 (gms_scale_kernel fmul n v) pending)"

text \<open>The device runs one step of any thread of the grid that is not done.\<close>

datatype 'f grid = Running "u32 \<times> u32 \<Rightarrow> 'f thread" "'f list" | Faulted

inductive grid_step :: "'f launch \<Rightarrow> 'f grid \<Rightarrow> 'f grid \<Rightarrow> bool" for L where
  thread: "b < grid_dim L \<Longrightarrow> t < block_dim L \<Longrightarrow> th (b, t) \<noteq> Done \<Longrightarrow> code_of L b (block_dim L) t (th (b, t)) mem = Some (th', mem') \<Longrightarrow>
    grid_step L (Running th mem) (Running (th((b, t) := th')) mem')"
| fault: "b < grid_dim L \<Longrightarrow> t < block_dim L \<Longrightarrow> th (b, t) \<noteq> Done \<Longrightarrow> code_of L b (block_dim L) t (th (b, t)) mem = None \<Longrightarrow>
    grid_step L (Running th mem) Faulted"

inductive_cases grid_stepE: "grid_step L (Running th mem) s"

definition grid_start :: "'f list \<Rightarrow> 'f grid" where
  "grid_start data = Running (\<lambda>_. Start) data"

definition finished :: "'f launch \<Rightarrow> 'f grid \<Rightarrow> bool" where
  "finished L s \<longleftrightarrow> (case s of Running th _ \<Rightarrow> \<forall>b<grid_dim L. \<forall>t<block_dim L. th (b, t) = Done | Faulted \<Rightarrow> False)"

text \<open>
  What a launch promises: however the device schedules the threads, no access is out of range, the grid never gets stuck, it is over
  after at most two steps per thread, and then memory holds the result.
\<close>

definition computes :: "'f launch \<Rightarrow> 'f list \<Rightarrow> 'f list \<Rightarrow> bool" where
  "computes L data res \<longleftrightarrow>
    (\<forall>k s. (grid_step L ^^ k) (grid_start data) s \<longrightarrow>
       s \<noteq> Faulted \<and> k \<le> 2 * (unat (grid_dim L) * unat (block_dim L)) \<and>
       (if finished L s then \<exists>th. s = Running th res else \<exists>s'. grid_step L s s'))"

lemma u32_lt: "unat (w :: u32) < 2 ^ 32"
  using unsigned_less [of w] by simp

text \<open>How many steps threads still have, at most.\<close>

fun weight :: "'f thread \<Rightarrow> nat" where
  "weight Start = 2"
| "weight (Loaded x) = 1"
| "weight Done = 0"

definition remaining :: "'f launch \<Rightarrow> 'f grid \<Rightarrow> nat" where
  "remaining L s = (case s of Running th _ \<Rightarrow> \<Sum>x\<in>{b. b < grid_dim L} \<times> {t. t < block_dim L}. weight (th x) | Faulted \<Rightarrow> 0)"

lemma remaining_start: "remaining L (grid_start data) = 2 * (unat (grid_dim L) * unat (block_dim L))"
proof -
  have "card {w :: u32. w < v} = unat v" for v :: u32
  proof -
    have "unat ` {w. w < v} = {..<unat v}"
    proof (intro equalityI subsetI)
      fix k assume "k \<in> {..<unat v}"
      moreover from this have "unat (of_nat k :: u32) = k" using u32_lt [of v] by (simp add: unat_of_nat)
      ultimately show "k \<in> unat ` {w. w < v}" by (intro image_eqI [of _ _ "of_nat k"]) (simp_all add: word_less_nat_alt)
    qed (auto simp: word_less_nat_alt)
    moreover have "inj_on unat {w. w < v}" by (simp add: inj_on_def word_unat_eq_iff)
    ultimately show ?thesis using card_image [of unat "{w. w < v}"] by simp
  qed
  then show ?thesis by (simp add: remaining_def grid_start_def card_cartesian_product)
qed

lemma remaining_step:
  assumes "b < grid_dim L" "t < block_dim L" "weight th' < weight (th (b, t))"
  shows "remaining L (Running (th((b, t) := th')) mem') < remaining L (Running th mem)"
proof -
  let ?S = "{b. b < grid_dim L} \<times> {t. t < block_dim L}"
  have f: "finite ?S" by simp
  show ?thesis unfolding remaining_def grid.case
    by (rule sum_strict_mono_ex1 [OF f]) (use assms in auto)
qed

section \<open>Threads and cells\<close>

lemma thread_index_nat:
  assumes "t < 256"
  shows "unat (thread_index b 256 t) = unat b * 256 + unat t"
proof -
  have "unat (ucast w :: u64) = unat w" for w :: u32
    using u32_lt [of w] by (simp add: unsigned_ucast_eq take_bit_nat_eq_self)
  then have "unat (ucast b :: u64) = unat b" "unat (ucast t :: u64) = unat t" "unat (ucast (256 :: u32) :: u64) = 256" by simp_all
  moreover have "unat b < 2 ^ 32" "unat t < 256" using assms u32_lt [of b] by (simp_all add: word_less_nat_alt)
  ultimately show ?thesis unfolding thread_index_def by (simp add: unat_word_ariths)
qed

lemma thread_index_inj:
  assumes "t < 256" "t' < 256" "thread_index b 256 t = thread_index b' 256 t'"
  shows "b = b' \<and> t = t'"
proof -
  have e: "unat b * 256 + unat t = unat b' * 256 + unat t'" using assms thread_index_nat by metis
  have "unat t < 256" "unat t' < 256" using assms by (simp_all add: word_less_nat_alt)
  then have "(unat b * 256 + unat t) div 256 = unat b" "(unat b' * 256 + unat t') div 256 = unat b'" by simp_all
  then have "unat b = unat b'" using e by metis
  moreover from this have "unat t = unat t'" using e by simp
  ultimately show ?thesis by (simp add: word_unat_eq_iff)
qed

text \<open>The thread of a cell.\<close>

definition block_of :: "nat \<Rightarrow> u32" where "block_of i = of_nat (i div 256)"
definition lane_of :: "nat \<Rightarrow> u32" where "lane_of i = of_nat (i mod 256)"

lemma cell_thread:
  assumes "i < 2 ^ 40"
  shows "unat (block_of i) = i div 256" "lane_of i < 256" "unat (thread_index (block_of i) 256 (lane_of i)) = i"
proof -
  have "i div 256 < 2 ^ 32" using assms by simp
  then show b: "unat (block_of i) = i div 256" by (simp add: block_of_def unat_of_nat)
  have l: "unat (lane_of i) = i mod 256" by (simp add: lane_of_def unat_of_nat)
  then show t: "lane_of i < 256" by (simp add: word_less_nat_alt)
  show "unat (thread_index (block_of i) 256 (lane_of i)) = i" using thread_index_nat [OF t] b l by simp
qed

section \<open>Kernels that work on one cell per thread\<close>

text \<open>
  The contract both kernels keep: outside the range a thread does nothing, inside it stores \<open>op i x\<close> in its own cell, where \<open>x\<close>
  is what it read there, now or in its step before.
\<close>

locale elementwise_kernel =
  fixes kern :: "'f kernel" and n :: u64 and loads :: bool and op :: "nat \<Rightarrow> 'f \<Rightarrow> 'f"
  assumes outside: "\<not> thread_index b d t < n \<Longrightarrow> kern b d t Start mem = Some (Done, mem)"
    and begins: "thread_index b d t < n \<Longrightarrow> unat (thread_index b d t) < length mem \<Longrightarrow>
      kern b d t Start mem =
        (if loads then Some (Loaded (mem ! unat (thread_index b d t)), mem)
         else Some (Done, mem[unat (thread_index b d t) := op (unat (thread_index b d t)) (mem ! unat (thread_index b d t))]))"
    and stores: "loads \<Longrightarrow> unat (thread_index b d t) < length mem \<Longrightarrow>
      kern b d t (Loaded x) mem = Some (Done, mem[unat (thread_index b d t) := op (unat (thread_index b d t)) x])"
begin

text \<open>While the grid runs, a cell holds its result exactly when its thread is done.\<close>

definition cell_ok :: "'f list \<Rightarrow> (u32 \<times> u32 \<Rightarrow> 'f thread) \<Rightarrow> 'f list \<Rightarrow> u32 \<Rightarrow> u32 \<Rightarrow> bool" where
  "cell_ok data th mem b t \<longleftrightarrow> (let i = thread_index b 256 t in
     if i < n then (case th (b, t) of
         Start \<Rightarrow> mem ! unat i = data ! unat i
       | Loaded x \<Rightarrow> loads \<and> x = data ! unat i \<and> mem ! unat i = data ! unat i
       | Done \<Rightarrow> mem ! unat i = op (unat i) (data ! unat i))
     else th (b, t) = Start \<or> th (b, t) = Done)"

definition cells_ok :: "'f list \<Rightarrow> 'f grid \<Rightarrow> bool" where
  "cells_ok data s \<longleftrightarrow> (\<exists>th mem. s = Running th mem \<and> length mem = length data \<and> (\<forall>i. unat n \<le> i \<longrightarrow> i < length data \<longrightarrow> mem ! i = data ! i) \<and>
     (\<forall>b t. t < 256 \<longrightarrow> cell_ok data th mem b t))"

text \<open>One step of one thread, from a good state.\<close>

lemma kernel_step:
  assumes len: "length mem = length data" "unat n \<le> length data" and ok: "cell_ok data th mem b t" and run: "th (b, t) \<noteq> Done" and t: "t < 256"
  obtains th' mem' where "kern b 256 t (th (b, t)) mem = Some (th', mem')" "cell_ok data (th((b, t) := th')) mem' b t" "length mem' = length data"
    "\<And>i. i \<noteq> unat (thread_index b 256 t) \<Longrightarrow> mem' ! i = mem ! i" "\<not> thread_index b 256 t < n \<Longrightarrow> mem' = mem"
    "weight th' < weight (th (b, t))"
proof -
  let ?i = "thread_index b 256 t"
  show thesis
  proof (cases "?i < n")
    case False
    then have "th (b, t) = Start" using ok run by (auto simp: cell_ok_def Let_def)
    then show thesis using that [of Done mem] outside [OF False] False len by (simp add: cell_ok_def Let_def)
  next
    case True
    then have l: "unat ?i < length mem" using len by (simp add: word_less_nat_alt)
    show thesis
    proof (cases "th (b, t)")
      case Start
      show thesis
      proof (cases loads)
        case load: True
        have "cell_ok data (th((b, t) := Loaded (mem ! unat ?i))) mem b t" using ok Start True load unfolding cell_ok_def Let_def by simp
        moreover have "kern b 256 t (th (b, t)) mem = Some (Loaded (mem ! unat ?i), mem)" using begins [OF True l] load Start by simp
        ultimately show thesis using that len Start by simp
      next
        case store: False
        have "kern b 256 t (th (b, t)) mem = Some (Done, mem[unat ?i := op (unat ?i) (mem ! unat ?i)])" using begins [OF True l] store Start by simp
        then show thesis using that Start ok True len l by (simp add: cell_ok_def Let_def)
      qed
    next
      case (Loaded x)
      then show thesis using that stores [OF _ l, of x] ok True len l by (simp add: cell_ok_def Let_def)
    qed (use run in simp)
  qed
qed

lemma step_ok:
  assumes "grid_step L s s'" "cells_ok data s" "unat n \<le> length data" "block_dim L = 256" "code_of L = kern"
  shows "cells_ok data s'"
proof -
  from assms(2) obtain th mem where s: "s = Running th mem" "length mem = length data"
    "\<And>i. unat n \<le> i \<Longrightarrow> i < length data \<Longrightarrow> mem ! i = data ! i" "\<And>b t. t < 256 \<Longrightarrow> cell_ok data th mem b t" by (auto simp: cells_ok_def)
  from assms(1) obtain b t where bt: "t < 256" "th (b, t) \<noteq> Done"
    and s': "s' = (case kern b 256 t (th (b, t)) mem of Some (th', mem') \<Rightarrow> Running (th((b, t) := th')) mem' | None \<Rightarrow> Faulted)"
    unfolding s(1) by (elim grid_stepE) (use assms(4,5) in auto)
  from kernel_step [OF s(2) assms(3) s(4) [OF bt(1)] bt(2,1)] obtain th' mem' where
    k: "kern b 256 t (th (b, t)) mem = Some (th', mem')" "cell_ok data (th((b, t) := th')) mem' b t" "length mem' = length data"
    "\<And>i. i \<noteq> unat (thread_index b 256 t) \<Longrightarrow> mem' ! i = mem ! i" "\<not> thread_index b 256 t < n \<Longrightarrow> mem' = mem" by metis
  have "cell_ok data (th((b, t) := th')) mem' b' t'" if t': "t' < 256" for b' t'
  proof (cases "(b', t') = (b, t)")
    case True
    then show ?thesis using k(2) by simp
  next
    case False
    then have "thread_index b' 256 t' \<noteq> thread_index b 256 t" using thread_index_inj [OF t' bt(1)] by blast
    then have "mem' ! unat (thread_index b' 256 t') = mem ! unat (thread_index b' 256 t')" by (intro k(4)) (simp add: word_unat_eq_iff)
    then show ?thesis using s(4) [OF t', of b'] False by (auto simp: cell_ok_def Let_def split: thread.splits)
  qed
  moreover have "mem' ! i = data ! i" if "unat n \<le> i" "i < length data" for i
  proof (cases "thread_index b 256 t < n")
    case True
    then have "i \<noteq> unat (thread_index b 256 t)" using that by (auto simp: word_less_nat_alt)
    then show ?thesis using k(4) s(3) that by simp
  qed (use k(5) s(3) that in simp)
  ultimately show ?thesis using k(1,3) by (auto simp: s' cells_ok_def)
qed

lemma start_ok: "cells_ok data (grid_start data)"
  by (simp add: cells_ok_def grid_start_def cell_ok_def Let_def)

lemma run_ok:
  assumes "(grid_step L)\<^sup>*\<^sup>* (grid_start data) s" "unat n \<le> length data" "block_dim L = 256" "code_of L = kern"
  shows "cells_ok data s"
  using assms(1) by (induction rule: rtranclp_induct) (use step_ok [OF _ _ assms(2-4)] start_ok in blast)+

lemma run_result:
  assumes "(grid_step L)\<^sup>*\<^sup>* (grid_start data) s" "unat n \<le> length data" "block_dim L = 256" "code_of L = kern"
    "finished L s" "unat n \<le> unat (grid_dim L) * 256"
  shows "\<exists>th. s = Running th (map (\<lambda>i. op i (data ! i)) [0..<unat n] @ drop (unat n) data)"
proof -
  from run_ok [OF assms(1-4)] obtain th mem where s: "s = Running th mem" "length mem = length data"
    "\<And>i. unat n \<le> i \<Longrightarrow> i < length data \<Longrightarrow> mem ! i = data ! i" "\<And>b t. t < 256 \<Longrightarrow> cell_ok data th mem b t" by (auto simp: cells_ok_def)
  have cells: "mem ! i = op i (data ! i)" if i: "i < unat n" for i
  proof -
    have "unat (grid_dim L) < 2 ^ 32" by (rule u32_lt)
    then have b: "i < 2 ^ 40" using i assms(6) by simp
    note c = cell_thread [OF b]
    have "i < unat (grid_dim L) * 256" using i assms(6) by simp
    then have "block_of i < grid_dim L" using c(1) by (simp add: word_less_nat_alt div_less_iff_less_mult)
    then have "th (block_of i, lane_of i) = Done" using assms(3,5) c(2) s(1) by (simp add: finished_def)
    then show ?thesis using s(4) [OF c(2), of "block_of i"] c(3) i by (simp add: cell_ok_def Let_def word_less_nat_alt)
  qed
  have "mem = map (\<lambda>i. op i (data ! i)) [0..<unat n] @ drop (unat n) data"
    by (rule nth_equalityI) (use s(2,3) cells assms(2) in \<open>auto simp: nth_append\<close>)
  then show ?thesis by (simp add: s(1))
qed

text \<open>A run has at most two steps per thread.\<close>

lemma run_bounded:
  assumes "(grid_step L ^^ k) (grid_start data) s" "unat n \<le> length data" "block_dim L = 256" "code_of L = kern"
  shows "k + remaining L s \<le> 512 * unat (grid_dim L)"
  using assms(1)
proof (induction k arbitrary: s)
  case 0
  then show ?case using remaining_start [of L data] assms(3) by simp
next
  case (Suc k)
  then obtain s1 where s1: "(grid_step L ^^ k) (grid_start data) s1" "grid_step L s1 s" by auto
  then have "(grid_step L)\<^sup>*\<^sup>* (grid_start data) s1" by (metis rtranclp_power)
  from run_ok [OF this assms(2-4)] obtain th mem where m: "s1 = Running th mem" "length mem = length data"
    "\<And>b t. t < 256 \<Longrightarrow> cell_ok data th mem b t" by (auto simp: cells_ok_def)
  have "grid_step L (Running th mem) s" using s1(2) m(1) by simp
  then have "remaining L s < remaining L (Running th mem)"
  proof (cases rule: grid_step.cases)
    case (thread b t th' mem')
    have t: "t < 256" using thread(3) assms(3) by simp
    have "weight th' < weight (th (b, t))"
      using kernel_step [OF m(2) assms(2) m(3) [OF t] thread(4) t] thread(5) assms(3,4) by (metis option.inject prod.inject)
    then show ?thesis unfolding thread(1) by (rule remaining_step [OF thread(2,3)])
  next
    case (fault b t)
    have t: "t < 256" using fault(3) assms(3) by simp
    from kernel_step [OF m(2) assms(2) m(3) [OF t] fault(4) t] show ?thesis using fault(5) assms(3,4) by (metis option.distinct(1))
  qed
  then show ?case using Suc.IH [OF s1(1)] m(1) by simp
qed

text \<open>The device never gets stuck: a grid that is not finished has a next step.\<close>

lemma run_progress:
  assumes "(grid_step L)\<^sup>*\<^sup>* (grid_start data) s" "unat n \<le> length data" "block_dim L = 256" "code_of L = kern" "\<not> finished L s"
  shows "\<exists>s'. grid_step L s s'"
proof -
  from run_ok [OF assms(1-4)] obtain th mem where s: "s = Running th mem" by (auto simp: cells_ok_def)
  with assms(5) obtain b t where bt: "b < grid_dim L" "t < block_dim L" "th (b, t) \<noteq> Done" by (auto simp: finished_def)
  show ?thesis
    using grid_step.intros [where L = L and b = b and t = t and th = th and mem = mem] bt s by (cases "code_of L b (block_dim L) t (th (b, t)) mem") auto
qed

lemma run_computes:
  assumes "unat n \<le> length data" "block_dim L = 256" "code_of L = kern" "unat n \<le> unat (grid_dim L) * 256"
  shows "computes L data (map (\<lambda>i. op i (data ! i)) [0..<unat n] @ drop (unat n) data)"
  unfolding computes_def
proof (intro allI impI)
  fix k s assume run: "(grid_step L ^^ k) (grid_start data) s"
  then have r: "(grid_step L)\<^sup>*\<^sup>* (grid_start data) s" by (metis rtranclp_power)
  have "s \<noteq> Faulted" using run_ok [OF r assms(1-3)] by (auto simp: cells_ok_def)
  moreover have "k \<le> 2 * (unat (grid_dim L) * unat (block_dim L))" using run_bounded [OF run assms(1-3)] assms(2) by simp
  moreover have "if finished L s then \<exists>th. s = Running th (map (\<lambda>i. op i (data ! i)) [0..<unat n] @ drop (unat n) data)
      else \<exists>s'. grid_step L s s'"
    using run_result [OF r assms(1-3) _ assms(4)] run_progress [OF r assms(1-3)] by simp
  ultimately show "s \<noteq> Faulted \<and> k \<le> 2 * (unat (grid_dim L) * unat (block_dim L)) \<and>
      (if finished L s then \<exists>th. s = Running th (map (\<lambda>i. op i (data ! i)) [0..<unat n] @ drop (unat n) data) else \<exists>s'. grid_step L s s')"
    by blast
qed

end

section \<open>The two kernels\<close>

interpretation fill: elementwise_kernel "gms_fill_kernel fadd to_float n v" n False "\<lambda>i _. fadd v (to_float (of_nat i))" for fadd to_float n v
  by unfold_locales (auto simp: gms_fill_kernel_def Let_def)

interpretation scale: elementwise_kernel "gms_scale_kernel fmul n v" n True "\<lambda>_ x. fmul x v" for fmul n v
  by unfold_locales (auto simp: gms_scale_kernel_def Let_def)

lemma launch_blocks:
  assumes "0 < (n :: u64)" "n \<le> 0x7FFFFFFF00"
  shows "unat n \<le> unat (ucast ((n + 256 - 1) div 256) :: u32) * 256" "cuda_launch (ucast ((n + 256 - 1) div 256)) 256 k pending =
    (Some \<lparr>grid_dim = ucast ((n + 256 - 1) div 256), block_dim = 256, code_of = k\<rparr>, pending)"
proof -
  have n: "0 < unat n" "unat n \<le> 549755813632" using assms by (simp_all add: word_le_nat_alt unat_gt_0)
  have e: "n + 256 - 1 = n + 255" by simp
  have "unat (n + 255) = unat n + 255" using n by (simp add: unat_add_lt)
  then have d: "unat ((n + 256 - 1) div 256) = (unat n + 255) div 256" unfolding e by (simp add: unat_div)
  then have b: "unat (ucast ((n + 256 - 1) div 256) :: u32) = (unat n + 255) div 256"
    using n by (simp add: unsigned_ucast_eq take_bit_nat_eq_self)
  show "unat n \<le> unat (ucast ((n + 256 - 1) div 256) :: u32) * 256" unfolding b by simp
  have "ucast ((n + 256 - 1) div 256) \<noteq> (0 :: u32)" "\<not> 2 ^ 31 \<le> (ucast ((n + 256 - 1) div 256) :: u32)"
    using b n by (simp_all add: word_le_nat_alt flip: unat_eq_0)
  then show "cuda_launch (ucast ((n + 256 - 1) div 256)) 256 k pending =
    (Some \<lparr>grid_dim = ucast ((n + 256 - 1) div 256), block_dim = 256, code_of = k\<rparr>, pending)" by (simp add: cuda_launch_def)
qed

text \<open>An empty range is a launch of no blocks, which the runtime refuses.\<close>

lemma empty_launch_refused:
  "gms_cuda_fill fadd to_float 0 v pending = (None, 9)" "gms_cuda_scale fmul 0 v pending = (None, 9)"
  by (simp_all add: gms_cuda_fill_def gms_cuda_scale_def cuda_launch_def Let_def)

text \<open>
  C38. The device computes what the host asked for, on a range of at most \<open>(2^31 - 1) * 256\<close> floats that lies inside the memory behind
  the pointer: for a range that is not empty both wrappers launch a grid, and in whatever order the threads take their loads and
  stores, every run ends, without an access out of range, with each cell of the range filled or scaled and the rest untouched; for
  an empty range no grid is launched and both wrappers return the error of an invalid configuration.
\<close>

theorem cuda_kernels_correct:
  assumes "n \<le> 0x7FFFFFFF00" "unat n \<le> length data"
  shows "if n = 0 then gms_cuda_fill fadd to_float n v pending = (None, 9) \<and> gms_cuda_scale fmul n v pending = (None, 9)
    else (\<exists>L. gms_cuda_fill fadd to_float n v pending = (Some L, pending) \<and>
        computes L data (map (\<lambda>i. fadd v (to_float (of_nat i))) [0..<unat n] @ drop (unat n) data)) \<and>
      (\<exists>L. gms_cuda_scale fmul n v pending = (Some L, pending) \<and>
        computes L data (map (\<lambda>i. fmul (data ! i) v) [0..<unat n] @ drop (unat n) data))"
proof (cases "n = 0")
  case True
  then show ?thesis by (simp add: empty_launch_refused)
next
  case False
  then have "0 < n" by (simp add: word_gt_0)
  note l = launch_blocks [OF this assms(1)]
  have "computes \<lparr>grid_dim = ucast ((n + 256 - 1) div 256), block_dim = 256, code_of = gms_fill_kernel fadd to_float n v\<rparr> data
      (map (\<lambda>i. fadd v (to_float (of_nat i))) [0..<unat n] @ drop (unat n) data)"
    by (rule fill.run_computes) (use assms(2) l(1) in simp_all)
  moreover have "computes \<lparr>grid_dim = ucast ((n + 256 - 1) div 256), block_dim = 256, code_of = gms_scale_kernel fmul n v\<rparr> data
      (map (\<lambda>i. fmul (data ! i) v) [0..<unat n] @ drop (unat n) data)"
    by (rule scale.run_computes) (use assms(2) l(1) in simp_all)
  ultimately show ?thesis using False unfolding gms_cuda_fill_def gms_cuda_scale_def Let_def if_not_P [OF False] using l(2) by blast
qed

theorem cuda_kernels_correct_witness:
  "\<exists>L. gms_cuda_fill (+) uint 3 7 0 = (Some L, 0) \<and> computes L [0, 0, 0, 5 :: int] [7, 8, 9, 5]"
  using cuda_kernels_correct [of 3 "[0, 0, 0, 5]" "(+)" uint 7 0 "(*)"] by (simp add: upt_rec)

section \<open>Starting a governor on a device\<close>

text \<open>A failed \<open>cudaMalloc\<close> is reported with the text of the CUDA error; the check for an empty arena comes earlier, in the governor.\<close>

lemma cuda_initialize:
  assumes "dom_managed_capacity d \<noteq> 0"
  shows "gov_initialize (MemoryGovernor_new d (Some (CudaBackend cuda_malloc es))) =
    (case cuda_malloc (dom_managed_capacity d) of (e, p) \<Rightarrow>
       if e \<noteq> 0 then (MemoryGovernor_new d (Some (CudaBackend cuda_malloc es)), Err (Failure RejectReason.PHYSICAL_OOM (es e)))
       else ((MemoryGovernor_new d (Some (CudaBackend cuda_malloc es)))\<lparr>g_arena_base := p, g_initialized := True,
               g_domain := d\<lparr>dom_health := DeviceHealth.HEALTHY\<rparr>\<rparr>, Ok ()))"
  using assms by (simp add: gov_initialize_def MemoryGovernor_new_def CudaBackend_def split: prod.splits)

text \<open>What the destructor of a governor hands over is really freed, on either backend.\<close>

lemma destroy_frees:
  "snd (MemoryGovernor_destroy g) = Some p \<Longrightarrow> HostBackend_free_arena p = Some p \<and> CudaBackend_free_arena p = Some p"
  by (auto simp: MemoryGovernor_destroy_def HostBackend_free_arena_def CudaBackend_free_arena_def split: if_splits)

end
