(* ===== verification/Gms_Concurrent.thy ===== *)
theory Gms_Concurrent
  imports Gms_Governor_Props
begin

text \<open>
  Threads that share one governor.  For every public method of \<^verbatim>\<open>src/governed_memory.cpp\<close> the model says whether it holds the mutex
  with a \<^verbatim>\<open>lock_guard\<close> for its whole body (\<open>takes_lock\<close>) and whether the body reads or writes the members (\<open>method_access\<close>); \<^verbatim>\<open>load\<close> reads
  the file before it calls \<^verbatim>\<open>restore\<close>, \<^verbatim>\<open>save\<close> writes it after \<^verbatim>\<open>snapshot\<close>.  The step relation is that of threads and a
  \<^verbatim>\<open>std::mutex\<close>: a method that takes the mutex waits for it, any other goes on at once.  The methods that access the members all
  take the mutex, except the four inline accessors \<^verbatim>\<open>domain\<close>, \<^verbatim>\<open>initialized\<close>, \<^verbatim>\<open>arena_base\<close> and \<^verbatim>\<open>record_count\<close>; without
  these the governor has no data race and is linearizable, with them it can have one (\<open>accessor_races\<close>).
\<close>

section \<open>Methods and replies\<close>

text \<open>The public methods: those that may change the state, the pure queries, and the accessors of the header.\<close>

datatype gov_method =
    Call gov_call
  | Get AllocationId AllocationGeneration
  | Allocations
  | ReclaimCandidates u64
  | RegionSize AllocationId
  | Snapshot
  | Domain
  | Initialized
  | ArenaBase
  | RecordCount

datatype gov_reply =
    Status "unit result"
  | Handle "AllocationHandle result"
  | Record "AllocationRecord result"
  | Level PressureState
  | Sums MemorySummary
  | Steps CompactionPlan
  | Text string
  | Records "AllocationRecord list"
  | Ids "AllocationId list"
  | Bytes u64
  | Saved PersistSnapshot
  | Domain_is MemoryDomain
  | Flag bool
  | Number nat

fun method_exec :: "MemoryGovernor \<Rightarrow> gov_method \<Rightarrow> MemoryGovernor" where
  "method_exec g (Call c) = gov_exec g c"
| "method_exec g _ = g"

fun call_reply :: "MemoryGovernor \<Rightarrow> gov_call \<Rightarrow> gov_reply" where
  "call_reply g Initialize = Status (snd (gov_initialize g))"
| "call_reply g (Request req) = Handle (snd (gov_request g req))"
| "call_reply g (Release aid gen) = Record (snd (gov_release g aid gen))"
| "call_reply g (ReleaseForWorker aid gen wb sb) = Record (snd (release_for_worker g aid gen wb sb))"
| "call_reply g (Pin aid gen) = Status (snd (gov_pin g aid gen))"
| "call_reply g (Unpin aid gen) = Status (snd (gov_unpin g aid gen))"
| "call_reply g (Relocate aid gen n sz) = Handle (snd (apply_relocation g aid gen n sz))"
| "call_reply g Pressure = Level (snd (gov_pressure g))"
| "call_reply g Summary = Sums (snd (gov_summary g))"
| "call_reply g Plan = Steps (snd (plan_compaction g))"
| "call_reply g Explain = Text (snd (gov_explain g))"
| "call_reply g (Restore s) = Status (snd (gov_restore g s))"
| "call_reply g (Load path fs) = Status (snd (gov_load g path fs))"

fun method_reply :: "MemoryGovernor \<Rightarrow> gov_method \<Rightarrow> gov_reply" where
  "method_reply g (Call c) = call_reply g c"
| "method_reply g (Get aid gen) = Record (gov_get g aid gen)"
| "method_reply g Allocations = Records (gov_allocations g)"
| "method_reply g (ReclaimCandidates k) = Ids (reclaim_candidates g k)"
| "method_reply g (RegionSize aid) = Bytes (gov_region_size g aid)"
| "method_reply g Snapshot = Saved (gov_snapshot g)"
| "method_reply g Domain = Domain_is (g_domain g)"
| "method_reply g Initialized = Flag (g_initialized g)"
| "method_reply g ArenaBase = Bytes (g_arena_base g)"
| "method_reply g RecordCount = Number (length (g_records g))"

section \<open>Which methods take the mutex\<close>

text \<open>
  One equation per method, with the line of its \<^verbatim>\<open>lock_guard\<close>.  \<^verbatim>\<open>load\<close> takes the mutex in \<^verbatim>\<open>restore\<close>, which it calls when the file
  could be read.
\<close>

fun takes_lock :: "gov_method \<Rightarrow> bool" where
  "takes_lock (Call Initialize) = True"  \<comment> \<open>42\<close>
| "takes_lock (Call (Request req)) = True"  \<comment> \<open>60\<close>
| "takes_lock (Call (Release aid gen)) = True"  \<comment> \<open>131\<close>
| "takes_lock (Call (ReleaseForWorker aid gen wb sb)) = True"  \<comment> \<open>137\<close>
| "takes_lock (Call (Pin aid gen)) = True"  \<comment> \<open>177\<close>
| "takes_lock (Call (Unpin aid gen)) = True"  \<comment> \<open>198\<close>
| "takes_lock (Get aid gen) = True"  \<comment> \<open>220\<close>
| "takes_lock (Call Summary) = True"  \<comment> \<open>275\<close>
| "takes_lock (Call Pressure) = True"  \<comment> \<open>280\<close>
| "takes_lock Allocations = True"  \<comment> \<open>285\<close>
| "takes_lock (ReclaimCandidates k) = True"  \<comment> \<open>293\<close>
| "takes_lock (Call Plan) = True"  \<comment> \<open>317\<close>
| "takes_lock (RegionSize aid) = True"  \<comment> \<open>379\<close>
| "takes_lock (Call (Relocate aid gen n sz)) = True"  \<comment> \<open>389\<close>
| "takes_lock (Call Explain) = True"  \<comment> \<open>408\<close>
| "takes_lock Snapshot = True"  \<comment> \<open>428\<close>
| "takes_lock (Call (Restore s)) = True"  \<comment> \<open>441\<close>
| "takes_lock (Call (Load path fs)) = has_value (read_file path fs)"
| "takes_lock Domain = False"
| "takes_lock Initialized = False"
| "takes_lock ArenaBase = False"
| "takes_lock RecordCount = False"

text \<open>
  What the body does to the members.  The const methods \<^verbatim>\<open>summary\<close>, \<^verbatim>\<open>pressure\<close>, \<^verbatim>\<open>plan_compaction\<close> and \<^verbatim>\<open>explain\<close> write the
  mutable pressure of the domain or the cached summary of the arena.
\<close>

datatype member_access = Untouched | Reads | Writes

fun method_access :: "gov_method \<Rightarrow> member_access" where
  "method_access (Call (Load path fs)) = (if has_value (read_file path fs) then Writes else Untouched)"
| "method_access (Call c) = Writes"
| "method_access (Get aid gen) = Reads"
| "method_access Allocations = Reads"
| "method_access (ReclaimCandidates k) = Reads"
| "method_access (RegionSize aid) = Reads"
| "method_access Snapshot = Reads"
| "method_access Domain = Reads"
| "method_access Initialized = Reads"
| "method_access ArenaBase = Reads"
| "method_access RecordCount = Reads"

fun is_accessor :: "gov_method \<Rightarrow> bool" where
  "is_accessor Domain = True"
| "is_accessor Initialized = True"
| "is_accessor ArenaBase = True"
| "is_accessor RecordCount = True"
| "is_accessor _ = False"

text \<open>The locking discipline of the class, and that \<open>method_access\<close> is right about the bodies.\<close>

lemma access_locked: "method_access m \<noteq> Untouched \<Longrightarrow> \<not> is_accessor m \<Longrightarrow> takes_lock m"
  by (cases m rule: takes_lock.cases) (simp_all split: if_splits)

lemma access_reads: "method_access m \<noteq> Writes \<Longrightarrow> method_exec g m = g"
proof (cases m)
  case (Call c)
  then show "method_access m \<noteq> Writes \<Longrightarrow> method_exec g m = g"
    by (cases c) (auto simp: has_value_def gov_load_def split: result.splits if_splits)
qed simp_all

lemma access_untouched: "method_access m = Untouched \<Longrightarrow> method_reply g m = method_reply g' m"
proof (cases m)
  case (Call c)
  then show "method_access m = Untouched \<Longrightarrow> method_reply g m = method_reply g' m"
    by (cases c) (auto simp: has_value_def gov_load_def split: result.splits if_splits)
qed simp_all

section \<open>Threads\<close>

text \<open>
  A thread inside a method: it has been entered, the \<open>lock_guard\<close> holds the mutex, the body has read the members, the body has
  written them and made its result, the mutex is free again.  Between reading and writing other threads may run; nothing but the
  mutex keeps them from writing the members in between.
\<close>

datatype pc =
    Outside
  | Entered gov_method
  | Locked gov_method
  | Working gov_method MemoryGovernor
  | Written gov_method gov_reply
  | Leaving gov_reply

datatype event = Invoke nat gov_method | Effect nat gov_method gov_reply | Return nat gov_reply

record conc =
  cs_gov :: MemoryGovernor
  cs_mutex :: "nat option"
  cs_pc :: "nat \<Rightarrow> pc"
  cs_log :: "event list"

inductive conc_step :: "nat \<Rightarrow> conc \<Rightarrow> conc \<Rightarrow> bool" for t where
  invoke: "cs_pc s t = Outside \<Longrightarrow> conc_step t s (s\<lparr>cs_pc := (cs_pc s)(t := Entered m), cs_log := cs_log s @ [Invoke t m]\<rparr>)"
| lock: "cs_pc s t = Entered m \<Longrightarrow> takes_lock m \<Longrightarrow> cs_mutex s = None \<Longrightarrow>
    conc_step t s (s\<lparr>cs_mutex := Some t, cs_pc := (cs_pc s)(t := Locked m)\<rparr>)"
| load: "cs_pc s t = Locked m \<or> cs_pc s t = Entered m \<and> \<not> takes_lock m \<Longrightarrow>
    conc_step t s (s\<lparr>cs_pc := (cs_pc s)(t := Working m (cs_gov s))\<rparr>)"
| store: "cs_pc s t = Working m g \<Longrightarrow>
    conc_step t s (s\<lparr>cs_gov := (if method_access m = Writes then method_exec g m else cs_gov s),
      cs_pc := (cs_pc s)(t := Written m (method_reply g m)), cs_log := cs_log s @ [Effect t m (method_reply g m)]\<rparr>)"
| unlock: "cs_pc s t = Written m r \<Longrightarrow>
    conc_step t s (s\<lparr>cs_mutex := (if takes_lock m then None else cs_mutex s), cs_pc := (cs_pc s)(t := Leaving r)\<rparr>)"
| return: "cs_pc s t = Leaving r \<Longrightarrow> conc_step t s (s\<lparr>cs_pc := (cs_pc s)(t := Outside), cs_log := cs_log s @ [Return t r]\<rparr>)"

definition conc_start :: "MemoryGovernor \<Rightarrow> conc" where
  "conc_start g = \<lparr>cs_gov = g, cs_mutex = None, cs_pc = \<lambda>_. Outside, cs_log = []\<rparr>"

inductive conc_reach :: "MemoryGovernor \<Rightarrow> conc \<Rightarrow> bool" for g where
  start: "conc_reach g (conc_start g)"
| step: "conc_reach g s \<Longrightarrow> conc_step t s s' \<Longrightarrow> conc_reach g s'"

text \<open>Two threads in the bodies of two methods of which one writes what the other accesses.\<close>

definition data_race :: "conc \<Rightarrow> bool" where
  "data_race s \<longleftrightarrow> (\<exists>t u m m' g g'. t \<noteq> u \<and> cs_pc s t = Working m g \<and> cs_pc s u = Working m' g' \<and>
     method_access m = Writes \<and> method_access m' \<noteq> Untouched)"

definition no_accessors :: "conc \<Rightarrow> bool" where
  "no_accessors s \<longleftrightarrow> (\<forall>t m. Invoke t m \<in> set (cs_log s) \<longrightarrow> \<not> is_accessor m)"

section \<open>Sequential histories\<close>

text \<open>The methods in the order of their effects, and what the log says of one thread.\<close>

fun effects :: "event list \<Rightarrow> (gov_method \<times> gov_reply) list" where
  "effects [] = []"
| "effects (Effect t m r # es) = (m, r) # effects es"
| "effects (_ # es) = effects es"

fun legal :: "MemoryGovernor \<Rightarrow> (gov_method \<times> gov_reply) list \<Rightarrow> bool" where
  "legal g [] \<longleftrightarrow> True"
| "legal g ((m, r) # hs) \<longleftrightarrow> r = method_reply g m \<and> legal (method_exec g m) hs"

datatype phase = Free | Invoked gov_method | Effected gov_reply

text \<open>The next event of a thread: it invokes, takes effect once, and returns the reply of the effect.\<close>

fun next_phase :: "nat \<Rightarrow> phase option \<Rightarrow> event \<Rightarrow> phase option" where
  "next_phase t p (Invoke u m) = (if u \<noteq> t then p else if p = Some Free then Some (Invoked m) else None)"
| "next_phase t p (Effect u m r) = (if u \<noteq> t then p else if p = Some (Invoked m) then Some (Effected r) else None)"
| "next_phase t p (Return u r) = (if u \<noteq> t then p else if p = Some (Effected r) then Some Free else None)"

definition thread_phase :: "nat \<Rightarrow> event list \<Rightarrow> phase option" where
  "thread_phase t es = foldl (next_phase t) (Some Free) es"

fun phase_of :: "pc \<Rightarrow> phase" where
  "phase_of Outside = Free"
| "phase_of (Entered m) = Invoked m"
| "phase_of (Locked m) = Invoked m"
| "phase_of (Working m g) = Invoked m"
| "phase_of (Written m r) = Effected r"
| "phase_of (Leaving r) = Effected r"

text \<open>Between lock and unlock.\<close>

fun in_section :: "pc \<Rightarrow> bool" where
  "in_section (Locked m) = takes_lock m"
| "in_section (Working m g) = takes_lock m"
| "in_section (Written m r) = takes_lock m"
| "in_section _ = False"

fun in_method :: "pc \<Rightarrow> gov_method option" where
  "in_method (Entered m) = Some m"
| "in_method (Locked m) = Some m"
| "in_method (Working m g) = Some m"
| "in_method _ = None"

lemma effects_append [simp]: "effects (xs @ ys) = effects xs @ effects ys"
  by (induction xs rule: effects.induct) simp_all

lemma legal_append: "legal g (xs @ ys) \<longleftrightarrow> legal g xs \<and> legal (foldl method_exec g (map fst xs)) ys"
  by (induction g xs rule: legal.induct) simp_all

lemma thread_phase_append [simp]: "thread_phase t (es @ [e]) = next_phase t (thread_phase t es) e"
  by (simp add: thread_phase_def)

section \<open>The invariant\<close>

definition conc_inv :: "MemoryGovernor \<Rightarrow> conc \<Rightarrow> bool" where
  "conc_inv g s \<longleftrightarrow> (\<forall>t. in_section (cs_pc s t) \<longleftrightarrow> cs_mutex s = Some t) \<and>
     (\<forall>t m. in_method (cs_pc s t) = Some m \<longrightarrow> \<not> is_accessor m) \<and>
     (\<forall>t m g'. cs_pc s t = Working m g' \<longrightarrow> method_access m \<noteq> Untouched \<longrightarrow> g' = cs_gov s) \<and>
     (\<forall>t. thread_phase t (cs_log s) = Some (phase_of (cs_pc s t))) \<and>
     legal g (effects (cs_log s)) \<and> cs_gov s = foldl method_exec g (map fst (effects (cs_log s)))"

lemma conc_start_inv: "conc_inv g (conc_start g)"
  by (simp add: conc_inv_def conc_start_def thread_phase_def)

lemma conc_invD:
  assumes "conc_inv g s"
  shows "in_section (cs_pc s t) \<longleftrightarrow> cs_mutex s = Some t" "in_method (cs_pc s t) = Some m \<Longrightarrow> \<not> is_accessor m"
    "cs_pc s t = Working m g' \<Longrightarrow> method_access m \<noteq> Untouched \<Longrightarrow> g' = cs_gov s"
    "thread_phase t (cs_log s) = Some (phase_of (cs_pc s t))"
    "legal g (effects (cs_log s))" "foldl method_exec g (map fst (effects (cs_log s))) = cs_gov s"
  using assms by (auto simp: conc_inv_def)

text \<open>A thread that works on the members holds the mutex, so no other does.\<close>

lemma working_locks:
  assumes "conc_inv g s" "cs_pc s t = Working m g'" "method_access m \<noteq> Untouched"
  shows "takes_lock m" "cs_mutex s = Some t"
proof -
  show l: "takes_lock m" using conc_invD(2) [OF assms(1), of t m] assms(2,3) by (intro access_locked) simp_all
  then show "cs_mutex s = Some t" using conc_invD(1) [OF assms(1), of t] assms(2) by simp
qed

lemma no_race: "conc_inv g s \<Longrightarrow> \<not> data_race s"
  unfolding data_race_def using working_locks(2) by (metis member_access.distinct(3) option.inject)

lemma store_inv:
  assumes inv: "conc_inv g s" and pc: "cs_pc s t = Working m g'"
  shows "conc_inv g (s\<lparr>cs_gov := (if method_access m = Writes then method_exec g' m else cs_gov s),
      cs_pc := (cs_pc s)(t := Written m (method_reply g' m)), cs_log := cs_log s @ [Effect t m (method_reply g' m)]\<rparr>)"
    (is "conc_inv g ?s'")
proof -
  have r: "method_reply g' m = method_reply (cs_gov s) m"
    using conc_invD(3) [OF inv pc] access_untouched [of m g' "cs_gov s"] by (cases "method_access m = Untouched") simp_all
  have e: "cs_gov ?s' = method_exec (cs_gov s) m"
    using conc_invD(3) [OF inv pc] access_reads [of m "cs_gov s"] by (cases "method_access m") simp_all
  have w: "g2 = cs_gov ?s'" if u: "cs_pc ?s' u = Working m' g2" "method_access m' \<noteq> Untouched" for u m' g2
  proof -
    have p: "u \<noteq> t" "cs_pc s u = Working m' g2" using u(1) by (auto split: if_splits)
    then have "method_access m \<noteq> Writes" using working_locks(2) [OF inv pc] working_locks(2) [OF inv p(2) u(2)] by auto
    then show ?thesis using conc_invD(3) [OF inv p(2) u(2)] by simp
  qed
  have ph: "thread_phase u (cs_log ?s') = Some (phase_of (cs_pc ?s' u))" for u
    using conc_invD(4) [OF inv, of u] pc by auto
  have mx: "in_section (cs_pc ?s' u) \<longleftrightarrow> cs_mutex ?s' = Some u" for u using conc_invD(1) [OF inv, of u] pc by auto
  have ac: "\<not> is_accessor m'" if "in_method (cs_pc ?s' u) = Some m'" for u m'
    using conc_invD(2) [OF inv, of u m'] that by (auto split: if_splits)
  have lg: "legal g (effects (cs_log ?s'))" "cs_gov ?s' = foldl method_exec g (map fst (effects (cs_log ?s')))"
    using conc_invD(5,6) [OF inv] r e by (simp_all add: legal_append)
  show ?thesis unfolding conc_inv_def using w ph mx ac lg by blast
qed

lemma conc_step_inv:
  assumes "conc_step t s s'" "conc_inv g s" "no_accessors s'"
  shows "conc_inv g s'"
  using assms(1)
proof cases
  case (invoke m)
  have "cs_mutex s \<noteq> Some t" "\<not> is_accessor m"
    using conc_invD(1) [OF assms(2), of t] assms(3) invoke by (auto simp: no_accessors_def)
  then show ?thesis using assms(2) invoke by (auto simp: conc_inv_def)
next
  case (lock m)
  have "\<not> is_accessor m" using conc_invD(2) [OF assms(2), of t m] lock(2) by simp
  then show ?thesis using assms(2) lock by (auto simp: conc_inv_def)
next
  case (load m)
  have "in_section (cs_pc s t) \<longleftrightarrow> takes_lock m" "in_method (cs_pc s t) = Some m" "phase_of (cs_pc s t) = Invoked m"
    using load(2) by auto
  then show ?thesis using assms(2) load by (auto simp: conc_inv_def)
next
  case (store m g')
  then show ?thesis using store_inv [OF assms(2) store(2)] by simp
next
  case (unlock m r)
  have "takes_lock m \<longleftrightarrow> cs_mutex s = Some t" using conc_invD(1) [OF assms(2), of t] unlock(2) by simp
  then show ?thesis using assms(2) unlock by (auto simp: conc_inv_def)
next
  case (return r)
  have "cs_mutex s \<noteq> Some t" using conc_invD(1) [OF assms(2), of t] return(2) by simp
  then show ?thesis using assms(2) return by (auto simp: conc_inv_def)
qed

lemma conc_step_log: "conc_step t s s' \<Longrightarrow> set (cs_log s) \<subseteq> set (cs_log s')"
  by (induction rule: conc_step.induct) auto

lemma conc_reach_inv: "conc_reach g s \<Longrightarrow> no_accessors s \<Longrightarrow> conc_inv g s"
proof (induction rule: conc_reach.induct)
  case (step s t s')
  have "no_accessors s" using step.prems conc_step_log [OF step.hyps(2)] by (auto simp: no_accessors_def)
  then show ?case using conc_step_inv [OF step.hyps(2) step.IH step.prems] by simp
qed (simp add: conc_start_inv)

text \<open>A thread can go on unless it waits for the mutex; the holder of the mutex can always go on.\<close>

lemma conc_enabled:
  assumes "cs_pc s t \<noteq> Outside" "\<forall>m. cs_pc s t = Entered m \<longrightarrow> takes_lock m \<longrightarrow> cs_mutex s = None"
  shows "\<exists>s'. conc_step t s s'"
  using assms by (cases "cs_pc s t") (simp_all, (metis conc_step.intros)+)

lemma conc_progress:
  assumes inv: "conc_inv g s" and busy: "cs_pc s t \<noteq> Outside"
  shows "\<exists>u s'. cs_pc s u \<noteq> Outside \<and> conc_step u s s'"
proof (cases "cs_mutex s")
  case None
  then show ?thesis using busy conc_enabled [OF busy] by auto
next
  case (Some u)
  then have "in_section (cs_pc s u)" using conc_invD(1) [OF inv, of u] by simp
  then have "cs_pc s u \<noteq> Outside" "\<forall>m. cs_pc s u \<noteq> Entered m" by auto
  then show ?thesis using conc_enabled [of s u] by auto
qed

section \<open>What a caller holds\<close>

text \<open>Every request in the sequence finds an identity that is not the last.\<close>

fun methods_ok :: "MemoryGovernor \<Rightarrow> gov_method list \<Rightarrow> bool" where
  "methods_ok g [] \<longleftrightarrow> True"
| "methods_ok g (m # ms) \<longleftrightarrow> (case m of Call c \<Rightarrow> call_ok g c | _ \<Rightarrow> True) \<and> methods_ok (method_exec g m) ms"

lemma methods_ok_append: "methods_ok g (ms @ ms') \<longleftrightarrow> methods_ok g ms \<and> methods_ok (foldl method_exec g ms) ms'"
  by (induction g ms rule: methods_ok.induct) auto

lemma methods_reach: "gov_reach g \<Longrightarrow> methods_ok g ms \<Longrightarrow> gov_reach (foldl method_exec g ms)"
proof (induction ms arbitrary: g)
  case (Cons m ms)
  have "gov_reach (method_exec g m)" using Cons.prems by (cases m) (auto intro: gov_reach.call)
  then show ?case using Cons by simp
qed simp

text \<open>The methods that may change the allocation \<open>aid\<close>: those that name it, and recovery.\<close>

fun touches :: "AllocationId \<Rightarrow> gov_method \<Rightarrow> bool" where
  "touches aid (Call (Release i gen)) \<longleftrightarrow> i = aid"
| "touches aid (Call (ReleaseForWorker i gen wb sb)) \<longleftrightarrow> i = aid"
| "touches aid (Call (Pin i gen)) \<longleftrightarrow> i = aid"
| "touches aid (Call (Unpin i gen)) \<longleftrightarrow> i = aid"
| "touches aid (Call (Relocate i gen n sz)) \<longleftrightarrow> i = aid"
| "touches aid (Call (Restore s)) \<longleftrightarrow> True"
| "touches aid (Call (Load path fs)) \<longleftrightarrow> True"
| "touches aid _ \<longleftrightarrow> False"

lemma exec_untouched:
  assumes inv: "gov_inv g" and ok: "call_ok g c" and c: "\<not> touches aid (Call c)" and rec: "recs g aid = Some rec"
  shows "recs (gov_exec g c) aid = Some rec"
proof -
  have rel: "recs (fst (release_locked g i gen wb sb)) aid = Some rec" if "i \<noteq> aid" for i gen wb sb
    using inv by (cases rule: release_cases [of g i gen wb sb]) (use rec that in auto)
  have req: "recs (fst (gov_request g req)) aid = Some rec" if "g_next_alloc_id g \<noteq> - 1" for req
    using inv that by (cases rule: request_cases [of g req]) (use rec in auto)
  have pin: "recs (fst (gov_pin g i gen)) aid = Some rec" if "i \<noteq> aid" for i gen
    using inv by (cases rule: pin_cases [of g i gen]) (use rec that in auto)
  have unpin: "recs (fst (gov_unpin g i gen)) aid = Some rec" if "i \<noteq> aid" for i gen
    using inv by (cases rule: unpin_cases [of g i gen]) (use rec that in auto)
  have move: "recs (fst (apply_relocation g i gen n sz)) aid = Some rec" if "i \<noteq> aid" for i gen n sz
    using inv by (cases rule: apply_cases [of g i gen n sz]) (use rec that in auto)
  have cache: "recs g' aid = Some rec" if "only_cache g' g" for g' using that rec by (auto simp: only_cache_def)
  have init: "recs (fst (gov_initialize g)) aid = Some rec" using rec by (auto simp: gov_initialize_def split: option.splits sum.splits)
  show ?thesis
    using c ok by (cases c) (simp_all add: call_ok_def gov_release_def release_for_worker_def rel req pin unpin move init
        cache pressure_cache summary_cache plan_cache explain_cache)
qed

lemma methods_untouched:
  "gov_reach g \<Longrightarrow> methods_ok g ms \<Longrightarrow> \<forall>m\<in>set ms. \<not> touches aid m \<Longrightarrow> recs g aid = Some rec \<Longrightarrow>
   recs (foldl method_exec g ms) aid = Some rec"
proof (induction ms arbitrary: g)
  case (Cons m ms)
  have "gov_reach (method_exec g m) \<and> recs (method_exec g m) aid = Some rec"
    using Cons.prems exec_untouched [OF reach_gov_inv] by (cases m) (auto intro: gov_reach.call)
  then show ?case using Cons by simp
qed simp

text \<open>The request at position \<open>k\<close> of a history was granted \<open>h\<close>, and nothing since then may have changed that allocation.\<close>

definition holds :: "(gov_method \<times> gov_reply) list \<Rightarrow> nat \<Rightarrow> AllocationHandle \<Rightarrow> bool" where
  "holds hs k h \<longleftrightarrow> k < length hs \<and> (\<exists>req. hs ! k = (Call (Request req), Handle (Ok h)) \<and> \<not> req_requires_pin req) \<and>
     (\<forall>m\<in>set (map fst (drop (Suc k) hs)). \<not> touches (ah_id h) m)"

definition state_at :: "MemoryGovernor \<Rightarrow> (gov_method \<times> gov_reply) list \<Rightarrow> nat \<Rightarrow> MemoryGovernor" where
  "state_at g hs n = foldl method_exec g (map fst (take n hs))"

text \<open>The record that the handle describes.\<close>

definition describes :: "AllocationHandle \<Rightarrow> AllocationRecord \<Rightarrow> bool" where
  "describes h rec \<longleftrightarrow> rec_generation rec = ah_generation h \<and> rec_offset rec = ah_offset h \<and> rec_region_size rec = ah_size h \<and> rec_pin_count rec = 0"

lemma held_record:
  assumes g: "gov_reach g" and legal: "legal g hs" and ok: "methods_ok g (map fst hs)" and h: "holds hs k h"
  shows "recs (state_at g hs k) (ah_id h) = None"
    "\<exists>rec. describes h rec \<and> (\<forall>n. k < n \<longrightarrow> n \<le> length hs \<longrightarrow> recs (state_at g hs n) (ah_id h) = Some rec)"
proof -
  define xs ys where "xs = take k hs" and "ys = drop (Suc k) hs"
  from h obtain req where k: "k < length hs" "hs ! k = (Call (Request req), Handle (Ok h))" and np: "\<not> req_requires_pin req"
    and keep: "\<forall>m\<in>set (map fst ys). \<not> touches (ah_id h) m" by (auto simp: holds_def ys_def)
  have hs: "hs = xs @ (Call (Request req), Handle (Ok h)) # ys" and len: "length xs = k"
    using id_take_nth_drop [OF k(1)] k by (simp_all add: xs_def ys_def)
  let ?g1 = "foldl method_exec g (map fst xs)"
  have at: "state_at g hs k = ?g1" by (simp add: state_at_def xs_def)
  have m: "methods_ok g (map fst xs)" "g_next_alloc_id ?g1 \<noteq> - 1" "methods_ok (fst (gov_request ?g1 req)) (map fst ys)"
    using ok by (simp_all add: hs methods_ok_append call_ok_def)
  have r1: "gov_reach ?g1" by (rule methods_reach [OF g m(1)])
  have reply: "snd (gov_request ?g1 req) = Ok h" using legal by (simp add: hs legal_append)
  have r2: "gov_reach (fst (gov_request ?g1 req))" using gov_reach.call [OF r1, of "Request req"] m(2) by (simp add: call_ok_def)
  from reach_gov_inv [OF r1] m(2) have "recs ?g1 (ah_id h) = None \<and> (\<exists>rec. describes h rec \<and> recs (fst (gov_request ?g1 req)) (ah_id h) = Some rec)"
    by (cases rule: request_cases [of ?g1 req]) (use reply np in \<open>auto simp: describes_def request_record_def\<close>)
  then obtain rec where rec: "recs ?g1 (ah_id h) = None" "describes h rec" "recs (fst (gov_request ?g1 req)) (ah_id h) = Some rec" by blast
  show "recs (state_at g hs k) (ah_id h) = None" using rec(1) by (simp add: at)
  have "recs (state_at g hs n) (ah_id h) = Some rec" if n: "k < n" "n \<le> length hs" for n
  proof -
    from n(1) obtain j where j: "n = Suc (k + j)" using less_imp_Suc_add by blast
    have st: "state_at g hs n = foldl method_exec (fst (gov_request ?g1 req)) (map fst (take j ys))"
      using len by (simp add: state_at_def hs j)
    have "methods_ok (fst (gov_request ?g1 req)) (map fst (take j ys))"
      using m(3) methods_ok_append [of _ "map fst (take j ys)" "map fst (drop j ys)"] by (simp flip: map_append)
    moreover have "\<forall>m\<in>set (map fst (take j ys)). \<not> touches (ah_id h) m" using keep by (auto dest: in_set_takeD)
    ultimately show ?thesis unfolding st using rec(3) by (intro methods_untouched [OF r2])
  qed
  then show "\<exists>rec. describes h rec \<and> (\<forall>n. k < n \<longrightarrow> n \<le> length hs \<longrightarrow> recs (state_at g hs n) (ah_id h) = Some rec)" using rec(2) by blast
qed

lemma held_apart:
  assumes g: "gov_reach g" and legal: "legal g hs" and ok: "methods_ok g (map fst hs)"
    and h: "holds hs k h" and h': "holds hs l h'" and kl: "k < l"
  shows "unat (ah_offset h) + unat (ah_size h) \<le> unat (ah_offset h') \<or> unat (ah_offset h') + unat (ah_size h') \<le> unat (ah_offset h)"
proof -
  from held_record(2) [OF g legal ok h] obtain rec where rec: "describes h rec"
    "\<And>n. k < n \<Longrightarrow> n \<le> length hs \<Longrightarrow> recs (state_at g hs n) (ah_id h) = Some rec" by blast
  from held_record(2) [OF g legal ok h'] obtain rec' where rec': "describes h' rec'"
    "\<And>n. l < n \<Longrightarrow> n \<le> length hs \<Longrightarrow> recs (state_at g hs n) (ah_id h') = Some rec'" by blast
  have l: "l < length hs" using h' by (simp add: holds_def)
  have "ah_id h \<noteq> ah_id h'" using held_record(1) [OF g legal ok h'] rec(2) [of l] kl l by auto
  moreover have "gov_inv (state_at g hs (length hs))" using methods_reach [OF g ok] by (simp add: state_at_def reach_gov_inv)
  ultimately have "disjoint_recs rec rec'" using rec(2) [of "length hs"] rec'(2) [of "length hs"] kl l by (intro recs_disjoint) simp_all
  then show ?thesis using rec(1) rec'(1) by (simp add: disjoint_recs_def describes_def)
qed

lemma held_released:
  assumes "gov_inv g" "recs g (ah_id h) = Some rec" "describes h rec"
  shows "has_value (snd (gov_release g (ah_id h) (ah_generation h)))"
  using assms(1) unfolding gov_release_def
  by (cases rule: release_cases [of g "ah_id h" "ah_generation h" "TypedGeneration 0" "TypedGeneration 0"])
    (use assms(2,3) in \<open>auto simp: release_error_def describes_def is_set_def\<close>)


text \<open>
  Two threads: one is inside the body of a release of the first allocation, the other has entered a method \<open>m\<close>.
\<close>

abbreviation release_one :: gov_method where
  "release_one \<equiv> Call (Release (TypedId 1) (TypedGeneration 1))"

definition demo_threads :: "gov_method \<Rightarrow> conc" where
  "demo_threads m = \<lparr>cs_gov = demo_gov, cs_mutex = Some 1, cs_pc = (\<lambda>_. Outside)(2 := Entered m, 1 := Working release_one demo_gov),
     cs_log = [Invoke 1 release_one, Invoke 2 m]\<rparr>"

lemma demo_threads_reach: "conc_reach demo_gov (demo_threads m)"
proof -
  let ?s1 = "\<lparr>cs_gov = demo_gov, cs_mutex = None, cs_pc = (\<lambda>_. Outside)(1 := Entered release_one), cs_log = [Invoke 1 release_one]\<rparr>"
  let ?s2 = "\<lparr>cs_gov = demo_gov, cs_mutex = None, cs_pc = (\<lambda>_. Outside)(1 := Entered release_one, 2 := Entered m),
     cs_log = [Invoke 1 release_one, Invoke 2 m]\<rparr>"
  let ?s3 = "?s2\<lparr>cs_mutex := Some 1, cs_pc := (cs_pc ?s2)(1 := Locked release_one)\<rparr>"
  have "conc_step 1 (conc_start demo_gov) ?s1"
    using conc_step.invoke [of "conc_start demo_gov" 1 release_one] by (simp add: conc_start_def)
  then have r: "conc_reach demo_gov ?s1" by (rule conc_reach.step [OF conc_reach.start])
  have "conc_step 2 ?s1 ?s2" using conc_step.invoke [of ?s1 2 m] by simp
  then have r: "conc_reach demo_gov ?s2" by (rule conc_reach.step [OF r])
  have "conc_step 1 ?s2 ?s3" using conc_step.lock [of ?s2 1 release_one] by simp
  then have r: "conc_reach demo_gov ?s3" by (rule conc_reach.step [OF r])
  have "conc_step 1 ?s3 (demo_threads m)"
    using conc_step.load [of ?s3 1 release_one] by (simp add: demo_threads_def fun_upd_twist)
  then show ?thesis by (rule conc_reach.step [OF r])
qed


text \<open>An accessor that does not take the mutex: \<^verbatim>\<open>record_count\<close> reads the size of \<^verbatim>\<open>records_\<close> while a release erases from it.\<close>

lemma accessor_races: "\<exists>s. conc_reach demo_gov s \<and> data_race s"
proof -
  let ?s = "demo_threads RecordCount"
  let ?s' = "?s\<lparr>cs_pc := (cs_pc ?s)(2 := Working RecordCount (cs_gov ?s))\<rparr>"
  have "conc_step 2 ?s ?s'" by (rule conc_step.load) (simp add: demo_threads_def)
  then have "conc_reach demo_gov ?s'" by (rule conc_reach.step [OF demo_threads_reach])
  moreover have "cs_pc ?s' 1 = Working release_one demo_gov" "cs_pc ?s' 2 = Working RecordCount demo_gov" by (simp_all add: demo_threads_def)
  then have "data_race ?s'" unfolding data_race_def
    by (intro exI [of _ 1] exI [of _ 2] exI [of _ release_one] exI [of _ RecordCount] exI [of _ demo_gov]) simp
  ultimately show ?thesis by blast
qed

end
