(* ===== verification/Spec2Isabelle.thy ===== *)
theory Spec2Isabelle
  imports Gms_Governor_Plan Gms_System Gms_Benchmark Gms_Cuda Gms_Concurrent
begin

text \<open>
  GPU Memory Service: a verification library for the C++ program of that name.

  \<^bold>\<open>The program.\<close>  The service hands out pieces of one GPU memory arena.  A \<^verbatim>\<open>RegionAllocator\<close> keeps the map of the arena:
  live and free regions that tile it, an index of the free ones, allocation by best fit, release with merging, relocation,
  pinning.  A \<^verbatim>\<open>MemoryGovernor\<close> owns a domain (capacity, watermarks, counters), a backend that provides the arena, the
  allocator, and a record per allocation; it validates requests, checks the authority of a release, classifies memory pressure,
  orders reclaim candidates, plans and applies compaction, and saves and restores its durable state.  Three processes use the
  protocol of \<^verbatim>\<open>protocol.cpp\<close> over loopback sockets: a controller sends requests to the coordinator, the coordinator forwards them
  to the worker registered with it, and the worker calls the CUDA runtime.  A command line tool, two examples, a consumer and a
  benchmark run a governor inside one process.

  \<^bold>\<open>Which theory models what\<close> (sources are relative to \<^verbatim>\<open>src/\<close>; \<^verbatim>\<open>gms/\<close> stands for \<^verbatim>\<open>include/gpu_memory_service/\<close>).

  \<^item> \<^verbatim>\<open>Gms_Prelude\<close>: the widths \<open>u8\<close>, \<open>u32\<close>, \<open>u64\<close>, the helpers of \<^verbatim>\<open>gms/util.hpp\<close>, decimal output, and the lemmas on words
    and lists that the rest shares.
  \<^item> \<^verbatim>\<open>Gms_Types\<close>, \<^verbatim>\<open>Gms_Enums\<close>: \<^verbatim>\<open>gms/types.hpp\<close>, \<^verbatim>\<open>gms/enum.hpp\<close>, \<^verbatim>\<open>gms/error.hpp\<close>.  A phantom tag per identity, as in the
    templates; an enumeration is a datatype with the source's enumerators and one constructor for a byte that names none;
    \<open>result\<close> is \<^verbatim>\<open>Result<T>\<close>, with \<open>Fault\<close> for undefined behaviour and thrown exceptions.
  \<^item> \<^verbatim>\<open>Gms_Containers\<close>: \<^verbatim>\<open>std::map\<close> and \<^verbatim>\<open>std::set\<close> as sorted lists, in iteration order.
  \<^item> \<^verbatim>\<open>Gms_Double\<close>, \<^verbatim>\<open>Gms_Pressure\<close>: IEEE binary64 on bit patterns, and on it \<^verbatim>\<open>gms/memory_domain.hpp\<close>, \<^verbatim>\<open>gms/pressure.hpp\<close>,
    \<^verbatim>\<open>src/pressure.cpp\<close>.
  \<^item> \<^verbatim>\<open>Gms_Region\<close>: \<^verbatim>\<open>gms/region_allocator.hpp\<close> and \<^verbatim>\<open>src/region_allocator.cpp\<close>, every operation (\<open>arena_allocate\<close>, \<open>arena_free\<close>,
    \<open>arena_relocate\<close>, \<open>arena_pin\<close>, \<open>arena_unpin\<close>, \<open>arena_get\<close>, \<open>arena_verify\<close>, the queries with their cached summary).
    \<^verbatim>\<open>Gms_Layout\<close> reads the region map as sets of bytes; \<^verbatim>\<open>Gms_Region_Inv\<close>, \<^verbatim>\<open>Gms_Region_Alloc\<close>, \<^verbatim>\<open>Gms_Region_Move\<close> and
    \<^verbatim>\<open>Gms_Region_Query\<close> hold the invariant and what each operation does to it; \<^verbatim>\<open>Gms_Region_Props\<close> the contracts.
  \<^item> \<^verbatim>\<open>Gms_Allocation\<close>: \<^verbatim>\<open>gms/allocation.hpp\<close>, \<^verbatim>\<open>src/allocation.cpp\<close> (requests, records, \<open>validate_request\<close>).
  \<^item> \<^verbatim>\<open>Gms_Codec\<close>, \<^verbatim>\<open>Gms_Persist\<close>, \<^verbatim>\<open>Gms_Persist_Props\<close>: the byte codecs and the checksum; \<^verbatim>\<open>src/persistence.cpp\<close>, the decoder
    with every check in the order of the code, and the file helpers over a record of the file system's behaviour.
  \<^item> \<^verbatim>\<open>Gms_Governor\<close>: \<^verbatim>\<open>gms/governed_memory.hpp\<close>, \<^verbatim>\<open>src/governed_memory.cpp\<close>, \<^verbatim>\<open>src/host_backend.cpp\<close>.  The record
    \<open>MemoryGovernor\<close> has the private members of the class; each public method is one function on it.  Around it:
    \<^verbatim>\<open>Gms_Governor_Inv\<close> (the invariant, a case rule per method), \<^verbatim>\<open>Gms_Governor_Heap\<close> (the abstract specification and the
    refinement, call by call), \<^verbatim>\<open>Gms_Governor_Props\<close>, \<^verbatim>\<open>Gms_Governor_Plan\<close> (reclaim and compaction), \<^verbatim>\<open>Gms_Governor_Recovery\<close> (restore,
    accounting), \<^verbatim>\<open>Gms_Governor_Durable\<close> (save and load), \<^verbatim>\<open>Gms_Concurrent\<close> (threads that share a governor: which method
    takes the mutex, and what it does to the members, is read off the source; the steps of threads and of a mutex are those of C++).
  \<^item> \<^verbatim>\<open>Gms_Protocol\<close>, \<^verbatim>\<open>Gms_Protocol_Props\<close>: \<^verbatim>\<open>gms/protocol.hpp\<close>, \<^verbatim>\<open>src/protocol.cpp\<close>, \<^verbatim>\<open>src/net.hpp\<close>, over a record of the
    Winsock calls.
  \<^item> \<^verbatim>\<open>Gms_Coordinator\<close>, \<^verbatim>\<open>Gms_Coordinator_Props\<close>, \<^verbatim>\<open>Gms_Worker\<close>, \<^verbatim>\<open>Gms_System\<close>: \<^verbatim>\<open>coordinator/coordinator.cpp\<close>,
    \<^verbatim>\<open>worker/worker.cpp\<close>, and the two of them on two machines with a connection between them.  The state of a process is the
    locals of its \<^verbatim>\<open>main\<close>, one function per iteration of its loop.
  \<^item> \<^verbatim>\<open>Gms_Text\<close>, \<^verbatim>\<open>Gms_Cli\<close>, \<^verbatim>\<open>Gms_Clients\<close>, \<^verbatim>\<open>Gms_Benchmark\<close>: the C library's number parsing; \<^verbatim>\<open>tools/gms.cpp\<close>; \<^verbatim>\<open>consumer/main.cpp\<close>,
    \<^verbatim>\<open>examples/*.cpp\<close>; \<^verbatim>\<open>benchmarks/benchmark.cpp\<close>.
  \<^item> \<^verbatim>\<open>Gms_Cuda\<close>: \<^verbatim>\<open>src/cuda/cuda_backend.cu\<close>, the backend and the two kernels.

  \<^bold>\<open>What is shown.\<close>

  \<^item> Region allocator (C1 to C8).  Every arena that calls can produce (\<open>arena_reach\<close>: a capacity that is not 0, no live identity
    requested again) satisfies \<open>arena_inv\<close>: regions tile the capacity, free
    neighbours are merged, live regions are aligned, index, map, counters and cache agree.  \<open>allocate\<close>, \<open>free\<close> and \<open>relocate\<close> are
    characterised on every input, errors included; allocation is best fit and fails only if nothing fits; stale handles change
    nothing; \<open>verify\<close> finds nothing.
  \<^item> Pressure (C9 to C11): hysteresis, monotonicity and the extremes, through the floating-point operations.
  \<^item> Persistence (C12 to C15): encoding and decoding, what an accepted file guarantees, save and load of a governor after a
    history of well-formed calls (with more than \<open>2^20\<close> live or retired records \<open>load\<close> refuses what \<open>save\<close> wrote), detection of up to four
    damaged bytes.
  \<^item> Governor (C16 to C30): records and live regions correspond one to one; every call is the step of an abstract heap of disjoint
    blocks that the specification gives for that call; \<open>request\<close> and \<open>release\<close> on every branch; no double free; pinned allocations stay; threads
    that share a governor have no data race and see it linearizable, and keep what they were granted; reclaim candidates come in the
    reference order and can be released; a planned step can be applied, and there is a plan whenever there could be one;
    recovery is conservative; the books balance.
  \<^item> Protocol and processes (C31 to C37): the decoder accepts exactly the encodings; damaged frames are rejected; framing does not
    depend on how the network cuts the stream; calls to the network are bounded; the coordinator's table; fencing of a dead
    worker; an allocation from controller to device and back.
  \<^item> Device and clients (C38 to C40): the kernels under every interleaving of their threads; the consumer exits with
    success; all requests of the benchmark succeed.

  \<^bold>\<open>Interfaces.\<close>  \<open>map_store\<close> (the ordered map), \<open>enum_code\<close> (casts between a byte and an enumeration, for eight enumerations), \<open>codec\<close>
  (a writer and its reader; for the primitive codecs, the record and the domain), \<open>handle_op\<close> and its extension
  \<open>consuming_op\<close> (operations on a handle, interpreted for the arena's and the governor's), \<open>stream_socket\<close> (a socket that
  delivers bytes in order, in pieces), its extension \<open>connected\<close> (one that also takes them so), on which \<open>coordinator_host\<close> and
  \<open>worker_host\<close> build (what each process relies on of its machine; interpreted for a pair of machines with their own sizes of pieces),
  \<open>elementwise_kernel\<close> (one cell
  per thread; both kernels).  The properties use the facts of the interpretations.

  \<^bold>\<open>Hypotheses and bounds.\<close>  Words wrap as in the code.  Some statements assume that the 64-bit counter of identities has not
  reached its last value, which takes \<open>2^64 - 1\<close> requests; that a planned arena has at most \<open>2^63\<close> bytes, so that sums of two sizes
  do not wrap; that relocations keep the size, for the accounting, since \<open>apply_relocation\<close> does not update the counters; that
  strings stay below the \<open>2^20\<close> bytes the decoder allows and that there are fewer than \<open>2^32\<close> records, for save and load; that a range of floats is at most
  \<open>(2^31 - 1) * 256\<close> long, the largest grid.  There is no fuel: loops are structural recursion or have a termination
  proof, and the loops over the network, which the peer could keep waiting, are bounded in C34.

  \<^bold>\<open>Parameters.\<close>  Code outside the repository is an argument: \<open>_aligned_malloc\<close>, the CUDA runtime, the arithmetic of the device,
  Winsock, the file system, the process id, the tick count and the clock.  What the code relies on of them is a hypothesis of the
  property or a locale, and a witness instantiates it.  The network has no model of its own: in C37 the two processes meet only in the
  assumption that each reads what the other sends, so the pieces and the schedule are arbitrary.

  \<^bold>\<open>Not modelled.\<close>  Allocation failure inside the C++ library (\<^verbatim>\<open>std::bad_alloc\<close>).  What a thread reads through the inline
  accessors of the governor while another is inside a method: they take no mutex, and only the race is shown (\<open>accessor_races\<close>).  The bytes in the arena: the service only does arithmetic on its
  addresses.  Tests and build files.
\<close>

end
